(* ===== verification/S3TP_Prelude.thy ===== *)
theory S3TP_Prelude
  imports Main "HOL-Library.Word"
begin

unbundle bit_operations_syntax

text \<open>
  Shared vocabulary of the development: the machine integer types of the C++ code, the faults a
  method can run into, the reading of a \<^verbatim>\<open>std::map\<close> with one-byte keys, and the generic facts on
  words, lists and maps that the component theories use.

  Collections: \<open>s3tp_hdr\<close> holds the rewrite rules of header accessors, \<open>s3tp_map\<close> those of
  the \<^verbatim>\<open>std::map\<close> operations.
\<close>

named_theorems s3tp_hdr
named_theorems s3tp_map

type_synonym u8 = "8 word"
type_synonym u16 = "16 word"
type_synonym u32 = "32 word"
type_synonym u64 = "64 word"

text \<open>
  What the source leaves undefined or aborts on is a value: a dereferenced null pointer, an access
  to a freed node or outside an allocated buffer, a failed \<^verbatim>\<open>assert\<close>, an acquisition of a mutex that its own thread
  holds already.
\<close>

datatype fault = NullDeref | Dangling | OutOfBounds | AssertFail | SelfDeadlock

type_synonym 'a result = "fault + 'a"

definition bind_res :: "'a result \<Rightarrow> ('a \<Rightarrow> 'b result) \<Rightarrow> 'b result" where
  "bind_res r f = (case r of Inl e \<Rightarrow> Inl e | Inr x \<Rightarrow> f x)"

lemma bind_res_simps [simp]:
  "bind_res (Inl e) f = Inl e"
  "bind_res (Inr x) f = f x"
  by (simp_all add: bind_res_def)

lemma bind_res_Inr_iff [simp]:
  "bind_res r f = Inr y \<longleftrightarrow> (\<exists>x. r = Inr x \<and> f x = Inr y)"
  by (cases r) auto

lemma bind_res_assoc: "bind_res (bind_res r f) g = bind_res r (\<lambda>x. bind_res (f x) g)"
  by (cases r) simp_all

section \<open>Maps with one-byte keys\<close>

text \<open>
  A \<^verbatim>\<open>std::map\<close> whose keys are \<^verbatim>\<open>uint8_t\<close> (or an \<^verbatim>\<open>int\<close> widened from one) is a partial
  function on bytes. Iteration visits the keys in ascending order; \<^verbatim>\<open>m[k]\<close> on an absent key
  yields the value-initialised 0.
\<close>

definition all_u8 :: "u8 list" where
  "all_u8 = map of_nat [0..<256]"

definition map_keys :: "(u8 \<rightharpoonup> 'v) \<Rightarrow> u8 list" where
  "map_keys m = filter (\<lambda>k. m k \<noteq> None) all_u8"

definition map_begin :: "(u8 \<rightharpoonup> 'v) \<Rightarrow> u8 option" where
  "map_begin m = List.find (\<lambda>k. m k \<noteq> None) all_u8"

definition map_empty :: "(u8 \<rightharpoonup> 'v) \<Rightarrow> bool" where
  "map_empty m \<longleftrightarrow> map_begin m = None"

definition at0 :: "(u8 \<rightharpoonup> u8) \<Rightarrow> u8 \<Rightarrow> u8" where
  "at0 m k = (case m k of None \<Rightarrow> 0 | Some v \<Rightarrow> v)"

lemma set_all_u8 [simp]: "set all_u8 = UNIV"
proof -
  have "x \<in> of_nat ` {0..<256}" for x :: u8
  proof
    show "x = of_nat (unat x)" by simp
    show "unat x \<in> {0..<256}" using unsigned_less [of x, where 'a = nat] by simp
  qed
  then show ?thesis by (auto simp: all_u8_def)
qed

lemma set_map_keys [s3tp_map, simp]: "set (map_keys m) = dom m"
  by (auto simp: map_keys_def)

lemma distinct_all_u8: "distinct all_u8"
proof -
  have "inj_on (of_nat :: nat \<Rightarrow> u8) {0..<256}"
    by (rule inj_on_inverseI [of _ unat]) (simp add: unat_of_nat)
  then show ?thesis by (simp add: all_u8_def distinct_map)
qed

lemma distinct_map_keys: "distinct (map_keys m)"
  by (simp add: map_keys_def distinct_all_u8)

lemma map_begin_None_iff [s3tp_map]: "map_begin m = None \<longleftrightarrow> m = Map.empty"
  by (auto simp: map_begin_def find_None_iff)

lemma map_begin_SomeD: "map_begin m = Some k \<Longrightarrow> k \<in> dom m"
  by (auto simp: map_begin_def find_Some_iff)

lemma map_empty_iff [s3tp_map]: "map_empty m \<longleftrightarrow> m = Map.empty"
  by (simp add: map_empty_def map_begin_None_iff)

lemma at0_upd [s3tp_map, simp]: "at0 (m(k \<mapsto> v)) k' = (if k' = k then v else at0 m k')"
  by (simp add: at0_def)

lemma at0_empty [s3tp_map, simp]: "at0 Map.empty k = 0"
  by (simp add: at0_def)

section \<open>Words\<close>

lemma unat_u8_lt [simp]: "unat (x :: u8) < 256"
  using unsigned_less [of x, where 'a = nat] by simp

lemma unat_u16_lt [simp]: "unat (x :: u16) < 65536"
  using unsigned_less [of x, where 'a = nat] by simp

lemma of_nat_u8_inject: "a < 256 \<Longrightarrow> b < 256 \<Longrightarrow> (of_nat a :: u8) = of_nat b \<longleftrightarrow> a = b"
  by (simp add: word_of_nat_eq_iff take_bit_nat_eq_self)

lemma of_nat_u16_eq_0: "n < 65536 \<Longrightarrow> (of_nat n :: u16) = 0 \<longleftrightarrow> n = 0"
  by (auto simp: word_of_nat_eq_0_iff nat_dvd_not_less)

lemma unat_of_nat_u16: "n < 65536 \<Longrightarrow> unat (of_nat n :: u16) = n"
  by (simp add: unat_of_nat take_bit_nat_eq_self)

lemma unat_of_nat_u8: "n < 256 \<Longrightarrow> unat (of_nat n :: u8) = n"
  by (simp add: unat_of_nat take_bit_nat_eq_self)

lemma unat_add_of_nat_u8: "unat (a :: u8) + n < 256 \<Longrightarrow> unat (a + of_nat n) = unat a + n"
  by (simp add: unat_word_ariths(1) unat_of_nat_u8)

lemma uint_add_of_nat_u8:
  "unat (a :: u8) + n < 256 \<Longrightarrow> uint (a + of_nat n) = uint a + uint (of_nat n :: u8)"
  by (simp only: uint_nat unat_add_of_nat_u8 unat_of_nat_u8)

lemma uint_eq_add_iff: "uint (a :: u8) = uint b + uint c \<longleftrightarrow> unat a = unat b + unat c"
  by (simp only: uint_nat of_nat_add [symmetric] of_nat_eq_iff)

lemma find_all_u8_SomeD:
  assumes "List.find P all_u8 = Some k"
  shows "P k \<and> (\<forall>j<k. \<not> P j)"
proof -
  from assms obtain i where i: "i < 256" "P (all_u8 ! i)" "k = all_u8 ! i" "\<forall>j<i. \<not> P (all_u8 ! j)"
    by (auto simp: find_Some_iff all_u8_def)
  have nth: "all_u8 ! n = of_nat n" if "n < 256" for n
    using that by (simp add: all_u8_def)
  have "\<not> P j" if "j < k" for j
  proof -
    have "unat j < i" using that i nth by (simp add: word_less_nat_alt unat_of_nat_u8)
    with i nth [of "unat j"] show ?thesis by auto
  qed
  with i show ?thesis by simp
qed

text \<open>Equality of bytes and half-words bit by bit, with the bit index a literal.\<close>

lemma all_less_Suc_bits: "(\<forall>n < Suc k. P n) \<longleftrightarrow> P k \<and> (\<forall>n < k. P n)"
  by (auto simp: less_Suc_eq)

lemma word_eq_iff_bits: "(a :: 'a::len word) = b \<longleftrightarrow> (\<forall>n < LENGTH('a). bit a n = bit b n)"
  by (auto intro: bit_word_eqI)

lemma u8_eq_iff:
  "(a :: u8) = b \<longleftrightarrow>
    (bit a 0 = bit b 0 \<and> bit a 1 = bit b 1 \<and> bit a 2 = bit b 2 \<and> bit a 3 = bit b 3 \<and>
     bit a 4 = bit b 4 \<and> bit a 5 = bit b 5 \<and> bit a 6 = bit b 6 \<and> bit a 7 = bit b 7)"
  by (simp add: word_eq_iff_bits [of a] all_less_Suc_bits numeral_eq_Suc conj_ac)

lemma u16_eq_iff:
  "(a :: u16) = b \<longleftrightarrow>
    (bit a 0 = bit b 0 \<and> bit a 1 = bit b 1 \<and> bit a 2 = bit b 2 \<and> bit a 3 = bit b 3 \<and>
     bit a 4 = bit b 4 \<and> bit a 5 = bit b 5 \<and> bit a 6 = bit b 6 \<and> bit a 7 = bit b 7 \<and>
     bit a 8 = bit b 8 \<and> bit a 9 = bit b 9 \<and> bit a 10 = bit b 10 \<and> bit a 11 = bit b 11 \<and>
     bit a 12 = bit b 12 \<and> bit a 13 = bit b 13 \<and> bit a 14 = bit b 14 \<and> bit a 15 = bit b 15)"
  by (simp add: word_eq_iff_bits [of a] all_less_Suc_bits numeral_eq_Suc conj_ac)

lemma bit_times_2_iff: "bit (w * 2 :: 'a::len word) n \<longleftrightarrow> 0 < n \<and> n < LENGTH('a) \<and> bit w (n - 1)"
  by (auto simp: mult.commute [of w] bit_double_iff dest: bit_imp_le_length)

lemmas word_bits = u8_eq_iff u16_eq_iff bit_simps bit_times_2_iff

lemma bit_word_above [simp]:
  "8 \<le> n \<Longrightarrow> \<not> bit (a :: u8) n"
  "16 \<le> n \<Longrightarrow> \<not> bit (b :: u16) n"
  by (auto dest: bit_imp_le_length)

lemma word_less_power_iff:
  assumes "n < LENGTH('a)"
  shows "(w :: 'a::len word) < 2 ^ n \<longleftrightarrow> take_bit n w = w"
proof -
  have "unat w < 2 ^ n \<longleftrightarrow> take_bit n (unat w) = unat w"
    by (simp add: take_bit_nat_eq_self_iff)
  also have "\<dots> \<longleftrightarrow> unat (take_bit n w) = unat w"
    by (simp add: unsigned_take_bit_eq)
  also have "\<dots> \<longleftrightarrow> take_bit n w = w"
    by (simp add: word_unat_eq_iff)
  finally have "unat w < 2 ^ n \<longleftrightarrow> take_bit n w = w" .
  moreover have "unat (of_nat (2 ^ n) :: 'a word) = 2 ^ n"
    using assms by (simp only: unat_of_nat) (simp add: take_bit_nat_eq_self)
  ultimately show ?thesis
    by (simp add: word_less_nat_alt)
qed

lemma u8_less_128_iff: "(p :: u8) < 128 \<longleftrightarrow> \<not> bit p 7"
  using word_less_power_iff [of 7 p] by (auto simp: word_bits)

lemma u8_less_4_iff:
  "(t :: u8) < 4 \<longleftrightarrow> \<not> bit t 2 \<and> \<not> bit t 3 \<and> \<not> bit t 4 \<and> \<not> bit t 5 \<and> \<not> bit t 6 \<and> \<not> bit t 7"
  using word_less_power_iff [of 2 t] by (auto simp: word_bits)

lemma u16_less_0x4000_iff: "(n :: u16) < 0x4000 \<longleftrightarrow> \<not> bit n 14 \<and> \<not> bit n 15"
  using word_less_power_iff [of 14 n] by (auto simp: word_bits)

lemmas word_less_bits = u8_less_128_iff u8_less_4_iff u16_less_0x4000_iff

end
