(* ===== verification/Packet_Format.thy ===== *)
theory Packet_Format
  imports S3TP_Prelude
begin

unbundle bit_operations_syntax

text \<open>
  The packet format of \<^verbatim>\<open>core/CommonTypes.h\<close>: the packed eight byte header with its bit fields,
  the packet with its metadata, the synchronization structure, and the byte layout the link sees.

  The header is a record of the five packed fields; a packet is the record of the header view and
  the rest of its buffer, together with the two metadata members. The layout functions give the
  bytes of the buffer on the little-endian targets of the code.
\<close>

section \<open>Header\<close>

record S3TP_HEADER =
  h_crc :: u16
  h_seq :: u16
  h_pdu_length :: u16
  h_seq_port :: u8
  h_port :: u8

definition moreFragments :: "S3TP_HEADER \<Rightarrow> u8" where
  "moreFragments h = drop_bit 7 (h_port h) AND 1"

definition setMoreFragments :: "S3TP_HEADER \<Rightarrow> S3TP_HEADER" where
  "setMoreFragments h = h\<lparr>h_port := h_port h OR push_bit 7 1\<rparr>"

definition unsetMoreFragments :: "S3TP_HEADER \<Rightarrow> S3TP_HEADER" where
  "unsetMoreFragments h = h\<lparr>h_port := h_port h AND NOT (push_bit 7 1)\<rparr>"

definition getPort :: "S3TP_HEADER \<Rightarrow> u8" where
  "getPort h = h_port h AND 0x7F"

definition setPort :: "u8 \<Rightarrow> S3TP_HEADER \<Rightarrow> S3TP_HEADER" where
  "setPort p h = (let fragFlag = moreFragments h in h\<lparr>h_port := push_bit 7 fragFlag OR p\<rparr>)"

definition getGlobalSequence :: "S3TP_HEADER \<Rightarrow> u8" where
  "getGlobalSequence h = ucast (drop_bit 8 (h_seq h))"

definition setGlobalSequence :: "u8 \<Rightarrow> S3TP_HEADER \<Rightarrow> S3TP_HEADER" where
  "setGlobalSequence g h = h\<lparr>h_seq := (h_seq h AND 0xFF) OR push_bit 8 (ucast g)\<rparr>"

definition getSubSequence :: "S3TP_HEADER \<Rightarrow> u8" where
  "getSubSequence h = ucast (h_seq h AND 0xFF)"

definition setSubSequence :: "u8 \<Rightarrow> S3TP_HEADER \<Rightarrow> S3TP_HEADER" where
  "setSubSequence s h = h\<lparr>h_seq := (h_seq h AND 0xFF00) OR ucast s\<rparr>"

definition getPduLength :: "S3TP_HEADER \<Rightarrow> u16" where
  "getPduLength h = h_pdu_length h AND 0x3FFF"

definition setPduLength :: "u16 \<Rightarrow> S3TP_HEADER \<Rightarrow> S3TP_HEADER" where
  "setPduLength n h = h\<lparr>h_pdu_length := (h_pdu_length h AND 0x4000) OR n\<rparr>"

definition getMessageType :: "S3TP_HEADER \<Rightarrow> u8" where
  "getMessageType h = ucast (drop_bit 14 (h_pdu_length h))"

definition setMessageType :: "u8 \<Rightarrow> S3TP_HEADER \<Rightarrow> S3TP_HEADER" where
  "setMessageType t h = h\<lparr>h_pdu_length := (h_pdu_length h AND 0x3FFF) OR push_bit 14 (ucast t)\<rparr>"

lemmas header_defs = moreFragments_def setMoreFragments_def unsetMoreFragments_def
  getPort_def setPort_def getGlobalSequence_def setGlobalSequence_def
  getSubSequence_def setSubSequence_def getPduLength_def setPduLength_def
  getMessageType_def setMessageType_def

lemma header_update_inject [simp]:
  "h\<lparr>h_seq := a\<rparr> = h\<lparr>h_seq := b\<rparr> \<longleftrightarrow> a = b"
  "h\<lparr>h_port := p\<rparr> = h\<lparr>h_port := q\<rparr> \<longleftrightarrow> p = q"
  "h\<lparr>h_pdu_length := a\<rparr> = h\<lparr>h_pdu_length := b\<rparr> \<longleftrightarrow> a = b"
  by (cases h; simp)+

lemma header_update_self [simp]:
  "h\<lparr>h_seq := a\<rparr> = h \<longleftrightarrow> a = h_seq h"
  "h\<lparr>h_port := p\<rparr> = h \<longleftrightarrow> p = h_port h"
  "h\<lparr>h_pdu_length := a\<rparr> = h \<longleftrightarrow> a = h_pdu_length h"
  by (cases h; auto)+

section \<open>Laws of the header fields\<close>

text \<open>
  A field of the header: a getter, a setter, and the values that fit. What is written is read back,
  a later write supersedes an earlier one, and writing back what was read changes nothing.
\<close>

locale header_field =
  fixes get :: "'h \<Rightarrow> 'v"
    and set :: "'v \<Rightarrow> 'h \<Rightarrow> 'h"
    and fits :: "'v \<Rightarrow> bool"
  assumes get_set: "fits v \<Longrightarrow> get (set v h) = v"
    and set_set: "fits v \<Longrightarrow> fits w \<Longrightarrow> set v (set w h) = set v h"
    and set_get: "set (get h) h = h"
    and fits_get: "fits (get h)"
begin

lemma set_inject: "fits v \<Longrightarrow> fits w \<Longrightarrow> set v h = set w h \<longleftrightarrow> v = w"
  by (metis get_set)

lemma set_eq_self_iff: "fits v \<Longrightarrow> set v h = h \<longleftrightarrow> get h = v"
  by (metis get_set set_get)

end

text \<open>Two fields that share a word of the header without disturbing each other.\<close>

locale independent_fields = a: header_field geta seta fitsa + b: header_field getb setb fitsb
  for geta :: "'h \<Rightarrow> 'v" and seta fitsa and getb :: "'h \<Rightarrow> 'w" and setb fitsb +
  assumes geta_setb: "fitsb w \<Longrightarrow> geta (setb w h) = geta h"
    and getb_seta: "fitsa v \<Longrightarrow> getb (seta v h) = getb h"
    and commute: "fitsa v \<Longrightarrow> fitsb w \<Longrightarrow> seta v (setb w h) = setb w (seta v h)"
begin

lemma both_read_back:
  assumes "fitsa v" "fitsb w"
  shows "geta (seta v (setb w h)) = v \<and> getb (seta v (setb w h)) = w"
  using assms by (simp add: a.get_set b.get_set getb_seta)

lemma both_determine:
  assumes "fitsa v" "fitsb w"
  shows "seta v (setb w h) = h \<longleftrightarrow> geta h = v \<and> getb h = w"
  by (metis assms a.set_get b.set_get both_read_back)

end

definition setFragmentBit :: "bool \<Rightarrow> S3TP_HEADER \<Rightarrow> S3TP_HEADER" where
  "setFragmentBit b h = (if b then setMoreFragments h else unsetMoreFragments h)"

interpretation hport: independent_fields
  getPort setPort "\<lambda>p. p < 128" "\<lambda>h. moreFragments h \<noteq> 0" setFragmentBit "\<lambda>_. True"
  by unfold_locales (auto simp: header_defs setFragmentBit_def Let_def word_bits word_less_bits)

interpretation hseq: independent_fields
  getGlobalSequence setGlobalSequence "\<lambda>_. True" getSubSequence setSubSequence "\<lambda>_. True"
  by unfold_locales (auto simp: header_defs word_bits)

interpretation htype: header_field getMessageType setMessageType "\<lambda>t. t < 4"
  by unfold_locales (auto simp: header_defs word_bits word_less_bits)

lemmas header_laws =
  hport.a.get_set hport.b.get_set hport.geta_setb hport.getb_seta
  hseq.a.get_set hseq.b.get_set hseq.geta_setb hseq.getb_seta htype.get_set

text \<open>
  The length setter keeps bit 14 only: it is lawful for the length itself on packets whose type
  has its upper bit clear, and it clears the upper bit of the type otherwise.
\<close>

lemma getPduLength_setPduLength [s3tp_hdr]:
  "n < 0x4000 \<Longrightarrow> getPduLength (setPduLength n h) = n"
  by (auto simp: header_defs word_bits word_less_bits)

lemma getMessageType_setPduLength [s3tp_hdr]:
  "n < 0x4000 \<Longrightarrow> getMessageType (setPduLength n h) = getMessageType h AND 1"
  by (auto simp: header_defs word_bits word_less_bits)

lemma getPduLength_setMessageType [s3tp_hdr, simp]:
  "getPduLength (setMessageType t h) = getPduLength h"
  by (auto simp: header_defs word_bits)

lemma header_setters_frame [s3tp_hdr, simp]:
  "getPduLength (setPort p h) = getPduLength h"
  "getPduLength (setMoreFragments h) = getPduLength h"
  "getPduLength (unsetMoreFragments h) = getPduLength h"
  "getPduLength (setSubSequence s h) = getPduLength h"
  "getPduLength (setGlobalSequence g h) = getPduLength h"
  "getMessageType (setPort p h) = getMessageType h"
  "getMessageType (setMoreFragments h) = getMessageType h"
  "getMessageType (unsetMoreFragments h) = getMessageType h"
  "getMessageType (setSubSequence s h) = getMessageType h"
  "getMessageType (setGlobalSequence g h) = getMessageType h"
  "getPort (setPduLength n h) = getPort h"
  "getPort (setMessageType t h) = getPort h"
  "getPort (setSubSequence s h) = getPort h"
  "getPort (setGlobalSequence g h) = getPort h"
  "moreFragments (setPduLength n h) = moreFragments h"
  "moreFragments (setMessageType t h) = moreFragments h"
  "moreFragments (setSubSequence s h) = moreFragments h"
  "moreFragments (setGlobalSequence g h) = moreFragments h"
  "getSubSequence (setPort p h) = getSubSequence h"
  "getSubSequence (setMoreFragments h) = getSubSequence h"
  "getSubSequence (unsetMoreFragments h) = getSubSequence h"
  "getSubSequence (setPduLength n h) = getSubSequence h"
  "getSubSequence (setMessageType t h) = getSubSequence h"
  "getGlobalSequence (setPort p h) = getGlobalSequence h"
  "getGlobalSequence (setPduLength n h) = getGlobalSequence h"
  "getGlobalSequence (setMessageType t h) = getGlobalSequence h"
  "getGlobalSequence (setMoreFragments h) = getGlobalSequence h"
  "getGlobalSequence (unsetMoreFragments h) = getGlobalSequence h"
  by (simp_all add: header_defs Let_def)

lemma moreFragments_le_1: "moreFragments h = 0 \<or> moreFragments h = 1"
  by (auto simp: header_defs word_bits)

lemma getPort_less [s3tp_hdr, simp]: "getPort h < 128"
  by (simp add: header_defs word_less_bits bit_simps)

section \<open>Packets\<close>

record S3TP_PACKET =
  p_header :: S3TP_HEADER
  p_payload :: "u8 list"
  p_channel :: u8
  p_options :: u8

text \<open>
  The first constructor copies \<^verbatim>\<open>pduLen\<close> bytes behind a fresh header and sets the length. The
  header bytes and the metadata come from the allocator: \<open>g\<close> is the content of the uninitialised
  memory. The copy reads the source buffer from its first byte; \<open>pdu\<close> lists the bytes up to the
  end of that buffer.
\<close>

definition new_packet :: "S3TP_PACKET \<Rightarrow> u8 list \<Rightarrow> u16 \<Rightarrow> S3TP_PACKET result" where
  "new_packet g pdu pduLen =
     (if unat pduLen \<le> length pdu
      then Inr (g\<lparr>p_header := setPduLength pduLen (p_header g),
                  p_payload := take (unat pduLen) pdu\<rparr>)
      else Inl OutOfBounds)"

definition getLength :: "S3TP_PACKET \<Rightarrow> nat" where
  "getLength p = 8 + unat (getPduLength (p_header p))"

section \<open>Byte layout\<close>

definition u16_bytes :: "u16 \<Rightarrow> u8 list" where
  "u16_bytes w = [ucast w, ucast (drop_bit 8 w)]"

definition bytes_u16 :: "u8 \<Rightarrow> u8 \<Rightarrow> u16" where
  "bytes_u16 lo hi = ucast lo OR push_bit 8 (ucast hi)"

definition header_bytes :: "S3TP_HEADER \<Rightarrow> u8 list" where
  "header_bytes h =
     u16_bytes (h_crc h) @ u16_bytes (h_seq h) @ u16_bytes (h_pdu_length h) @ [h_seq_port h, h_port h]"

fun header_of_bytes :: "u8 list \<Rightarrow> (S3TP_HEADER \<times> u8 list) result" where
  "header_of_bytes (c0 # c1 # s0 # s1 # l0 # l1 # q # p # rest) =
     Inr (\<lparr>h_crc = bytes_u16 c0 c1, h_seq = bytes_u16 s0 s1, h_pdu_length = bytes_u16 l0 l1,
           h_seq_port = q, h_port = p\<rparr>, rest)"
| "header_of_bytes _ = Inl OutOfBounds"

text \<open>
  The second constructor copies a received frame; its header is read in place. \<open>opt\<close> is the
  uninitialised options member.
\<close>

definition packet_of_frame :: "u8 \<Rightarrow> u8 list \<Rightarrow> u8 \<Rightarrow> S3TP_PACKET result" where
  "packet_of_frame opt frame ch =
     bind_res (header_of_bytes frame)
       (\<lambda>(h, rest). Inr \<lparr>p_header = h, p_payload = rest, p_channel = ch, p_options = opt\<rparr>)"

text \<open>The bytes handed to the link: \<^verbatim>\<open>getLength()\<close> bytes from the start of the buffer.\<close>

definition frame_of_packet :: "S3TP_PACKET \<Rightarrow> u8 list result" where
  "frame_of_packet p =
     (if getLength p \<le> 8 + length (p_payload p)
      then Inr (take (getLength p) (header_bytes (p_header p) @ p_payload p))
      else Inl OutOfBounds)"

lemma bytes_u16_bytes [simp]: "bytes_u16 (ucast w) (ucast (drop_bit 8 w)) = w"
  by (auto simp: bytes_u16_def word_bits)

lemma u16_bytes_bytes [simp]: "u16_bytes (bytes_u16 lo hi) = [lo, hi]"
  by (auto simp: u16_bytes_def bytes_u16_def word_bits)

lemma length_header_bytes [simp]: "length (header_bytes h) = 8"
  by (simp add: header_bytes_def u16_bytes_def)

lemma header_of_bytes_roundtrip [simp]: "header_of_bytes (header_bytes h @ xs) = Inr (h, xs)"
  by (simp add: header_bytes_def u16_bytes_def)

lemma header_of_bytes_inverse:
  assumes "header_of_bytes bs = Inr (h, rest)"
  shows "bs = header_bytes h @ rest"
  using assms
  by (cases bs rule: header_of_bytes.cases)
     (auto simp: header_bytes_def)

lemma header_of_bytes_defined: "(\<exists>r. header_of_bytes bs = Inr r) \<longleftrightarrow> 8 \<le> length bs"
  by (cases bs rule: header_of_bytes.cases) auto

lemma frame_roundtrip:
  assumes "unat (getPduLength (p_header p)) = length (p_payload p)"
  shows "\<exists>frame. frame_of_packet p = Inr frame \<and> length frame = getLength p \<and>
    packet_of_frame opt frame ch =
      Inr \<lparr>p_header = p_header p, p_payload = p_payload p, p_channel = ch, p_options = opt\<rparr>"
  using assms by (simp add: frame_of_packet_def packet_of_frame_def getLength_def)

section \<open>Synchronization structure\<close>

record S3TP_SYNC =
  syncId :: u8
  tx_global_seq :: u8
  port_seq :: "u8 list"

definition sync_wf :: "S3TP_SYNC \<Rightarrow> bool" where
  "sync_wf s \<longleftrightarrow> length (port_seq s) = 128"

definition new_sync :: "u8 \<Rightarrow> S3TP_SYNC" where
  "new_sync i = \<lparr>syncId = i, tx_global_seq = 0, port_seq = replicate 128 0\<rparr>"

definition sync_bytes :: "S3TP_SYNC \<Rightarrow> u8 list" where
  "sync_bytes s = syncId s # tx_global_seq s # port_seq s"

definition sync_of_bytes :: "u8 list \<Rightarrow> S3TP_SYNC result" where
  "sync_of_bytes bs =
     (if 130 \<le> length bs
      then Inr \<lparr>syncId = bs ! 0, tx_global_seq = bs ! 1, port_seq = take 128 (drop 2 bs)\<rparr>
      else Inl OutOfBounds)"

lemma length_sync_bytes [simp]: "sync_wf s \<Longrightarrow> length (sync_bytes s) = 130"
  by (simp add: sync_wf_def sync_bytes_def)

lemma sync_roundtrip [simp]: "sync_wf s \<Longrightarrow> sync_of_bytes (sync_bytes s @ xs) = Inr s"
  by (simp add: sync_of_bytes_def sync_wf_def sync_bytes_def)

lemma sync_of_bytes_wf: "sync_of_bytes bs = Inr s \<Longrightarrow> sync_wf s"
  by (auto simp: sync_of_bytes_def sync_wf_def split: if_splits)

section \<open>Sequence numbers\<close>

text \<open>Shared vocabulary of the modules: a packet whose length field is the length of its payload, the
  port sequence number of a packet, and the numbers that follow one another modulo 256.\<close>

definition pkt_wf :: "S3TP_PACKET \<Rightarrow> bool" where
  "pkt_wf x \<longleftrightarrow> unat (getPduLength (p_header x)) = length (p_payload x)"

definition seqs_from :: "u8 \<Rightarrow> nat \<Rightarrow> u8 list" where
  "seqs_from s n = map (\<lambda>i. s + of_nat i) [0..<n]"

abbreviation seq_of :: "S3TP_PACKET \<Rightarrow> u8" where
  "seq_of x \<equiv> h_seq_port (p_header x)"

lemma length_seqs_from [simp]: "length (seqs_from s n) = n"
  by (simp add: seqs_from_def)

lemma seqs_from_Suc: "seqs_from s (Suc n) = s # seqs_from (s + 1) n"
  by (simp add: seqs_from_def upt_conv_Cons map_Suc_upt [symmetric] comp_def add.assoc
      del: upt_Suc map_Suc_upt)

lemma seqs_from_0 [simp]: "seqs_from s 0 = []"
  by (simp add: seqs_from_def)

lemma seqs_from_append: "seqs_from s (a + b) = seqs_from s a @ seqs_from (s + of_nat a) b"
  by (induction a arbitrary: s) (simp_all add: seqs_from_Suc add.assoc)

lemma seqs_from_snoc: "seqs_from s (Suc n) = seqs_from s n @ [s + of_nat n]"
  by (simp add: seqs_from_def)

lemma header_scalar_frame [s3tp_hdr, simp]:
  "getPort (h\<lparr>h_seq_port := a\<rparr>) = getPort h" "getPort (h\<lparr>h_crc := c\<rparr>) = getPort h"
  "getPduLength (h\<lparr>h_seq_port := a\<rparr>) = getPduLength h" "getPduLength (h\<lparr>h_crc := c\<rparr>) = getPduLength h"
  "moreFragments (h\<lparr>h_seq_port := a\<rparr>) = moreFragments h" "moreFragments (h\<lparr>h_crc := c\<rparr>) = moreFragments h"
  "getMessageType (h\<lparr>h_seq_port := a\<rparr>) = getMessageType h" "getMessageType (h\<lparr>h_crc := c\<rparr>) = getMessageType h"
  "getSubSequence (h\<lparr>h_seq_port := a\<rparr>) = getSubSequence h" "getSubSequence (h\<lparr>h_crc := c\<rparr>) = getSubSequence h"
  "getGlobalSequence (h\<lparr>h_seq_port := a\<rparr>) = getGlobalSequence h"
  "getGlobalSequence (h\<lparr>h_crc := c\<rparr>) = getGlobalSequence h"
  by (simp_all add: header_defs)

lemma setFragmentBit_frame [s3tp_hdr, simp]:
  "getPort (setFragmentBit m h) = getPort h"
  "getPduLength (setFragmentBit m h) = getPduLength h"
  "getMessageType (setFragmentBit m h) = getMessageType h"
  "getSubSequence (setFragmentBit m h) = getSubSequence h"
  "getGlobalSequence (setFragmentBit m h) = getGlobalSequence h"
  "moreFragments (setFragmentBit m h) = 0 \<longleftrightarrow> \<not> m"
  using hport.geta_setb [of m h] hport.b.get_set [of m h] by (auto simp: setFragmentBit_def)

lemma setter_scalars [simp]:
  "h_seq_port (setFragmentBit m h) = h_seq_port h" "h_crc (setFragmentBit m h) = h_crc h"
  "h_seq_port (setGlobalSequence g h) = h_seq_port h" "h_crc (setGlobalSequence g h) = h_crc h"
  "h_seq_port (setSubSequence s h) = h_seq_port h" "h_crc (setSubSequence s h) = h_crc h"
  "h_seq_port (setPort p h) = h_seq_port h" "h_crc (setPort p h) = h_crc h"
  "h_seq_port (setPduLength n h) = h_seq_port h" "h_crc (setPduLength n h) = h_crc h"
  "h_seq_port (setMessageType t h) = h_seq_port h" "h_crc (setMessageType t h) = h_crc h"
  by (simp_all add: setFragmentBit_def header_defs Let_def)

end
