(* ===== verification/Priority_Queue.thy ===== *)
theory Priority_Queue
  imports S3TP_Prelude "HOL-Library.Multiset"
begin

text \<open>
  The priority queue of \<^verbatim>\<open>core/PriorityQueue.h\<close> at the level of its node sequence, the comparator
  interface of \<^verbatim>\<open>core/PolicyActor.h\<close>, and the contract a client of the queue relies on. The linked
  representation with its pointers is in \<^verbatim>\<open>Linked_Queue.thy\<close>, which satisfies the same contract.
\<close>

section \<open>Policy actor\<close>

record 'a PolicyActor =
  comparePriority :: "'a \<Rightarrow> 'a \<Rightarrow> int"
  isElementValid :: "'a \<Rightarrow> bool"
  maximumWindowExceeded :: "'a \<Rightarrow> 'a \<Rightarrow> bool"

section \<open>The queue\<close>

text \<open>
  \<^verbatim>\<open>sizeof(S3TP_PACKET)\<close> is ten on a 64-bit target (a pointer and two bytes, packed); the capacity is
  the quotient the macro computes. \<open>pq_nodes\<close> lists the elements from head to tail, \<open>pq_size\<close> is
  the 16-bit counter.
\<close>

abbreviation (input) QUEUE_FULL :: int where "QUEUE_FULL \<equiv> -1"

definition MAX_QUEUE_SIZE :: nat where
  "MAX_QUEUE_SIZE = 1 * 1 * 2 ^ 20"

definition MAX_QUEUE_CAPACITY :: nat where
  "MAX_QUEUE_CAPACITY = MAX_QUEUE_SIZE div 10"

record 'a PriorityQueue =
  pq_nodes :: "'a list"
  pq_size :: u16

definition pq_new :: "'a PriorityQueue" where
  "pq_new = \<lparr>pq_nodes = [], pq_size = 0\<rparr>"

definition pq_isEmpty :: "'a PriorityQueue \<Rightarrow> bool" where
  "pq_isEmpty q \<longleftrightarrow> pq_size q = 0"

definition pq_peek :: "'a PriorityQueue \<Rightarrow> 'a result" where
  "pq_peek q =
     (if pq_isEmpty q then Inl AssertFail
      else case pq_nodes q of [] \<Rightarrow> Inl NullDeref | x # _ \<Rightarrow> Inr x)"

definition pq_pop :: "'a PriorityQueue \<Rightarrow> ('a \<times> 'a PriorityQueue) result" where
  "pq_pop q =
     (if pq_isEmpty q then Inl AssertFail
      else case pq_nodes q of [] \<Rightarrow> Inl NullDeref
           | x # xs \<Rightarrow> Inr (x, q\<lparr>pq_nodes := xs, pq_size := pq_size q - 1\<rparr>))"

text \<open>
  The search for the position of a new element starts at the tail and moves towards the head:
  \<open>r # before\<close> are the nodes from the current one back to the head, \<open>after\<close> those behind it.
\<close>

fun pq_push_loop :: "('a \<Rightarrow> 'a \<Rightarrow> int) \<Rightarrow> 'a \<Rightarrow> 'a list \<Rightarrow> 'a list \<Rightarrow> 'a list" where
  "pq_push_loop cmp x [] after = [x]"
| "pq_push_loop cmp x (r # before) after =
     (if cmp r x < 0 then rev before @ r # x # after
      else if before = [] then x # r # after
      else pq_push_loop cmp x before (r # after))"

definition pq_push :: "'a \<Rightarrow> 'a PolicyActor \<Rightarrow> 'a PriorityQueue \<Rightarrow> int \<times> 'a PriorityQueue" where
  "pq_push x comparator q =
     (if unat (pq_size q) \<ge> MAX_QUEUE_CAPACITY then (QUEUE_FULL, q)
      else (0, q\<lparr>pq_nodes := pq_push_loop (comparePriority comparator) x (rev (pq_nodes q)) [],
                 pq_size := pq_size q + 1\<rparr>))"

definition pq_computeBufferSize :: "'a PriorityQueue \<Rightarrow> u32" where
  "pq_computeBufferSize q = ucast (pq_size q) * 10"

definition pq_getSize :: "'a PriorityQueue \<Rightarrow> u16" where
  "pq_getSize q = pq_size q"

definition pq_clear :: "'a PriorityQueue \<Rightarrow> 'a PriorityQueue" where
  "pq_clear q = q\<lparr>pq_nodes := [], pq_size := 0\<rparr>"

definition pq_ok :: "'a PriorityQueue \<Rightarrow> bool" where
  "pq_ok q \<longleftrightarrow> pq_size q = of_nat (length (pq_nodes q))"

text \<open>The 16-bit counter stays below the capacity: no push is ever refused.\<close>

lemma capacity_not_reached [simp]: "\<not> MAX_QUEUE_CAPACITY \<le> unat (n :: u16)"
  using unat_u16_lt [of n] by (simp add: MAX_QUEUE_CAPACITY_def MAX_QUEUE_SIZE_def del: unat_u16_lt)

section \<open>Insertion\<close>

text \<open>
  Where a new element goes: behind the last node that has a strictly higher priority, in front of
  everything else.
\<close>

definition place :: "('a \<Rightarrow> 'a \<Rightarrow> int) \<Rightarrow> 'a \<Rightarrow> 'a list \<Rightarrow> 'a list" where
  "place cmp x xs =
     (let k = length (dropWhile (\<lambda>r. \<not> cmp r x < 0) (rev xs)) in take k xs @ x # drop k xs)"

lemma place_Nil [simp]: "place cmp x [] = [x]"
  by (simp add: place_def)

lemma place_snoc:
  "place cmp x (xs @ [r]) = (if cmp r x < 0 then xs @ [r, x] else place cmp x xs @ [r])"
proof -
  have "length (dropWhile (\<lambda>r. \<not> cmp r x < 0) (rev xs)) \<le> length xs"
    by (metis length_dropWhile_le length_rev)
  then show ?thesis by (simp add: place_def Let_def)
qed

lemma pq_push_loop_place:
  "bs \<noteq> [] \<Longrightarrow> pq_push_loop cmp x bs after = place cmp x (rev bs) @ after"
  by (induction bs arbitrary: after) (auto simp: place_snoc)

lemma pq_push_loop_eq: "pq_push_loop cmp x (rev xs) [] = place cmp x xs"
  using pq_push_loop_place [of "rev xs" cmp x "[]"] by (cases "xs = []") simp_all

lemma mset_place [simp]: "mset (place cmp x xs) = add_mset x (mset xs)"
  by (simp add: place_def Let_def) (metis append_take_drop_id mset_append)

lemma set_place [simp]: "set (place cmp x xs) = insert x (set xs)"
  by (metis mset_place set_mset_add_mset_insert set_mset_mset)

lemma length_place [simp]: "length (place cmp x xs) = Suc (length xs)"
  by (metis mset_place size_add_mset size_mset)

text \<open>A comparator that orders by a key inserts like insertion sort.\<close>

lemma insort_key_all_less: "\<forall>y\<in>set xs. key y < key x \<Longrightarrow> insort_key key x xs = xs @ [x]"
  by (induction xs) auto

lemma insort_key_snoc_ge:
  "sorted (map key (xs @ [r])) \<Longrightarrow> key x \<le> key r \<Longrightarrow>
    insort_key key x (xs @ [r]) = insort_key key x xs @ [r]"
  by (induction xs) auto

text \<open>
  The contract of a comparator: on the elements that may share a queue, it compares keys. The two
  modules satisfy it on the packets of one port.
\<close>

locale key_comparator =
  fixes cmp :: "'a \<Rightarrow> 'a \<Rightarrow> int"
    and key :: "'a \<Rightarrow> 'k::linorder"
    and comparable :: "'a \<Rightarrow> bool"
  assumes cmp_less: "comparable a \<Longrightarrow> comparable b \<Longrightarrow> cmp a b < 0 \<longleftrightarrow> key a < key b"
begin

lemma place_insort:
  "sorted (map key xs) \<Longrightarrow> \<forall>y \<in> set (x # xs). comparable y \<Longrightarrow> place cmp x xs = insort_key key x xs"
proof (induction xs rule: rev_induct)
  case (snoc r xs)
  then have s: "sorted (map key xs)" "\<forall>y\<in>set xs. key y \<le> key r"
    by (auto simp: sorted_append)
  have c: "cmp r x < 0 \<longleftrightarrow> key r < key x" using snoc.prems by (intro cmp_less) auto
  show ?case
  proof (cases "key r < key x")
    case True
    with s(2) have "\<forall>y\<in>set (xs @ [r]). key y < key x" by auto
    then have "insort_key key x (xs @ [r]) = (xs @ [r]) @ [x]" by (rule insort_key_all_less)
    with True show ?thesis by (simp add: place_snoc c)
  next
    case False
    have "place cmp x xs = insort_key key x xs" using snoc.prems s(1) by (intro snoc.IH) auto
    with False show ?thesis
      using snoc.prems s(1) by (simp add: place_snoc c insort_key_snoc_ge)
  qed
qed simp

lemma sorted_place:
  "sorted (map key xs) \<Longrightarrow> \<forall>y \<in> set (x # xs). comparable y \<Longrightarrow> sorted (map key (place cmp x xs))"
  by (simp add: place_insort sorted_insort_key)

lemma place_last: "\<forall>y \<in> set (x # xs). comparable y \<Longrightarrow> \<forall>y\<in>set xs. key y < key x \<Longrightarrow> place cmp x xs = xs @ [x]"
  by (cases xs rule: rev_cases) (simp_all add: place_snoc cmp_less)

end

section \<open>Contract of a queue\<close>

text \<open>
  What a client may rely on, for any representation \<open>'q\<close> with a representation invariant \<open>ok\<close>
  and a view \<open>contents\<close> of the stored elements. Up to 65535 elements the queue behaves as the
  sequence it represents. A push yields \<open>None\<close> if its search does not end.
\<close>

primrec push_all :: "('a \<Rightarrow> 'q \<Rightarrow> (int \<times> 'q) result option) \<Rightarrow> 'a list \<Rightarrow> 'q \<Rightarrow> 'q option" where
  "push_all push [] q = Some q"
| "push_all push (x # xs) q =
     (case push x q of Some (Inr (c, q')) \<Rightarrow> push_all push xs q' | _ \<Rightarrow> None)"

primrec pop_all :: "('q \<Rightarrow> ('a \<times> 'q) result) \<Rightarrow> nat \<Rightarrow> 'q \<Rightarrow> 'a list result" where
  "pop_all pop 0 q = Inr []"
| "pop_all pop (Suc n) q =
     bind_res (pop q) (\<lambda>(x, q'). bind_res (pop_all pop n q') (\<lambda>xs. Inr (x # xs)))"

locale queue_contract =
  fixes new :: 'q
    and push :: "'a \<Rightarrow> 'a PolicyActor \<Rightarrow> 'q \<Rightarrow> (int \<times> 'q) result option"
    and pop :: "'q \<Rightarrow> ('a \<times> 'q) result"
    and peek :: "'q \<Rightarrow> 'a result"
    and isEmpty :: "'q \<Rightarrow> bool"
    and clear :: "'q \<Rightarrow> 'q result option"
    and getSize :: "'q \<Rightarrow> u16"
    and contents :: "'q \<Rightarrow> 'a list"
    and ok :: "'q \<Rightarrow> bool"
  assumes new_ok: "ok new" "contents new = []"
    and clear_ok: "ok q \<Longrightarrow> \<exists>q'. clear q = Some (Inr q') \<and> ok q' \<and> contents q' = []"
    and push_ok: "ok q \<Longrightarrow> length (contents q) < 65535 \<Longrightarrow>
      \<exists>q'. push x pa q = Some (Inr (0, q')) \<and> ok q' \<and>
        contents q' = place (comparePriority pa) x (contents q)"
    and isEmpty_ok: "ok q \<Longrightarrow> length (contents q) < 65536 \<Longrightarrow> isEmpty q \<longleftrightarrow> contents q = []"
    and pop_ok: "ok q \<Longrightarrow> length (contents q) < 65536 \<Longrightarrow> contents q = x # xs \<Longrightarrow>
      \<exists>q'. pop q = Inr (x, q') \<and> ok q' \<and> contents q' = xs"
    and peek_ok: "ok q \<Longrightarrow> length (contents q) < 65536 \<Longrightarrow> contents q = x # xs \<Longrightarrow> peek q = Inr x"
    and empty_faults: "ok q \<Longrightarrow> contents q = [] \<Longrightarrow> pop q = Inl AssertFail \<and> peek q = Inl AssertFail"
    and getSize_ok: "ok q \<Longrightarrow> getSize q = of_nat (length (contents q))"
begin

lemma push_all_ok:
  assumes "key_comparator (comparePriority pa) key (\<lambda>_. True)"
    and "ok q" "sorted (map key (contents q))" "length (contents q) + length xs < 65536"
  shows "\<exists>q'. push_all (\<lambda>x. push x pa) xs q = Some q' \<and> ok q' \<and> sorted (map key (contents q')) \<and>
    mset (contents q') = mset (contents q) + mset xs"
  using assms(2-)
proof (induction xs arbitrary: q)
  case (Cons x xs)
  then have "length (contents q) < 65535" by simp
  with Cons.prems obtain q1 where q1: "push x pa q = Some (Inr (0, q1))" "ok q1"
      "contents q1 = place (comparePriority pa) x (contents q)"
    using push_ok by blast
  moreover have "sorted (map key (contents q1))"
    using q1(3) Cons.prems key_comparator.sorted_place [OF assms(1)] by metis
  ultimately obtain q' where "push_all (\<lambda>x. push x pa) xs q1 = Some q'" "ok q'"
      "sorted (map key (contents q'))" "mset (contents q') = mset (contents q1) + mset xs"
    using Cons.IH [of q1] Cons.prems by auto
  then show ?case using q1 by auto
qed auto

lemma pop_all_ok:
  assumes "ok q" "length (contents q) < 65536"
  shows "pop_all pop (length (contents q)) q = Inr (contents q)"
  using assms
proof (induction "contents q" arbitrary: q)
  case (Cons x xs)
  then obtain q' where "pop q = Inr (x, q')" "ok q'" "contents q' = xs"
    using pop_ok by metis
  moreover from this Cons.hyps Cons.prems have "pop_all pop (length xs) q' = Inr xs"
    using Cons.hyps(1) [of q'] by (metis Suc_lessD length_Cons)
  ultimately show ?case using Cons.hyps(2) [symmetric] by simp
qed simp

lemma push_pop_all:
  assumes "key_comparator (comparePriority pa) key (\<lambda>_. True)" "length xs < 65536"
  shows "\<exists>q ys. push_all (\<lambda>x. push x pa) xs new = Some q \<and> pop_all pop (length xs) q = Inr ys \<and>
    sorted (map key ys) \<and> mset ys = mset xs"
proof -
  from push_all_ok [OF assms(1) new_ok(1), of xs] assms(2) obtain q where
    q: "push_all (\<lambda>x. push x pa) xs new = Some q" "ok q" "sorted (map key (contents q))"
      "mset (contents q) = mset xs"
    by (auto simp: new_ok)
  then have "length (contents q) = length xs" by (metis size_mset)
  then show ?thesis using q pop_all_ok [of q] assms(2) by auto
qed

end

interpretation pq: queue_contract
  pq_new "\<lambda>x pa q. Some (Inr (pq_push x pa q))" pq_pop pq_peek pq_isEmpty
  "\<lambda>q. Some (Inr (pq_clear q))" pq_getSize
  pq_nodes pq_ok
proof (unfold_locales, goal_cases)
  case (4 q x pa)
  then show ?case by (simp add: pq_push_def pq_ok_def pq_push_loop_eq capacity_not_reached)
next
  case (5 q)
  then show ?case by (simp add: pq_isEmpty_def pq_ok_def of_nat_u16_eq_0)
next
  case (6 q x xs)
  then have "pq_size q \<noteq> 0" by (simp add: pq_ok_def of_nat_u16_eq_0 del: of_nat_Suc)
  with 6 show ?case by (simp add: pq_pop_def pq_isEmpty_def pq_ok_def)
next
  case (7 q x xs)
  then have "pq_size q \<noteq> 0" by (simp add: pq_ok_def of_nat_u16_eq_0 del: of_nat_Suc)
  with 7 show ?case by (simp add: pq_peek_def pq_isEmpty_def)
qed (auto simp: pq_new_def pq_clear_def pq_ok_def pq_pop_def pq_peek_def pq_isEmpty_def pq_getSize_def)

end
