(* ===== verification/Packet_Buffer.thy ===== *)
theory Packet_Buffer
  imports Packet_Format Priority_Queue
begin

text \<open>
  The per-port packet buffer of \<^verbatim>\<open>core/Buffer.cpp\<close>: one priority queue per port and a counter map
  that names the ports with stored packets. The policy actor the buffer was constructed with is an
  argument of the operations that consult it. The contract at the end is what the transmission and
  reception modules rely on.
\<close>

section \<open>State and operations\<close>

text \<open>
  The map of queues holds pointers: an entry is absent, the null pointer (\<open>Some None\<close>) or a queue. The
  subscript \<^verbatim>\<open>queues[port]\<close> inserts a null pointer on a miss.
\<close>

record Buffer =
  queues :: "u8 \<rightharpoonup> S3TP_PACKET PriorityQueue option"
  packet_counter :: "u8 \<rightharpoonup> int"

definition queue_at :: "Buffer \<Rightarrow> u8 \<rightharpoonup> S3TP_PACKET PriorityQueue" where
  "queue_at b port = (case queues b port of None \<Rightarrow> None | Some q \<Rightarrow> q)"

definition touch :: "u8 \<Rightarrow> Buffer \<Rightarrow> Buffer" where
  "touch port b = b\<lparr>queues := (queues b)(port \<mapsto> queue_at b port)\<rparr>"

definition buf_new :: Buffer where
  "buf_new = \<lparr>queues = Map.empty, packet_counter = Map.empty\<rparr>"

definition buf_clear :: "Buffer \<Rightarrow> Buffer" where
  "buf_clear b = b\<lparr>queues := Map.empty, packet_counter := Map.empty\<rparr>"

definition buf_delete :: "Buffer \<Rightarrow> Buffer" where
  "buf_delete b = buf_clear b"

definition buf_clearQueueForPort :: "u8 \<Rightarrow> Buffer \<Rightarrow> Buffer result" where
  "buf_clearQueueForPort port b =
     (case queues b port of
        None \<Rightarrow> Inr (b\<lparr>packet_counter := (packet_counter b)(port := None)\<rparr>)
      | Some None \<Rightarrow> Inl NullDeref
      | Some (Some q) \<Rightarrow> Inr (b\<lparr>queues := (queues b)(port \<mapsto> Some (pq_clear q)),
                                packet_counter := (packet_counter b)(port := None)\<rparr>))"

definition buf_packetsAvailable :: "Buffer \<Rightarrow> bool" where
  "buf_packetsAvailable b \<longleftrightarrow> \<not> map_empty (packet_counter b)"

definition buf_write :: "S3TP_PACKET PolicyActor \<Rightarrow> S3TP_PACKET \<Rightarrow> Buffer \<Rightarrow> (int \<times> Buffer) result" where
  "buf_write pa packet b =
     (let port = getPort (p_header packet);
          queue = (case queue_at b port of None \<Rightarrow> pq_new | Some q \<Rightarrow> q)
      in bind_res (if \<not> pq_isEmpty queue
                   then bind_res (pq_peek queue) (\<lambda>hd. Inr (maximumWindowExceeded pa hd packet))
                   else Inr False)
         (\<lambda>exceeded.
            let queue1 = (if exceeded then pq_clear queue else queue);
                counter1 = (if exceeded then (packet_counter b)(port := None) else packet_counter b);
                (rc, queue2) = pq_push packet pa queue1
            in Inr (0, b\<lparr>queues := (queues b)(port \<mapsto> Some queue2),
                         packet_counter := (if rc = QUEUE_FULL then counter1
                           else counter1(port \<mapsto> uint (pq_getSize queue2)))\<rparr>)))"

definition buf_getActiveQueues :: "Buffer \<Rightarrow> u8 list" where
  "buf_getActiveQueues b =
     filter (\<lambda>p. case packet_counter b p of Some n \<Rightarrow> n > 0 | None \<Rightarrow> False) (map_keys (packet_counter b))"

definition buf_getQueue :: "u8 \<Rightarrow> Buffer \<Rightarrow> S3TP_PACKET PriorityQueue \<times> Buffer" where
  "buf_getQueue port b =
     (case queue_at b port of
        None \<Rightarrow> (pq_new, b\<lparr>queues := (queues b)(port \<mapsto> Some pq_new)\<rparr>)
      | Some q \<Rightarrow> (q, b))"

definition buf_peektNextPacket :: "u8 \<Rightarrow> Buffer \<Rightarrow> (S3TP_PACKET option \<times> Buffer) result" where
  "buf_peektNextPacket port b =
     (case queue_at b port of None \<Rightarrow> Inr (None, touch port b)
      | Some q \<Rightarrow> if pq_isEmpty q then Inr (None, b)
          else bind_res (pq_peek q) (\<lambda>x. Inr (Some x, b)))"

definition buf_popPacketInternal ::
  "S3TP_PACKET PolicyActor \<Rightarrow> u8 \<Rightarrow> Buffer \<Rightarrow> (S3TP_PACKET option \<times> Buffer) result" where
  "buf_popPacketInternal pa port b =
     (case queue_at b port of None \<Rightarrow> Inr (None, touch port b)
      | Some q \<Rightarrow>
          if pq_isEmpty q then Inr (None, b)
          else bind_res (pq_peek q) (\<lambda>packet.
            if \<not> isElementValid pa packet then Inr (None, b)
            else bind_res (pq_pop q) (\<lambda>(packet, q').
              Inr (Some packet,
                   b\<lparr>queues := (queues b)(port \<mapsto> Some q'),
                     packet_counter := (if pq_isEmpty q' then (packet_counter b)(port := None)
                       else (packet_counter b)(port \<mapsto> uint (pq_getSize q')))\<rparr>))))"

definition buf_getNextPacket ::
  "S3TP_PACKET PolicyActor \<Rightarrow> u8 \<Rightarrow> Buffer \<Rightarrow> (S3TP_PACKET option \<times> Buffer) result" where
  "buf_getNextPacket pa port b = buf_popPacketInternal pa port b"

text \<open>The loop over the counter map stops at the first port that yields a packet.\<close>

primrec buf_firstAvailable ::
  "S3TP_PACKET PolicyActor \<Rightarrow> u8 list \<Rightarrow> Buffer \<Rightarrow> (S3TP_PACKET option \<times> Buffer) result" where
  "buf_firstAvailable pa [] b = Inr (None, b)"
| "buf_firstAvailable pa (p # ps) b =
     bind_res (buf_popPacketInternal pa p b) (\<lambda>(packet, b').
       if packet \<noteq> None then Inr (packet, b') else buf_firstAvailable pa ps b')"

definition buf_getNextAvailablePacket ::
  "S3TP_PACKET PolicyActor \<Rightarrow> Buffer \<Rightarrow> (S3TP_PACKET option \<times> Buffer) result" where
  "buf_getNextAvailablePacket pa b =
     (if map_empty (packet_counter b) then Inr (None, b)
      else buf_firstAvailable pa (map_keys (packet_counter b)) b)"

definition buf_getSizeOfQueue :: "u8 \<Rightarrow> Buffer \<Rightarrow> int \<times> Buffer" where
  "buf_getSizeOfQueue port b =
     (case queue_at b port of None \<Rightarrow> (0, touch port b) | Some q \<Rightarrow> (uint (pq_getSize q), b))"

section \<open>Invariant and view\<close>

definition buf_view :: "Buffer \<Rightarrow> u8 \<Rightarrow> S3TP_PACKET list" where
  "buf_view b p = (case queue_at b p of None \<Rightarrow> [] | Some q \<Rightarrow> pq_nodes q)"

text \<open>
  Queue sizes are exact and below the wrap-around of the 16-bit counter, the counter map holds
  exactly the sizes of the non-empty queues, and every packet is stored under its own port.
\<close>

definition buf_ok :: "Buffer \<Rightarrow> bool" where
  "buf_ok b \<longleftrightarrow>
     (\<forall>p q. queue_at b p = Some q \<longrightarrow> pq_ok q \<and> length (pq_nodes q) < 65536) \<and>
     (\<forall>p. packet_counter b p =
        (if buf_view b p = [] then None else Some (int (length (buf_view b p))))) \<and>
     (\<forall>p. \<forall>x \<in> set (buf_view b p). getPort (p_header x) = p)"

definition buf_room :: "Buffer \<Rightarrow> u8 \<Rightarrow> bool" where
  "buf_room b p \<longleftrightarrow> length (buf_view b p) < 65535"

lemma buf_ok_queue:
  assumes "buf_ok b" "queue_at b p = Some q"
  shows "pq_ok q" "length (pq_nodes q) < 65536" "pq_nodes q = buf_view b p"
    "pq_isEmpty q \<longleftrightarrow> buf_view b p = []"
  using assms pq.isEmpty_ok [of q] by (auto simp: buf_ok_def buf_view_def)

lemma buf_ok_counter:
  "buf_ok b \<Longrightarrow> packet_counter b p =
    (if buf_view b p = [] then None else Some (int (length (buf_view b p))))"
  by (simp add: buf_ok_def)

lemma buf_ok_view_bound: "buf_ok b \<Longrightarrow> length (buf_view b p) < 65536"
  by (cases "queue_at b p") (auto simp: buf_ok_def buf_view_def)

lemma uint_pq_getSize: "pq_ok q \<Longrightarrow> length (pq_nodes q) < 65536 \<Longrightarrow>
    uint (pq_getSize q) = int (length (pq_nodes q))"
  by (simp add: pq_getSize_def pq_ok_def uint_nat unat_of_nat_u16)

lemma queue_at_simps [simp]:
  "queue_at (b\<lparr>packet_counter := c\<rparr>) = queue_at b"
  "queue_at (b\<lparr>queues := (queues b)(p \<mapsto> r)\<rparr>) = (queue_at b)(p := r)"
  "queue_at (b\<lparr>queues := (queues b)(p \<mapsto> r), packet_counter := c\<rparr>) = (queue_at b)(p := r)"
  "queue_at (touch p b) = queue_at b"
  by (auto simp: queue_at_def touch_def fun_eq_iff)

lemma touch_ok [simp]:
  "buf_view (touch p b) = buf_view b" "packet_counter (touch p b) = packet_counter b"
  "buf_ok (touch p b) = buf_ok b"
  by (simp_all add: buf_view_def buf_ok_def fun_eq_iff) (simp_all add: touch_def)

lemma buf_view_upd:
  "buf_view (b\<lparr>queues := (queues b)(p \<mapsto> Some q), packet_counter := c\<rparr>) p' =
     (if p' = p then pq_nodes q else buf_view b p')"
  by (simp add: buf_view_def)

lemma buf_ok_upd:
  assumes "buf_ok b" "pq_ok q" "length (pq_nodes q) < 65536"
    and "\<forall>x \<in> set (pq_nodes q). getPort (p_header x) = p"
    and "c = (packet_counter b)(p := if pq_nodes q = [] then None else Some (int (length (pq_nodes q))))"
  shows "buf_ok (b\<lparr>queues := (queues b)(p \<mapsto> Some q), packet_counter := c\<rparr>)"
  using assms by (auto simp: buf_ok_def buf_view_upd)

lemma buf_ok_new [simp]: "buf_ok buf_new" "buf_view buf_new p = []"
  by (simp_all add: buf_ok_def buf_new_def buf_view_def queue_at_def)

lemma buf_clear_ok [simp]: "buf_ok (buf_clear b)" "buf_view (buf_clear b) p = []"
  by (simp_all add: buf_ok_def buf_clear_def buf_view_def queue_at_def)

lemma buf_clearQueueForPort_ok:
  assumes "buf_ok b" and "queues b p \<noteq> Some None"
  shows "\<exists>b'. buf_clearQueueForPort p b = Inr b' \<and> buf_ok b' \<and> buf_view b' = (buf_view b)(p := [])"
proof (cases "queues b p")
  case None
  then have "queue_at b p = None" by (simp add: queue_at_def)
  with None assms show ?thesis
    by (auto simp: buf_ok_def buf_clearQueueForPort_def buf_view_def fun_eq_iff)
next
  case (Some r)
  with assms(2) obtain q where q: "queues b p = Some (Some q)" by auto
  have "buf_ok (b\<lparr>queues := (queues b)(p \<mapsto> Some (pq_clear q)), packet_counter := (packet_counter b)(p := None)\<rparr>)"
    using assms by (intro buf_ok_upd) (simp_all add: pq_ok_def pq_clear_def)
  with q show ?thesis by (auto simp: buf_clearQueueForPort_def buf_view_upd pq_clear_def fun_eq_iff)
qed

lemma queue_present: "buf_view b p \<noteq> [] \<Longrightarrow> queues b p \<noteq> Some None"
  by (auto simp: buf_view_def queue_at_def)

lemma buf_getQueue_ok:
  assumes "buf_ok b"
  shows "pq_nodes (fst (buf_getQueue p b)) = buf_view b p"
    "buf_ok (snd (buf_getQueue p b))" "buf_view (snd (buf_getQueue p b)) = buf_view b"
    "packet_counter (snd (buf_getQueue p b)) = packet_counter b"
    "pq_isEmpty (fst (buf_getQueue p b)) \<longleftrightarrow> buf_view b p = []"
    "buf_view b p = x # xs \<Longrightarrow> pq_peek (fst (buf_getQueue p b)) = Inr x"
proof (goal_cases)
  case 6
  then obtain q where "queue_at b p = Some q" by (auto simp: buf_view_def split: option.splits)
  with 6 assms show ?case
    using pq.peek_ok [of q x xs] buf_ok_queue [of b p q] by (simp add: buf_getQueue_def)
qed (use assms in \<open>auto simp: buf_getQueue_def buf_view_def buf_ok_def pq_new_def pq_ok_def
       pq_isEmpty_def of_nat_u16_eq_0 fun_eq_iff split: option.splits\<close>)

lemma buf_packetsAvailable_ok: "buf_ok b \<Longrightarrow> buf_packetsAvailable b \<longleftrightarrow> (\<exists>p. buf_view b p \<noteq> [])"
  by (auto simp: buf_packetsAvailable_def map_empty_iff fun_eq_iff buf_ok_counter)

lemma buf_getActiveQueues_ok: "buf_ok b \<Longrightarrow> set (buf_getActiveQueues b) = {p. buf_view b p \<noteq> []}"
  by (auto simp: buf_getActiveQueues_def buf_ok_counter split: if_splits)

lemma buf_getSizeOfQueue_ok:
  assumes "buf_ok b"
  shows "fst (buf_getSizeOfQueue p b) = int (length (buf_view b p))"
    "buf_ok (snd (buf_getSizeOfQueue p b))" "buf_view (snd (buf_getSizeOfQueue p b)) = buf_view b"
  using assms
  by (auto simp: buf_getSizeOfQueue_def buf_view_def uint_pq_getSize buf_ok_def split: option.splits)

section \<open>Storing and fetching\<close>

definition stored :: "S3TP_PACKET PolicyActor \<Rightarrow> S3TP_PACKET \<Rightarrow> S3TP_PACKET list \<Rightarrow> S3TP_PACKET list" where
  "stored pa x xs =
     (if xs \<noteq> [] \<and> maximumWindowExceeded pa (hd xs) x then [x] else place (comparePriority pa) x xs)"

lemma stored_Nil [simp]: "stored pa x [] = [x]"
  by (simp add: stored_def)

lemma stored_no_window: "(\<And>a b. \<not> maximumWindowExceeded pa a b) \<Longrightarrow> stored pa x xs = place (comparePriority pa) x xs"
  by (simp add: stored_def)

lemma stored_set: "set (stored pa x xs) \<subseteq> insert x (set xs)" and stored_not_Nil: "stored pa x xs \<noteq> []"
  and stored_length: "length (stored pa x xs) \<le> Suc (length xs)"
  by (auto simp: stored_def dest: arg_cong [of _ _ set])

lemma pq_push_eq:
  "pq_push x pa q = (0, q\<lparr>pq_nodes := place (comparePriority pa) x (pq_nodes q), pq_size := pq_size q + 1\<rparr>)"
  by (simp add: pq_push_def pq_push_loop_eq)

lemma buf_write_ok:
  assumes ok: "buf_ok b" and room: "buf_room b p" and p: "getPort (p_header x) = p"
  shows "\<exists>b'. buf_write pa x b = Inr (0, b') \<and> buf_ok b' \<and>
    buf_view b' = (buf_view b)(p := stored pa x (buf_view b p))"
proof -
  define q where "q = (case queue_at b p of None \<Rightarrow> pq_new | Some q \<Rightarrow> q)"
  have q: "pq_ok q" "pq_nodes q = buf_view b p" "length (pq_nodes q) < 65535"
    using ok room
    by (auto simp: q_def buf_ok_def buf_view_def buf_room_def pq_new_def pq_ok_def split: option.splits)
  have e: "pq_isEmpty q \<longleftrightarrow> buf_view b p = []"
    using q pq.isEmpty_ok [of q] by simp
  let ?ex = "buf_view b p \<noteq> [] \<and> maximumWindowExceeded pa (hd (buf_view b p)) x"
  have ex: "(if \<not> pq_isEmpty q then bind_res (pq_peek q) (\<lambda>hd. Inr (maximumWindowExceeded pa hd x))
      else Inr False) = Inr ?ex"
    using e q pq.peek_ok [of q] by (cases "buf_view b p") auto
  define q2 where "q2 = snd (pq_push x pa (if ?ex then pq_clear q else q))"
  have nodes: "pq_nodes q2 = stored pa x (buf_view b p)"
    using q by (auto simp: q2_def stored_def pq_push_eq pq_clear_def)
  moreover have "pq_ok q2"
    using q by (auto simp: q2_def pq_push_eq pq_clear_def pq_ok_def)
  moreover have "length (pq_nodes q2) < 65536"
    using nodes stored_length [of pa x "buf_view b p"] q by simp
  moreover have "\<forall>y \<in> set (pq_nodes q2). getPort (p_header y) = p"
    using nodes stored_set [of pa x "buf_view b p"] p ok by (auto simp: buf_ok_def)
  ultimately have "buf_ok (b\<lparr>queues := (queues b)(p \<mapsto> Some q2),
      packet_counter := (packet_counter b)(p \<mapsto> uint (pq_getSize q2))\<rparr>)"
    using ok stored_not_Nil by (intro buf_ok_upd) (simp_all add: uint_pq_getSize)
  moreover have "buf_write pa x b = Inr (0, b\<lparr>queues := (queues b)(p \<mapsto> Some q2),
      packet_counter := (packet_counter b)(p \<mapsto> uint (pq_getSize q2))\<rparr>)"
    unfolding buf_write_def p Let_def q_def [symmetric] ex q2_def
    by (simp add: pq_push_eq)
  ultimately show ?thesis
    using nodes by (auto simp: buf_view_upd fun_eq_iff)
qed

lemma buf_pop_ok:
  assumes "buf_ok b"
  shows "buf_view b p = [] \<Longrightarrow>
      buf_popPacketInternal pa p b = Inr (None, if queue_at b p = None then touch p b else b)"
    and "buf_view b p = x # xs \<Longrightarrow> \<not> isElementValid pa x \<Longrightarrow> buf_popPacketInternal pa p b = Inr (None, b)"
    and "buf_view b p = x # xs \<Longrightarrow> isElementValid pa x \<Longrightarrow>
      \<exists>b'. buf_popPacketInternal pa p b = Inr (Some x, b') \<and> buf_ok b' \<and> buf_view b' = (buf_view b)(p := xs)"
proof -
  show "buf_popPacketInternal pa p b = Inr (None, if queue_at b p = None then touch p b else b)"
    if "buf_view b p = []"
    using that assms by (auto simp: buf_popPacketInternal_def buf_ok_queue split: option.splits)
next
  assume v: "buf_view b p = x # xs"
  then obtain q where q: "queue_at b p = Some q" by (auto simp: buf_view_def split: option.splits)
  note qs = buf_ok_queue [OF assms q]
  from qs v have peek: "pq_peek q = Inr x" "\<not> pq_isEmpty q"
    using pq.peek_ok [of q x xs] by simp_all
  show "buf_popPacketInternal pa p b = Inr (None, b)" if "\<not> isElementValid pa x"
    using that q peek by (simp add: buf_popPacketInternal_def)
  from qs v obtain q' where q': "pq_pop q = Inr (x, q')" "pq_ok q'" "pq_nodes q' = xs"
    using pq.pop_ok [of q x xs] by auto
  moreover have len: "length xs < 65536" using qs(2,3) v by simp
  moreover have "pq_isEmpty q' \<longleftrightarrow> xs = []" using q' len pq.isEmpty_ok [of q'] by simp
  moreover have "\<forall>y \<in> set xs. getPort (p_header y) = p"
    using assms v by (force simp: buf_ok_def)
  ultimately have "buf_ok (b\<lparr>queues := (queues b)(p \<mapsto> Some q'),
      packet_counter := (if pq_isEmpty q' then (packet_counter b)(p := None)
        else (packet_counter b)(p \<mapsto> uint (pq_getSize q')))\<rparr>)"
    using assms by (intro buf_ok_upd) (simp_all add: uint_pq_getSize)
  then show "\<exists>b'. buf_popPacketInternal pa p b = Inr (Some x, b') \<and> buf_ok b' \<and>
      buf_view b' = (buf_view b)(p := xs)" if "isElementValid pa x"
    using that q peek q' by (auto simp: buf_popPacketInternal_def buf_view_upd fun_eq_iff)
qed

definition sendable :: "S3TP_PACKET PolicyActor \<Rightarrow> S3TP_PACKET list \<Rightarrow> bool" where
  "sendable pa xs \<longleftrightarrow> xs \<noteq> [] \<and> isElementValid pa (hd xs)"

lemma buf_pop_none:
  assumes "buf_ok b" "\<not> sendable pa (buf_view b p)"
  shows "\<exists>b'. buf_popPacketInternal pa p b = Inr (None, b') \<and> buf_ok b' \<and> buf_view b' = buf_view b"
  using buf_pop_ok(1,2) [OF assms(1), of p] assms
  by (cases "buf_view b p") (simp_all add: sendable_def)

lemma buf_pop_some:
  assumes "buf_ok b" "sendable pa (buf_view b p)"
  shows "\<exists>b'. buf_popPacketInternal pa p b = Inr (Some (hd (buf_view b p)), b') \<and> buf_ok b' \<and>
    buf_view b' = (buf_view b)(p := tl (buf_view b p))"
  using buf_pop_ok(3) [OF assms(1), of p "hd (buf_view b p)" "tl (buf_view b p)" pa] assms(2)
  by (auto simp: sendable_def)

lemma buf_firstAvailable_ok:
  assumes "buf_ok b"
  shows "case List.find (\<lambda>p. sendable pa (buf_view b p)) ps of
      None \<Rightarrow> \<exists>b'. buf_firstAvailable pa ps b = Inr (None, b') \<and> buf_ok b' \<and> buf_view b' = buf_view b
    | Some p \<Rightarrow> \<exists>b'. buf_firstAvailable pa ps b = Inr (Some (hd (buf_view b p)), b') \<and> buf_ok b' \<and>
        buf_view b' = (buf_view b)(p := tl (buf_view b p))"
  using assms
proof (induction ps arbitrary: b)
  case (Cons p ps)
  show ?case
  proof (cases "sendable pa (buf_view b p)")
    case True
    with buf_pop_some [OF Cons.prems True] show ?thesis by auto
  next
    case False
    from buf_pop_none [OF Cons.prems False] obtain b1 where
      "buf_popPacketInternal pa p b = Inr (None, b1)" "buf_ok b1" "buf_view b1 = buf_view b" by blast
    with Cons.IH [of b1] False show ?thesis by (auto simp: fun_upd_def split: option.splits)
  qed
qed simp

text \<open>
  The port served next: the lowest one whose first packet the policy accepts.
\<close>

definition next_port :: "S3TP_PACKET PolicyActor \<Rightarrow> Buffer \<Rightarrow> u8 option" where
  "next_port pa b = List.find (\<lambda>p. sendable pa (buf_view b p)) all_u8"

lemma next_port_None_iff: "next_port pa b = None \<longleftrightarrow> (\<forall>p. \<not> sendable pa (buf_view b p))"
  by (simp add: next_port_def find_None_iff)

lemma next_port_SomeD:
  "next_port pa b = Some p \<Longrightarrow> sendable pa (buf_view b p) \<and> (\<forall>p'<p. \<not> sendable pa (buf_view b p'))"
  by (auto simp: next_port_def dest: find_all_u8_SomeD)

lemma find_filter: "(\<And>x. P x \<Longrightarrow> Q x) \<Longrightarrow> List.find P (filter Q xs) = List.find P xs"
  by (induction xs) auto

lemma buf_getNextAvailablePacket_ok:
  assumes "buf_ok b"
  shows "case next_port pa b of
      None \<Rightarrow> \<exists>b'. buf_getNextAvailablePacket pa b = Inr (None, b') \<and> buf_ok b' \<and> buf_view b' = buf_view b
    | Some p \<Rightarrow> \<exists>b'. buf_getNextAvailablePacket pa b = Inr (Some (hd (buf_view b p)), b') \<and> buf_ok b' \<and>
        buf_view b' = (buf_view b)(p := tl (buf_view b p))"
proof (cases "map_empty (packet_counter b)")
  case True
  then have "buf_view b p = []" for p
    using buf_ok_counter [OF assms, of p] by (auto simp: map_empty_iff split: if_splits)
  then have "next_port pa b = None" by (simp add: next_port_def sendable_def find_None_iff)
  with True assms show ?thesis by (simp add: buf_getNextAvailablePacket_def)
next
  case False
  have "List.find (\<lambda>p. sendable pa (buf_view b p)) (map_keys (packet_counter b)) = next_port pa b"
    unfolding next_port_def map_keys_def
    by (rule find_filter) (simp add: sendable_def buf_ok_counter [OF assms])
  with False buf_firstAvailable_ok [OF assms, of pa "map_keys (packet_counter b)"] show ?thesis
    by (auto simp: buf_getNextAvailablePacket_def split: option.splits)
qed

section \<open>Contract of the buffer\<close>

text \<open>
  What the transmission and reception modules rely on, in terms of the stored sequences only. The
  policy is an argument of the operations: the modules change theirs between calls.
\<close>

locale packet_store =
  fixes store :: "S3TP_PACKET PolicyActor \<Rightarrow> S3TP_PACKET \<Rightarrow> 'b \<Rightarrow> (int \<times> 'b) result"
    and fetch :: "S3TP_PACKET PolicyActor \<Rightarrow> u8 \<Rightarrow> 'b \<Rightarrow> (S3TP_PACKET option \<times> 'b) result"
    and view :: "'b \<Rightarrow> u8 \<Rightarrow> S3TP_PACKET list"
    and ok :: "'b \<Rightarrow> bool"
  assumes store_law: "ok b \<Longrightarrow> length (view b (getPort (p_header x))) < 65535 \<Longrightarrow>
      \<exists>b'. store pa x b = Inr (0, b') \<and> ok b' \<and>
        view b' = (view b)(getPort (p_header x) := stored pa x (view b (getPort (p_header x))))"
    and fetch_law: "ok b \<Longrightarrow> sendable pa (view b p) \<Longrightarrow>
      \<exists>b'. fetch pa p b = Inr (Some (hd (view b p)), b') \<and> ok b' \<and>
        view b' = (view b)(p := tl (view b p))"
    and fetch_none: "ok b \<Longrightarrow> \<not> sendable pa (view b p) \<Longrightarrow>
      \<exists>b'. fetch pa p b = Inr (None, b') \<and> ok b' \<and> view b' = view b"
begin

text \<open>A packet of lower priority than everything stored for its port goes last.\<close>

lemma store_last:
  assumes "ok b" "getPort (p_header x) = p" "length (view b p) < 65535"
    and "\<forall>y \<in> set (view b p). comparePriority pa y x < 0"
    and "\<And>y. \<not> maximumWindowExceeded pa y x"
  shows "\<exists>b'. store pa x b = Inr (0, b') \<and> ok b' \<and> view b' = (view b)(p := view b p @ [x])"
proof -
  have "stored pa x (view b p) = view b p @ [x]"
    using assms(4,5) by (cases "view b p" rule: rev_cases) (simp_all add: stored_def place_snoc)
  then show ?thesis using store_law [of b x pa] assms by auto
qed

end

interpretation buf: packet_store buf_write buf_getNextPacket buf_view buf_ok
proof (unfold_locales, goal_cases)
  case (1 b x pa)
  then show ?case by (intro buf_write_ok) (simp_all add: buf_room_def)
next
  case (2 b pa p)
  then show ?case unfolding buf_getNextPacket_def by (rule buf_pop_some)
next
  case (3 b pa p)
  then show ?case unfolding buf_getNextPacket_def by (rule buf_pop_none)
qed

section \<open>Properties\<close>


text \<open>One packet of port 5 in a fresh buffer.\<close>

definition example_stored :: S3TP_PACKET where
  "example_stored = \<lparr>p_header = \<lparr>h_crc = 0, h_seq = 0, h_pdu_length = 0, h_seq_port = 0, h_port = 5\<rparr>,
     p_payload = [], p_channel = 0, p_options = 0\<rparr>"

abbreviation example_policy :: "S3TP_PACKET PolicyActor" where
  "example_policy \<equiv> \<lparr>comparePriority = \<lambda>_ _. 0, isElementValid = \<lambda>_. True, maximumWindowExceeded = \<lambda>_ _. False\<rparr>"

lemma example_stored_port: "getPort (p_header example_stored) = 5"
  by (simp add: example_stored_def getPort_def)


text \<open>Fetching the next available packet serves the lowest port whose first packet the policy accepts,
  removes exactly that packet, and reports none only when no port can be served.\<close>

theorem buffer_serves_lowest_port:
  assumes "buf_ok b"
  shows "case next_port pa b of
      None \<Rightarrow> (\<exists>b'. buf_getNextAvailablePacket pa b = Inr (None, b') \<and> buf_view b' = buf_view b) \<and>
        (\<forall>p. buf_view b p = [] \<or> \<not> isElementValid pa (hd (buf_view b p)))
    | Some p \<Rightarrow> sendable pa (buf_view b p) \<and> (\<forall>p'<p. \<not> sendable pa (buf_view b p')) \<and>
        (\<exists>b'. buf_getNextAvailablePacket pa b = Inr (Some (hd (buf_view b p)), b') \<and>
          buf_view b' = (buf_view b)(p := tl (buf_view b p)))"
proof (cases "next_port pa b")
  case None
  then have "\<forall>p. \<not> sendable pa (buf_view b p)" using next_port_None_iff by blast
  with None show ?thesis
    using buf_getNextAvailablePacket_ok [OF assms, of pa] by (auto simp: sendable_def)
next
  case (Some p)
  then show ?thesis
    using buf_getNextAvailablePacket_ok [OF assms, of pa]
    by (auto dest: next_port_SomeD)
qed

theorem buffer_serves_lowest_port_witness:
  "\<exists>b b'. buf_write example_policy example_stored buf_new = Inr (0, b) \<and>
    buf_getNextAvailablePacket example_policy b = Inr (Some example_stored, b') \<and> buf_view b' 5 = []"
proof -
  from buf_write_ok [OF buf_ok_new(1), of 5 example_stored example_policy] obtain b where
    b: "buf_write example_policy example_stored buf_new = Inr (0, b)" "buf_ok b"
    "buf_view b = (buf_view buf_new)(5 := [example_stored])"
    by (auto simp: buf_room_def example_stored_port)
  have "next_port example_policy b \<noteq> None"
    unfolding next_port_None_iff by (auto simp: b(3) sendable_def)
  then obtain p where p: "next_port example_policy b = Some p" by auto
  from buffer_serves_lowest_port [OF b(2), of example_policy] p b(3) have
    "p = 5 \<and> (\<exists>b'. buf_getNextAvailablePacket example_policy b = Inr (Some example_stored, b') \<and> buf_view b' 5 = [])"
    by (cases "p = 5") (auto simp: sendable_def)
  with b(1) show ?thesis by blast
qed

end
