(* ===== verification/Checksum.thy ===== *)
theory Checksum
  imports S3TP_Prelude
begin

unbundle bit_operations_syntax

text \<open>
  The checksum of \<^verbatim>\<open>core/utilities.cpp\<close>: the bit-serial computation as the code has it, its
  equivalence with the byte-wise reflected CRC-16 (polynomial 0x8005, register 0, no final
  inversion), its linearity, and the corruptions it always detects.
\<close>

section \<open>The routine\<close>

text \<open>
  The first loop shifts the message in, least significant bit first. \<open>data\<close> lists the bytes from
  the current position to the end of the buffer the pointer refers to; reading past it is a fault.
\<close>

function crc_loop :: "u16 \<Rightarrow> nat \<Rightarrow> u8 list \<Rightarrow> u16 \<Rightarrow> u16 result" where
  "crc_loop out bits_read data sz =
     (if sz = 0 then Inr out
      else case data of [] \<Rightarrow> Inl OutOfBounds | d # rest \<Rightarrow>
        (let bit_flag = drop_bit 15 out;
             out1 = push_bit 1 out OR ucast (drop_bit bits_read d AND 1);
             out2 = (if bit_flag \<noteq> 0 then out1 XOR 0x8005 else out1)
         in if bits_read + 1 > 7 then crc_loop out2 0 rest (sz - 1)
            else crc_loop out2 (bits_read + 1) data sz))"
  by pat_completeness auto
termination
  by (relation "measures [\<lambda>(out, bits_read, data, sz). unat sz,
                          \<lambda>(out, bits_read, data, sz). 8 - bits_read]")
     (auto simp: measure_unat)

declare crc_loop.simps [simp del]

text \<open>The second loop pushes sixteen zero bits through the register.\<close>

definition crc_shift :: "u16 \<Rightarrow> u16" where
  "crc_shift out =
     (let bit_flag = drop_bit 15 out; out1 = push_bit 1 out
      in if bit_flag \<noteq> 0 then out1 XOR 0x8005 else out1)"

primrec crc_flush :: "nat \<Rightarrow> u16 \<Rightarrow> u16" where
  "crc_flush 0 out = out"
| "crc_flush (Suc n) out = crc_flush n (crc_shift out)"

text \<open>The third loop reverses the register: \<open>i\<close> runs down from bit 15, \<open>j\<close> up from bit 0.\<close>

function crc_reverse :: "u32 \<Rightarrow> u32 \<Rightarrow> u16 \<Rightarrow> u16 \<Rightarrow> u16" where
  "crc_reverse i j out crc =
     (if i \<noteq> 0
      then crc_reverse (drop_bit 1 i) (push_bit 1 j) out
             (if i AND ucast out \<noteq> 0 then crc OR ucast j else crc)
      else crc)"
  by pat_completeness auto
termination
proof (relation "measure (\<lambda>(i, j, out, crc). unat i)", goal_cases)
  case (2 i j out crc)
  then have "unat i \<noteq> 0" by (simp add: unat_0_iff)
  moreover have "unat (drop_bit 1 i) = unat i div 2"
    by (simp add: drop_bit_eq_div unat_div_distrib)
  ultimately show ?case by simp
qed simp

declare crc_reverse.simps [simp del]

definition calc_checksum :: "u8 list option \<Rightarrow> u16 \<Rightarrow> u16 result" where
  "calc_checksum data sz =
     (case data of None \<Rightarrow> Inr 0
      | Some d \<Rightarrow> bind_res (crc_loop 0 0 d sz)
                    (\<lambda>out. Inr (crc_reverse 0x8000 1 (crc_flush 16 out) 0)))"

definition verify_checksum :: "u8 list option \<Rightarrow> u16 \<Rightarrow> u16 \<Rightarrow> bool result" where
  "verify_checksum data len checksum =
     bind_res (calc_checksum data len) (\<lambda>crc. Inr (checksum = crc))"

text \<open>The sequence counter; the increment of an \<^verbatim>\<open>int\<close> is undefined at its maximum (\<open>None\<close>).\<close>

definition get_nxt_seq :: "int \<Rightarrow> (u8 \<times> int) option" where
  "get_nxt_seq seed = (if seed < 2 ^ 31 - 1 then Some (word_of_int (seed + 1), seed + 1) else None)"

section \<open>Reference: byte-wise reflected CRC-16\<close>

definition rstep :: "u16 \<Rightarrow> u16" where
  "rstep c = (if bit c 0 then drop_bit 1 c XOR 0xA001 else drop_bit 1 c)"

definition crc16_byte :: "u16 \<Rightarrow> u8 \<Rightarrow> u16" where
  "crc16_byte c b = (rstep ^^ 8) (c XOR ucast b)"

definition crc16 :: "u8 list \<Rightarrow> u16" where
  "crc16 bs = foldl crc16_byte 0 bs"

section \<open>Bit-serial register as a linear map\<close>

definition crc_bit :: "u16 \<Rightarrow> bool \<Rightarrow> u16" where
  "crc_bit s b = crc_shift s XOR of_bool b"

definition byte_bits :: "u8 \<Rightarrow> bool list" where
  "byte_bits d = map (bit d) [0..<8]"

definition rev16 :: "u16 \<Rightarrow> u16" where
  "rev16 w = crc_reverse 0x8000 1 w 0"

lemma drop_bit_15_eq_0_iff: "drop_bit 15 (w :: u16) = 0 \<longleftrightarrow> \<not> bit w 15"
  by (simp add: word_bits)

lemma crc_shift_alt: "crc_shift w = push_bit 1 w XOR (if bit w 15 then 0x8005 else 0)"
  by (simp add: crc_shift_def drop_bit_15_eq_0_iff)

lemma crc_loop_step:
  "(let bit_flag = drop_bit 15 out;
        out1 = push_bit 1 out OR ucast (drop_bit n d AND 1)
    in (if bit_flag \<noteq> 0 then out1 XOR 0x8005 else out1)) = crc_bit out (bit (d :: u8) n)"
  by (auto simp: crc_bit_def crc_shift_alt drop_bit_15_eq_0_iff word_bits)

lemma crc_loop_Cons:
  "crc_loop out bits_read (d # data) sz =
     (if sz = 0 then Inr out
      else if bits_read + 1 > 7 then crc_loop (crc_bit out (bit d bits_read)) 0 data (sz - 1)
      else crc_loop (crc_bit out (bit d bits_read)) (bits_read + 1) (d # data) sz)"
  by (subst crc_loop.simps) (simp only: list.case crc_loop_step [unfolded Let_def] Let_def)

lemma crc_loop_bits:
  assumes "bits_read < 8"
  shows "crc_loop out bits_read (d # data) sz =
    (if sz = 0 then Inr out
     else crc_loop (foldl crc_bit out (map (bit d) [bits_read..<8])) 0 data (sz - 1))"
  using assms
proof (induction "8 - bits_read" arbitrary: out bits_read)
  case (Suc n)
  show ?case
  proof (cases "bits_read = 7")
    case True
    then show ?thesis by (simp add: crc_loop_Cons)
  next
    case False
    with Suc.prems Suc.hyps have "bits_read + 1 < 8" "n = 8 - (bits_read + 1)" by auto
    from Suc.hyps(1) [OF this(2,1)] False Suc.prems show ?thesis
      by (subst crc_loop_Cons) (simp add: upt_conv_Cons)
  qed
qed simp

lemma crc_loop_eq:
  "unat sz \<le> length data \<Longrightarrow>
    crc_loop out 0 data sz = Inr (foldl crc_bit out (concat (map byte_bits (take (unat sz) data))))"
proof (induction data arbitrary: out sz)
  case Nil
  then show ?case by (simp add: crc_loop.simps unat_0_iff)
next
  case (Cons d data)
  show ?case
  proof (cases "sz = 0")
    case True
    then show ?thesis by (simp add: crc_loop.simps)
  next
    case False
    then have "unat sz = Suc (unat (sz - 1))" by (simp add: unat_minus_one unat_gt_0)
    with Cons False show ?thesis by (simp add: crc_loop_bits byte_bits_def)
  qed
qed

lemma crc_loop_fault: "length data < unat sz \<Longrightarrow> crc_loop out 0 data sz = Inl OutOfBounds"
proof (induction data arbitrary: out sz)
  case Nil
  then show ?case by (subst crc_loop.simps) (auto simp: unat_0_iff)
next
  case (Cons d data)
  then have "sz \<noteq> 0" by auto
  then have "unat sz = Suc (unat (sz - 1))" by (simp add: unat_minus_one unat_gt_0)
  with Cons \<open>sz \<noteq> 0\<close> show ?case by (simp add: crc_loop_bits)
qed

lemma crc_reverse_Suc:
  assumes "k < 16"
  shows "crc_reverse (push_bit k 1) j w crc =
    crc_reverse (drop_bit 1 (push_bit k 1)) (push_bit 1 j) w (if bit w k then crc OR ucast j else crc)"
proof -
  have test: "push_bit k 1 AND ucast w \<noteq> (0 :: u32) \<longleftrightarrow> bit w k"
    using assms by (auto simp: word_eq_iff_bits bit_simps)
  have nz: "push_bit k 1 \<noteq> (0 :: u32)"
    using assms by (auto simp: word_eq_iff_bits bit_simps)
  show ?thesis
    by (subst crc_reverse.simps) (simp only: nz test not_False_eq_True if_True)
qed

lemma ucast_single_bit: "m < 16 \<Longrightarrow> bit (ucast (push_bit m 1 :: u32) :: u16) n \<longleftrightarrow> n = m"
  by (auto simp: bit_simps)

lemma crc_reverse_bit:
  "k < 16 \<Longrightarrow> n < 16 \<Longrightarrow>
    bit (crc_reverse (push_bit k 1) (push_bit (15 - k) 1) w crc) n =
      (bit crc n \<or> (15 - k \<le> n \<and> bit w (15 - n)))"
proof (induction k arbitrary: crc)
  case 0
  have z: "drop_bit 1 (push_bit 0 1) = (0 :: u32)" by simp
  have "bit (ucast (push_bit 15 1 :: u32) :: u16) n \<longleftrightarrow> n = 15"
    by (rule ucast_single_bit) simp
  with 0 show ?case
    by (simp only: crc_reverse_Suc z) (subst crc_reverse.simps, auto simp: bit_or_iff)
next
  case (Suc k)
  have d: "drop_bit 1 (push_bit (Suc k) 1) = (push_bit k 1 :: u32)"
    using Suc.prems by (auto simp: word_eq_iff_bits bit_simps)
  have p: "push_bit 1 (push_bit (15 - Suc k) 1) = (push_bit (15 - k) 1 :: u32)"
    using Suc.prems by (simp only: push_bit_push_bit) (rule arg_cong [of _ _ "\<lambda>n. push_bit n 1"], arith)
  have j: "bit (ucast (push_bit (15 - Suc k) 1 :: u32) :: u16) n \<longleftrightarrow> n = 15 - Suc k"
    by (rule ucast_single_bit) simp
  let ?c = "if bit w (Suc k) then crc OR ucast (push_bit (15 - Suc k) 1 :: u32) else crc"
  have "crc_reverse (push_bit (Suc k) 1) (push_bit (15 - Suc k) 1) w crc =
      crc_reverse (push_bit k 1) (push_bit (15 - k) 1) w ?c"
    by (simp only: crc_reverse_Suc [OF Suc.prems(1)] d p)
  moreover have "bit (crc_reverse (push_bit k 1) (push_bit (15 - k) 1) w ?c) n =
      (bit ?c n \<or> (15 - k \<le> n \<and> bit w (15 - n)))"
    using Suc.prems by (intro Suc.IH) auto
  moreover have "bit ?c n = (bit crc n \<or> (n = 15 - Suc k \<and> bit w (15 - n)))"
    using Suc.prems j by (auto simp del: push_bit_of_1 simp add: bit_or_iff)
  moreover have "15 - Suc k \<le> n \<longleftrightarrow> n = 15 - Suc k \<or> 15 - k \<le> n"
    using Suc.prems by auto
  ultimately show ?case by (simp only:) blast
qed

lemma rev16_bit: "n < 16 \<Longrightarrow> bit (rev16 w) n = bit w (15 - n)"
  using crc_reverse_bit [of 15 n w 0] by (simp add: rev16_def)

lemma rev16_eq_iff [simp]: "rev16 a = rev16 b \<longleftrightarrow> a = b"
proof
  assume "rev16 a = rev16 b"
  then have "bit a (15 - n) = bit b (15 - n)" if "n < 16" for n
    by (metis rev16_bit that)
  then have "bit a (15 - (15 - n)) = bit b (15 - (15 - n))" for n
    by simp
  then have "bit a n = bit b n" if "n < 16" for n
    using that by (metis diff_diff_cancel less_Suc_eq_le numeral_eq_Suc pred_numeral_simps(3)
        numeral_nat(3) BitM.simps(1) BitM.simps(2) BitM.simps(3) pred_numeral_simps(2))
  then show "a = b" by (auto intro: bit_word_eqI)
qed simp

lemma crc_shift_xor: "crc_shift (a XOR b) = crc_shift a XOR crc_shift b"
  by (auto simp: crc_shift_alt word_bits)

lemma crc_flush_xor: "crc_flush n (a XOR b) = crc_flush n a XOR crc_flush n b"
  by (induction n arbitrary: a b) (simp_all add: crc_shift_xor)

lemma crc_flush_shift: "crc_flush n (crc_shift a) = crc_shift (crc_flush n a)"
  by (induction n arbitrary: a) simp_all

lemma crc_flush_16_1: "crc_flush 16 1 = 0x8005"
  by code_simp

lemma crc_flush_16_0: "crc_flush n 0 = 0"
  by (induction n) (simp_all add: crc_shift_def)

lemma crc_flush_crc_bit:
  "crc_flush 16 (crc_bit s b) = crc_shift (crc_flush 16 s) XOR (if b then 0x8005 else 0)"
  by (simp add: crc_bit_def crc_flush_xor crc_flush_shift crc_flush_16_1 crc_flush_16_0)

lemma rev16_shift:
  "rev16 (crc_shift c XOR (if b then 0x8005 else 0)) = rstep (rev16 c XOR of_bool b)"
  by (auto simp: rstep_def crc_shift_alt word_bits rev16_bit)

lemma rev16_flush_foldl:
  "rev16 (crc_flush 16 (foldl crc_bit s bs)) =
    foldl (\<lambda>c b. rstep (c XOR of_bool b)) (rev16 (crc_flush 16 s)) bs"
  by (induction bs arbitrary: s) (simp_all add: crc_flush_crc_bit rev16_shift)

lemma rstep_xor: "rstep (a XOR b) = rstep a XOR rstep b"
  by (auto simp: rstep_def word_bits)

lemma rsteps_xor: "(rstep ^^ n) (a XOR b) = (rstep ^^ n) a XOR (rstep ^^ n) b"
  by (induction n) (simp_all add: rstep_xor)

lemma rsteps_low_zero: "\<forall>i<n. \<not> bit x i \<Longrightarrow> (rstep ^^ n) x = drop_bit n x"
  by (induction n) (simp_all add: rstep_def bit_drop_bit_eq)

lemma rsteps_push_bit:
  assumes "n < 8" shows "(rstep ^^ n) (push_bit n (of_bool b)) = of_bool b"
proof -
  have "(rstep ^^ n) (push_bit n (of_bool b)) = drop_bit n (push_bit n (of_bool b :: u16))"
    by (rule rsteps_low_zero) (simp add: bit_push_bit_iff)
  also have "\<dots> = of_bool b"
    using assms by (auto simp: word_eq_iff_bits bit_simps)
  finally show ?thesis .
qed

lemma take_bit_Suc_ucast:
  "n < 8 \<Longrightarrow> take_bit (Suc n) (ucast (d :: u8) :: u16) =
    take_bit n (ucast d) XOR push_bit n (of_bool (bit d n))"
  by (auto simp: word_eq_iff_bits bit_simps less_Suc_eq)

lemma rsteps_bits:
  "n \<le> 8 \<Longrightarrow> foldl (\<lambda>c b. rstep (c XOR of_bool b)) c (map (bit d) [0..<n]) =
    (rstep ^^ n) (c XOR take_bit n (ucast (d :: u8)))"
proof (induction n)
  case (Suc n)
  then show ?case
    by (simp add: take_bit_Suc_ucast rsteps_xor rsteps_push_bit rstep_xor xor.assoc
        del: take_bit_Suc)
qed simp

lemma crc16_byte_eq_bits:
  "foldl (\<lambda>c b. rstep (c XOR of_bool b)) c (byte_bits d) = crc16_byte c d"
proof -
  have "take_bit 8 (ucast d :: u16) = ucast d"
    by (auto simp: word_eq_iff_bits bit_simps dest: bit_imp_le_length)
  then show ?thesis
    using rsteps_bits [of 8 c d] by (simp add: byte_bits_def crc16_byte_def)
qed

lemma crc16_foldl_bits:
  "foldl (\<lambda>c b. rstep (c XOR of_bool b)) c (concat (map byte_bits ds)) = foldl crc16_byte c ds"
  by (induction ds arbitrary: c) (simp_all add: crc16_byte_eq_bits)

lemma calc_checksum_ok:
  assumes "unat sz \<le> length data"
  shows "calc_checksum (Some data) sz = Inr (crc16 (take (unat sz) data))"
proof -
  have "rev16 (crc_flush 16 (foldl crc_bit 0 bs)) =
      foldl (\<lambda>c b. rstep (c XOR of_bool b)) (rev16 0) bs" for bs
    by (simp add: rev16_flush_foldl crc_flush_16_0)
  moreover have "rev16 0 = 0" by (auto simp: word_bits rev16_bit)
  ultimately show ?thesis
    using assms
    by (simp add: calc_checksum_def crc_loop_eq crc16_def crc16_foldl_bits flip: rev16_def)
qed

lemma calc_checksum_fault:
  "length data < unat sz \<Longrightarrow> calc_checksum (Some data) sz = Inl OutOfBounds"
  by (simp add: calc_checksum_def crc_loop_fault)

section \<open>Linearity and detected corruptions\<close>

lemma rstep_eq_0: "rstep c = 0 \<longleftrightarrow> c = 0"
proof
  assume z: "rstep c = 0"
  have "bit (rstep c) 15 \<longleftrightarrow> bit c 0"
    by (simp add: rstep_def bit_simps)
  with z have "\<not> bit c 0" by simp
  with z have d: "drop_bit 1 c = 0" by (simp add: rstep_def)
  have "bit c n = False" for n
    using \<open>\<not> bit c 0\<close> arg_cong [OF d, of "\<lambda>w. bit w (n - 1)"] by (cases n) (auto simp: bit_drop_bit_eq)
  then show "c = 0" by (auto intro: bit_word_eqI)
qed (simp add: rstep_def)

lemma rsteps_eq_0: "(rstep ^^ n) c = 0 \<longleftrightarrow> c = 0"
  by (induction n) (simp_all add: rstep_eq_0)

lemma xor_eq_0_iff: "(a :: 'a::len word) XOR b = 0 \<longleftrightarrow> a = b"
  by (auto simp: word_eq_iff_bits bit_simps)

lemma xor_cancel:
  "(a :: 'a::len word) XOR c = b XOR c \<longleftrightarrow> a = b"
  "(c :: 'a::len word) XOR a = c XOR b \<longleftrightarrow> a = b"
  by (auto simp: word_eq_iff_bits bit_simps)

lemma rsteps_inject: "(rstep ^^ n) a = (rstep ^^ n) b \<longleftrightarrow> a = b"
  by (metis rsteps_eq_0 rsteps_xor xor_eq_0_iff)

lemma crc16_byte_inject: "crc16_byte c d = crc16_byte c' d \<longleftrightarrow> c = c'"
  by (simp only: crc16_byte_def rsteps_inject xor_cancel)

lemma foldl_crc16_inject: "foldl crc16_byte c ds = foldl crc16_byte c' ds \<longleftrightarrow> c = c'"
  by (induction ds arbitrary: c c') (simp_all add: crc16_byte_inject)

lemma rsteps_8_shift: "(rstep ^^ 8) (push_bit 8 (ucast (e :: u8))) = ucast e"
proof -
  have "(rstep ^^ 8) (push_bit 8 (ucast e)) = drop_bit 8 (push_bit 8 (ucast e :: u16))"
    by (rule rsteps_low_zero) (simp add: bit_push_bit_iff)
  also have "\<dots> = ucast e"
    by (auto simp: word_bits)
  finally show ?thesis .
qed

text \<open>Two bytes enter the register as one half-word.\<close>

lemma crc16_byte_pair:
  "crc16_byte (crc16_byte c d) e = (rstep ^^ 16) (c XOR ucast d XOR push_bit 8 (ucast e))"
proof -
  have "(rstep ^^ 8) (c XOR ucast d) XOR ucast e =
      (rstep ^^ 8) (c XOR ucast d XOR push_bit 8 (ucast e))"
    by (simp only: rsteps_xor rsteps_8_shift xor.assoc)
  then show ?thesis
    by (simp only: crc16_byte_def flip: funpow_add [of 8 8 rstep, unfolded o_def, THEN fun_cong])
       (simp add: funpow_add [of 8 8 rstep, simplified])
qed

lemma pair_word_inject:
  "ucast (d :: u8) XOR push_bit 8 (ucast (e :: u8)) =
     (ucast d' XOR push_bit 8 (ucast e') :: u16) \<longleftrightarrow> d = d' \<and> e = e'"
  by (auto simp: word_bits)

lemma crc16_detects_pair:
  "crc16 (xs @ [d, e] @ ys) = crc16 (xs @ [d', e'] @ ys) \<longleftrightarrow> d = d' \<and> e = e'"
  by (simp add: crc16_def foldl_crc16_inject)
     (simp only: crc16_byte_pair rsteps_inject xor_cancel pair_word_inject)

text \<open>C24. The bit-serial routine computes the byte-wise reflected CRC-16 of the first
  \<^verbatim>\<open>size\<close> bytes, and reads outside the buffer exactly when the buffer is shorter.\<close>

theorem calc_checksum_is_crc16:
  "calc_checksum (Some data) sz =
     (if unat sz \<le> length data then Inr (crc16 (take (unat sz) data)) else Inl OutOfBounds)"
  by (simp add: calc_checksum_ok calc_checksum_fault)

text \<open>C25. A payload whose stored checksum is its own verifies; a corruption confined to two
  neighbouring bytes, whatever their new values, does not.\<close>

theorem verify_checksum_detects_burst:
  assumes "length (xs @ [d, e] @ ys) < 65536"
    and "calc_checksum (Some (xs @ [d, e] @ ys)) (of_nat (length (xs @ [d, e] @ ys))) = Inr crc"
  shows "verify_checksum (Some (xs @ [d', e'] @ ys)) (of_nat (length (xs @ [d, e] @ ys))) crc =
    Inr (d' = d \<and> e' = e)"
proof -
  let ?n = "length (xs @ [d, e] @ ys)"
  have n: "unat (of_nat ?n :: u16) = ?n"
    using assms(1) by (simp only: unat_of_nat) (simp add: take_bit_nat_eq_self)
  have "crc = crc16 (xs @ [d, e] @ ys)"
    using assms(2) n by (simp add: calc_checksum_ok)
  moreover have "calc_checksum (Some (xs @ [d', e'] @ ys)) (of_nat ?n) = Inr (crc16 (xs @ [d', e'] @ ys))"
    using n by (simp add: calc_checksum_ok)
  ultimately show ?thesis
    using crc16_detects_pair [of xs d e ys d' e'] by (auto simp: verify_checksum_def)
qed

theorem verify_checksum_detects_burst_witness:
  "verify_checksum (Some [1, 2, 0]) 3 (crc16 [1, 2, 3]) = Inr False"
  using verify_checksum_detects_burst [of "[1]" 2 3 "[]" "crc16 [1, 2, 3]" 2 0]
  by (simp add: calc_checksum_ok)

end
