(* ===== verification/Shared_Codec.thy ===== *)
theory Shared_Codec
  imports S3TP_Prelude
begin

unbundle bit_operations_syntax

text \<open>
  The code shared by the daemon and the connector library, \<^verbatim>\<open>core/S3tpShared.h\<close> and
  \<^verbatim>\<open>core/S3tpShared.cpp\<close>: status codes, configuration and control messages of the local socket,
  the triplicated length field and the bit-flip tolerant readings of one-byte flags.
\<close>

section \<open>Status codes and message structures\<close>

abbreviation (input) CODE_SUCCESS :: int where "CODE_SUCCESS \<equiv> 0"
abbreviation (input) CODE_ERROR_SOCKET_CREATE :: int where "CODE_ERROR_SOCKET_CREATE \<equiv> -1"
abbreviation (input) CODE_ERROR_SOCKET_CONNECT :: int where "CODE_ERROR_SOCKET_CONNECT \<equiv> -2"
abbreviation (input) CODE_ERROR_SOCKET_BIND :: int where "CODE_ERROR_SOCKET_BIND \<equiv> -3"
abbreviation (input) CODE_ERROR_SOCKET_CONFIG :: int where "CODE_ERROR_SOCKET_CONFIG \<equiv> -4"
abbreviation (input) CODE_ERROR_SOCKET_NO_CONN :: int where "CODE_ERROR_SOCKET_NO_CONN \<equiv> -5"
abbreviation (input) CODE_ERROR_SOCKET_WRITE :: int where "CODE_ERROR_SOCKET_WRITE \<equiv> -6"
abbreviation (input) CODE_ERROR_SOCKET_READ :: int where "CODE_ERROR_SOCKET_READ \<equiv> -7"
abbreviation (input) CODE_ERROR_LENGTH_CORRUPT :: int where "CODE_ERROR_LENGTH_CORRUPT \<equiv> -8"
abbreviation (input) CODE_ERROR_INVALID_LENGTH :: int where "CODE_ERROR_INVALID_LENGTH \<equiv> -9"
abbreviation (input) CODE_ERROR_INVALID_TYPE :: int where "CODE_ERROR_INVALID_TYPE \<equiv> -10"
abbreviation (input) CODE_SERVER_ACCEPT :: int where "CODE_SERVER_ACCEPT \<equiv> 0"
abbreviation (input) CODE_SERVER_PORT_BUSY :: int where "CODE_SERVER_PORT_BUSY \<equiv> -11"

abbreviation (input) APP_DATA_MESSAGE :: u8 where "APP_DATA_MESSAGE \<equiv> 0x00"
abbreviation (input) APP_CONTROL_MESSAGE :: u8 where "APP_CONTROL_MESSAGE \<equiv> 0xFF"

datatype AppControlMessageType = ACK | NACK | AVAILABLE | RESERVED

fun control_byte :: "AppControlMessageType \<Rightarrow> u8" where
  "control_byte ACK = 0x00"
| "control_byte NACK = 0x0F"
| "control_byte AVAILABLE = 0xF0"
| "control_byte RESERVED = 0xFF"

record S3TP_CONFIG =
  cfg_port :: u8
  cfg_channel :: u8
  cfg_options :: u8

definition setArq :: "int \<Rightarrow> S3TP_CONFIG \<Rightarrow> S3TP_CONFIG" where
  "setArq act c = c\<lparr>cfg_options := cfg_options c XOR word_of_int (act AND 1)\<rparr>"

record S3TP_CONTROL =
  controlMessageType :: AppControlMessageType
  control_error :: u8

text \<open>The two macros of the header.\<close>

definition MAX_macro :: "'a::linorder \<Rightarrow> 'a \<Rightarrow> 'a" where
  "MAX_macro a b = (if a > b then a else b)"

definition MIN_macro :: "'a::linorder \<Rightarrow> 'a \<Rightarrow> 'a" where
  "MIN_macro a b = (if a > b then a else b)"

section \<open>Redundant length\<close>

text \<open>
  The structure read from the socket is \<open>command\<close>, three copies of the length; \<open>rd\<close> is what
  \<^verbatim>\<open>read\<close> returned. The voting loops compare copy \<open>i\<close> with copies 1 and 2, and keep the
  value with the highest count. The result is the return code and the output parameter.
\<close>

definition read_length_inner :: "u64 list \<Rightarrow> nat \<Rightarrow> nat \<Rightarrow> int \<times> int \<times> u64 \<Rightarrow> int \<times> int \<times> u64" where
  "read_length_inner command i j = (\<lambda>(tempCount, count, out_length).
     let tempCount = (if command ! i = command ! j then tempCount + 1 else tempCount)
     in if tempCount > count then (tempCount, tempCount, command ! i)
        else (tempCount, count, out_length))"

definition read_length_outer :: "u64 list \<Rightarrow> nat \<Rightarrow> int \<times> int \<times> u64 \<Rightarrow> int \<times> int \<times> u64" where
  "read_length_outer command i = (\<lambda>(tempCount, count, out_length).
     fold (read_length_inner command i) [1..<3] (0, count, out_length))"

definition read_length_safe :: "int \<Rightarrow> u64 list \<Rightarrow> u64 \<Rightarrow> int \<times> u64" where
  "read_length_safe rd command out_length0 =
     (if rd < 0 then (CODE_ERROR_SOCKET_READ, out_length0)
      else if rd = 0 then (CODE_ERROR_SOCKET_NO_CONN, out_length0)
      else
        (let (tempCount, count, out_length) =
               fold (read_length_outer command) [0..<2] (0, 0, command ! 0)
         in if count \<le> 3 div 2 then (CODE_ERROR_LENGTH_CORRUPT, 0)
            else (CODE_SUCCESS, out_length)))"

text \<open>The writer sends three copies; \<open>wr\<close> is what \<^verbatim>\<open>write\<close> returned.\<close>

definition redundant_length :: "u64 \<Rightarrow> u64 list" where
  "redundant_length len = map (\<lambda>i. len) [0..<3]"

definition write_length_safe :: "int \<Rightarrow> u64 \<Rightarrow> int \<times> u64 list" where
  "write_length_safe wr len =
     ((if wr \<le> 0 then CODE_ERROR_SOCKET_WRITE else CODE_SUCCESS), redundant_length len)"

section \<open>Tolerant flags\<close>

definition safe_bool_interpretation :: "u8 \<Rightarrow> u8" where
  "safe_bool_interpretation val = (if val = 0x7F \<or> val > 0x80 then 0xFF else 0x00)"

primrec count_low_bits :: "nat \<Rightarrow> u8 \<times> int \<Rightarrow> u8 \<times> int" where
  "count_low_bits 0 s = s"
| "count_low_bits (Suc n) s =
     count_low_bits n (drop_bit 1 (fst s), if fst s mod 2 \<noteq> 0 then snd s + 1 else snd s)"

definition safeMessageTypeInterpretation :: "u8 \<Rightarrow> AppControlMessageType" where
  "safeMessageTypeInterpretation val =
     (let (val, count_low) = count_low_bits 4 (val, 0);
          (val, count_high) = count_low_bits 4 (val, 0)
      in if count_low \<le> 1 \<and> count_high \<le> 1 then ACK
         else if count_high \<le> 1 then NACK
         else if count_low \<le> 1 then AVAILABLE
         else RESERVED)"

lemma read_length_safe_3:
  "rd > 0 \<Longrightarrow> read_length_safe rd [a, b, c] x =
     (if b = c then (CODE_SUCCESS, b) else (CODE_ERROR_LENGTH_CORRUPT, 0))"
  by (simp add: read_length_safe_def read_length_outer_def read_length_inner_def upt_rec Let_def)

lemma setArq_toggles:
  "bit (cfg_options (setArq 1 c)) 0 \<longleftrightarrow> \<not> bit (cfg_options c) 0"
  by (simp add: setArq_def bit_simps)

lemma MIN_macro_is_max: "MIN_macro a b = max a b" "MAX_macro a b = max a b"
  by (auto simp: MIN_macro_def MAX_macro_def max_def)

section \<open>Properties\<close>

text \<open>C40. Voting on the triplicated length, for every outcome of the read: a socket error and a closed
  connection are told apart and leave the output alone; otherwise the vote succeeds exactly when
  the second and third copy agree, with that value. In particular what the writer sends is read back,
  also when the first copy was corrupted.\<close>

theorem read_length_safe_vote:
  "read_length_safe rd [a, b, c] x =
     (if rd < 0 then (CODE_ERROR_SOCKET_READ, x)
      else if rd = 0 then (CODE_ERROR_SOCKET_NO_CONN, x)
      else if b = c then (CODE_SUCCESS, b) else (CODE_ERROR_LENGTH_CORRUPT, 0)) \<and>
   (rd > 0 \<longrightarrow> read_length_safe rd (snd (write_length_safe wr len)) x = (CODE_SUCCESS, len)) \<and>
   (rd > 0 \<longrightarrow> read_length_safe rd ((snd (write_length_safe wr len))[0 := a]) x = (CODE_SUCCESS, len))"
proof -
  have "snd (write_length_safe wr len) = [len, len, len]"
    by (simp add: write_length_safe_def redundant_length_def upt_rec)
  moreover have "read_length_safe rd cmd x = (CODE_ERROR_SOCKET_READ, x)" if "rd < 0" for cmd
    using that by (simp add: read_length_safe_def)
  moreover have "read_length_safe rd cmd x = (CODE_ERROR_SOCKET_NO_CONN, x)" if "rd = 0" for cmd
    using that by (simp add: read_length_safe_def)
  ultimately show ?thesis
    by (simp add: read_length_safe_3 not_less)
qed

theorem read_length_safe_vote_witness:
  "read_length_safe 24 [7, 5, 5] 0 = (CODE_SUCCESS, 5) \<and>
   read_length_safe 24 ((snd (write_length_safe 24 5))[0 := 7]) 0 = (CODE_SUCCESS, 5)"
  using read_length_safe_vote [of 24 7 5 5 0 24 5] by simp

text \<open>A length whose last copy alone was corrupted is rejected, and so is one whose middle copy
  alone was corrupted, although two of the three copies agree: the quorum the comment of the code
  promises is not reached, because copy 0 is never counted as agreeing with itself.\<close>

lemma read_length_safe_rejects_majority:
  assumes "rd > 0" and "x \<noteq> len"
  shows "read_length_safe rd [len, len, x] o0 = (CODE_ERROR_LENGTH_CORRUPT, 0) \<and>
    read_length_safe rd [len, x, len] o0 = (CODE_ERROR_LENGTH_CORRUPT, 0)"
  using assms by (simp add: read_length_safe_3)

text \<open>Every control code is read back correctly when at most one bit of each nibble was flipped.\<close>

lemma safeMessageType_corrects_nibble_flips:
  assumes "lo \<in> {0, 1, 2, 4, 8}" and "hi \<in> {0, 1, 2, 4, 8}"
  shows "safeMessageTypeInterpretation (control_byte t XOR (lo OR push_bit 4 hi)) = t"
proof -
  have "\<forall>t \<in> {ACK, NACK, AVAILABLE, RESERVED}. \<forall>lo \<in> {0, 1, 2, 4, 8}. \<forall>hi \<in> {0, 1, 2, 4, 8}.
      safeMessageTypeInterpretation (control_byte t XOR (lo OR push_bit 4 hi)) = t"
    by code_simp
  moreover have "t \<in> {ACK, NACK, AVAILABLE, RESERVED}" by (cases t) simp_all
  ultimately show ?thesis using assms by blast
qed

text \<open>The one-byte boolean survives the flip of any single bit.\<close>

lemma safe_bool_corrects_single_flip:
  assumes "i < 8"
  shows "safe_bool_interpretation (0xFF XOR push_bit i 1) = 0xFF \<and>
    safe_bool_interpretation (0x00 XOR push_bit i 1) = 0x00"
proof -
  have "\<forall>i \<in> set [0..<8]. safe_bool_interpretation (0xFF XOR push_bit i 1) = 0xFF \<and>
    safe_bool_interpretation (0x00 XOR push_bit i 1) = 0x00"
    by code_simp
  with assms show ?thesis by simp
qed

end
