(* ===== verification/Tx_Module.thy ===== *)
theory Tx_Module
  imports Packet_Buffer Checksum Shared_Codec
begin

unbundle bit_operations_syntax

text \<open>
  The transmission module, \<^verbatim>\<open>core/TxModule.cpp\<close>: enqueueing of packets with per-port sequence
  numbers, the body of the transmission thread, the synchronization packet and the channel blacklist.
  Each method runs as one step; the link is a parameter that shows its status and receives frames.
\<close>

section \<open>State\<close>

datatype STATE = RUNNING | BLOCKED | WAITING

abbreviation (input) CODE_INACTIVE_ERROR :: int where "CODE_INACTIVE_ERROR \<equiv> -1"
abbreviation (input) S3TP_MSG_DATA :: u8 where "S3TP_MSG_DATA \<equiv> 0x00"
abbreviation (input) S3TP_MSG_SYNC :: u8 where "S3TP_MSG_SYNC \<equiv> 0x03"
abbreviation (input) S3TP_SYNC_INITIATOR :: u8 where "S3TP_SYNC_INITIATOR \<equiv> 0x00"
abbreviation (input) S3TP_SYNC_ACK :: u8 where "S3TP_SYNC_ACK \<equiv> 0xFF"
abbreviation (input) DEFAULT_SYNC_CHANNEL :: u8 where "DEFAULT_SYNC_CHANNEL \<equiv> 0"
abbreviation (input) S3TP_VIRTUAL_CHANNELS :: nat where "S3TP_VIRTUAL_CHANNELS \<equiv> 7"
abbreviation (input) S3TP_OPTION_ARQ :: u8 where "S3TP_OPTION_ARQ \<equiv> 0x01"

record TxModule =
  tx_state :: STATE
  tx_active :: bool
  channel_blacklist :: "u8 set"
  sendingFragments :: bool
  currentPort :: u8
  scheduled_sync :: bool
  syncPacket :: S3TP_PACKET
  to_consume_port_seq :: "u8 \<rightharpoonup> u8"
  port_sequence :: "u8 \<rightharpoonup> u8"
  global_seq_num :: u8
  outBuffer :: Buffer
  tx_statusInterface :: bool

text \<open>What the link interface shows during one iteration, and a frame handed to it.\<close>

record Link =
  getLinkStatus :: bool
  getBufferFull :: "u8 \<Rightarrow> bool"

record Frame =
  f_arq :: bool
  f_channel :: u8
  f_data :: "u8 list"

text \<open>What an iteration of the transmission thread shows to the outside.\<close>

record TxOutput =
  out_frames :: "Frame list"
  out_packet :: "S3TP_PACKET option"
  out_waits :: bool
  out_notify :: "u8 option"

section \<open>Operations\<close>

text \<open>
  The constructor; \<open>g\<close> is the uninitialised memory of the synchronization packet and \<open>si\<close> whether the
  status interface, which no constructor sets, happens not to be null.
\<close>

definition tx_new :: "S3TP_PACKET \<Rightarrow> bool \<Rightarrow> TxModule result" where
  "tx_new g si =
     bind_res (new_packet g (sync_bytes (new_sync 0)) 130) (\<lambda>sp.
       let hdr = setMessageType S3TP_MSG_SYNC (p_header sp);
           hdr = setPort 0 hdr;
           hdr = setGlobalSequence 0 hdr;
           hdr = setSubSequence 0 hdr;
           hdr = unsetMoreFragments hdr;
           hdr = hdr\<lparr>h_seq_port := 0\<rparr>
       in Inr \<lparr>tx_state = WAITING, tx_active = False, channel_blacklist = {}, sendingFragments = False,
               currentPort = 0, scheduled_sync = False,
               syncPacket = sp\<lparr>p_header := hdr, p_channel := DEFAULT_SYNC_CHANNEL,
                               p_options := S3TP_OPTION_ARQ\<rparr>,
               to_consume_port_seq = Map.empty, port_sequence = Map.empty, global_seq_num = 0,
               outBuffer = buf_new, tx_statusInterface = si\<rparr>)"

definition tx_setStatusInterface :: "bool \<Rightarrow> TxModule \<Rightarrow> TxModule" where
  "tx_setStatusInterface si t = t\<lparr>tx_statusInterface := si\<rparr>"

definition tx_reset :: "TxModule \<Rightarrow> TxModule" where
  "tx_reset t =
     t\<lparr>global_seq_num := 0, port_sequence := Map.empty, to_consume_port_seq := Map.empty,
       outBuffer := buf_clear (outBuffer t)\<rparr>"

text \<open>The destructor; the object is not used afterwards.\<close>

definition tx_delete :: "TxModule \<Rightarrow> TxModule" where
  "tx_delete t = t\<lparr>tx_state := WAITING, outBuffer := buf_delete (outBuffer t)\<rparr>"

text \<open>Channels.\<close>

definition channelsAvailable :: "TxModule \<Rightarrow> bool" where
  "channelsAvailable t \<longleftrightarrow> card (channel_blacklist t) < S3TP_VIRTUAL_CHANNELS"

definition tx_setChannelAvailable :: "u8 \<Rightarrow> bool \<Rightarrow> TxModule \<Rightarrow> TxModule" where
  "tx_setChannelAvailable ch available t =
     (if available then t\<lparr>channel_blacklist := channel_blacklist t - {ch}\<rparr>
      else t\<lparr>channel_blacklist := insert ch (channel_blacklist t)\<rparr>)"

definition tx_isChannelAvailable :: "u8 \<Rightarrow> TxModule \<Rightarrow> bool" where
  "tx_isChannelAvailable ch t \<longleftrightarrow> ch \<notin> channel_blacklist t"

text \<open>The same two for callers that hold the mutex.\<close>

definition tx_setChannelAvailable_locked :: "u8 \<Rightarrow> bool \<Rightarrow> TxModule \<Rightarrow> TxModule" where
  "tx_setChannelAvailable_locked ch available t =
     (if available then t\<lparr>channel_blacklist := channel_blacklist t - {ch}\<rparr>
      else t\<lparr>channel_blacklist := insert ch (channel_blacklist t)\<rparr>)"

definition tx_isChannelAvailable_locked :: "u8 \<Rightarrow> TxModule \<Rightarrow> bool" where
  "tx_isChannelAvailable_locked ch t \<longleftrightarrow> ch \<notin> channel_blacklist t"

lemma tx_channel_locked [simp]:
  "tx_setChannelAvailable_locked = tx_setChannelAvailable" "tx_isChannelAvailable_locked = tx_isChannelAvailable"
  by (simp_all add: fun_eq_iff tx_setChannelAvailable_locked_def tx_setChannelAvailable_def
      tx_isChannelAvailable_locked_def tx_isChannelAvailable_def)

text \<open>Policy actor of the outgoing buffer.\<close>

definition tx_comparePriority :: "TxModule \<Rightarrow> S3TP_PACKET \<Rightarrow> S3TP_PACKET \<Rightarrow> int" where
  "tx_comparePriority t e1 e2 =
     (let offset = at0 (to_consume_port_seq t) (getPort (p_header e1));
          seq1 = h_seq_port (p_header e1) - offset;
          seq2 = h_seq_port (p_header e2) - offset
      in if seq1 < seq2 then -1 else if seq1 > seq2 then 1 else 0)"

definition tx_isElementValid :: "TxModule \<Rightarrow> S3TP_PACKET \<Rightarrow> bool" where
  "tx_isElementValid t e \<longleftrightarrow> tx_isChannelAvailable_locked (p_channel e) t"

definition tx_maximumWindowExceeded :: "TxModule \<Rightarrow> S3TP_PACKET \<Rightarrow> S3TP_PACKET \<Rightarrow> bool" where
  "tx_maximumWindowExceeded t queueHead newElement = False"

definition tx_policy :: "TxModule \<Rightarrow> S3TP_PACKET PolicyActor" where
  "tx_policy t = \<lparr>comparePriority = tx_comparePriority t, isElementValid = tx_isElementValid t,
     maximumWindowExceeded = tx_maximumWindowExceeded t\<rparr>"

text \<open>
  The synchronization packet: the port sequences are cleared, the ports in use are written at their
  index, the checksum is renewed and the packet goes out.
\<close>

primrec sync_fill :: "(u8 \<rightharpoonup> u8) \<Rightarrow> u8 list \<Rightarrow> u8 list \<Rightarrow> u8 list result" where
  "sync_fill m [] ps = Inr ps"
| "sync_fill m (k # ks) ps =
     (if unat k < length ps then sync_fill m ks (ps[unat k := at0 m k]) else Inl OutOfBounds)"

definition tx_synchronizeStatus :: "TxModule \<Rightarrow> (Frame \<times> TxModule) result" where
  "tx_synchronizeStatus t =
     (let sp = syncPacket t in
      bind_res (sync_of_bytes (p_payload sp)) (\<lambda>s.
      bind_res (sync_fill (port_sequence t) (map_keys (port_sequence t)) (replicate 128 0)) (\<lambda>ps.
      let payload = sync_bytes (s\<lparr>tx_global_seq := global_seq_num t, port_seq := ps\<rparr>)
                      @ drop 130 (p_payload sp) in
      bind_res (calc_checksum (Some payload) (getPduLength (p_header sp))) (\<lambda>crc.
      let sp' = sp\<lparr>p_payload := payload, p_header := (p_header sp)\<lparr>h_crc := crc\<rparr>\<rparr> in
      bind_res (frame_of_packet sp') (\<lambda>bytes.
      Inr (\<lparr>f_arq = True, f_channel = p_channel sp', f_data = bytes\<rparr>, t\<lparr>syncPacket := sp'\<rparr>))))))"

definition scheduleSync :: "u8 \<Rightarrow> TxModule \<Rightarrow> TxModule result" where
  "scheduleSync i t =
     (if p_payload (syncPacket t) = [] then Inl OutOfBounds
      else Inr (t\<lparr>scheduled_sync := True,
             syncPacket := (syncPacket t)\<lparr>p_payload := (p_payload (syncPacket t))[0 := i]\<rparr>\<rparr>))"

definition startRoutine :: "TxModule \<Rightarrow> TxModule" where
  "startRoutine t = t\<lparr>tx_active := True\<rparr>"

definition stopRoutine :: "TxModule \<Rightarrow> TxModule" where
  "stopRoutine t = t\<lparr>tx_active := False\<rparr>"

definition getCurrentState :: "TxModule \<Rightarrow> STATE" where
  "getCurrentState t = tx_state t"

definition isQueueAvailable :: "u8 \<Rightarrow> u8 \<Rightarrow> TxModule \<Rightarrow> bool \<times> TxModule" where
  "isQueueAvailable port no_packets t =
     (let (n, b) = buf_getSizeOfQueue port (outBuffer t)
      in (n + uint no_packets \<le> int MAX_QUEUE_SIZE, t\<lparr>outBuffer := b\<rparr>))"

definition enqueuePacket :: "S3TP_PACKET \<Rightarrow> u8 \<Rightarrow> bool \<Rightarrow> TxModule \<Rightarrow> (int \<times> TxModule) result" where
  "enqueuePacket packet frag_no more_fragments t =
     (if \<not> tx_active t then Inr (CODE_INACTIVE_ERROR, t)
      else
        let hdr = setMessageType S3TP_MSG_DATA (p_header packet);
            hdr = setSubSequence frag_no hdr;
            hdr = (if more_fragments then setMoreFragments hdr else unsetMoreFragments hdr);
            port = getPort hdr;
            hdr = hdr\<lparr>h_seq_port := at0 (port_sequence t) port\<rparr>;
            t1 = t\<lparr>port_sequence := (port_sequence t)(port \<mapsto> at0 (port_sequence t) port + 1)\<rparr>
        in bind_res (calc_checksum (Some (p_payload packet)) (getPduLength hdr)) (\<lambda>crc.
           let packet' = packet\<lparr>p_header := hdr\<lparr>h_crc := crc\<rparr>\<rparr> in
           bind_res (buf_write (tx_policy t1) packet' (outBuffer t1)) (\<lambda>(rc, b).
           Inr (0, t1\<lparr>outBuffer := b\<rparr>))))"

section \<open>The transmission thread\<close>

text \<open>The part of an iteration before the buffer is looked at: a scheduled synchronization goes first.\<close>

definition tx_sync_phase :: "Link \<Rightarrow> TxModule \<Rightarrow> (Frame list \<times> TxModule) result" where
  "tx_sync_phase link t =
     (if scheduled_sync t \<and> tx_isChannelAvailable_locked DEFAULT_SYNC_CHANNEL t then
        if getBufferFull link DEFAULT_SYNC_CHANNEL
        then Inr ([], tx_setChannelAvailable_locked DEFAULT_SYNC_CHANNEL False t)
        else bind_res (tx_synchronizeStatus t) (\<lambda>(f, t'). Inr ([f], t'\<lparr>scheduled_sync := False\<rparr>))
      else Inr ([], t))"

text \<open>The part that stamps a fetched packet and hands it to the link.\<close>

definition tx_send_phase :: "S3TP_PACKET \<Rightarrow> TxModule \<Rightarrow> (TxOutput \<times> TxModule) result" where
  "tx_send_phase packet t =
     (let hdr = p_header packet;
          t1 = t\<lparr>currentPort := getPort hdr, sendingFragments := moreFragments hdr \<noteq> 0\<rparr>;
          hdr' = setGlobalSequence (global_seq_num t1) hdr;
          packet' = packet\<lparr>p_header := hdr'\<rparr>;
          t2 = (if moreFragments hdr' = 0 then t1\<lparr>global_seq_num := global_seq_num t1 + 1\<rparr> else t1);
          port = getPort hdr';
          t3 = t2\<lparr>to_consume_port_seq :=
                    (to_consume_port_seq t2)(port \<mapsto> at0 (to_consume_port_seq t2) port + 1)\<rparr>
      in bind_res (frame_of_packet packet') (\<lambda>bytes.
         Inr (\<lparr>out_frames = [\<lparr>f_arq = (p_options packet' AND 1 \<noteq> 0), f_channel = p_channel packet', f_data = bytes\<rparr>],
               out_packet = Some packet', out_waits = False,
               out_notify = (if fst (buf_getSizeOfQueue port (outBuffer t3)) + 1 = int MAX_QUEUE_SIZE \<and> tx_statusInterface t3
                             then Some port else None)\<rparr>,
              t3\<lparr>outBuffer := snd (buf_getSizeOfQueue port (outBuffer t3))\<rparr>)))"

definition tx_wait :: "Frame list \<Rightarrow> TxOutput" where
  "tx_wait fs = \<lparr>out_frames = fs, out_packet = None, out_waits = True, out_notify = None\<rparr>"

definition txRoutine_iteration :: "Link \<Rightarrow> TxModule \<Rightarrow> (TxOutput \<times> TxModule) result" where
  "txRoutine_iteration link t =
     (if \<not> getLinkStatus link \<or> \<not> channelsAvailable t
      then Inr (tx_wait [], t\<lparr>tx_state := BLOCKED\<rparr>)
      else bind_res (tx_sync_phase link t) (\<lambda>(fs, t1).
        if \<not> buf_packetsAvailable (outBuffer t1)
        then Inr (tx_wait fs, t1\<lparr>tx_state := WAITING\<rparr>)
        else
          let t2 = t1\<lparr>tx_state := RUNNING\<rparr> in
          bind_res (if sendingFragments t2
                    then buf_getNextPacket (tx_policy t2) (currentPort t2) (outBuffer t2)
                    else buf_getNextAvailablePacket (tx_policy t2) (outBuffer t2)) (\<lambda>(packet, b).
          let t3 = t2\<lparr>outBuffer := b\<rparr> in
          case packet of
            None \<Rightarrow> Inr (tx_wait fs, t3\<lparr>tx_state := BLOCKED\<rparr>)
          | Some packet \<Rightarrow>
              bind_res (tx_send_phase packet t3) (\<lambda>(out, t4).
                Inr (out\<lparr>out_frames := fs @ out_frames out\<rparr>, t4)))))"

section \<open>Invariant\<close>

abbreviation tx_view :: "TxModule \<Rightarrow> u8 \<Rightarrow> S3TP_PACKET list" where
  "tx_view t \<equiv> buf_view (outBuffer t)"

text \<open>
  The waiting packets of a port carry consecutive sequence numbers, from the next one to be sent to
  the last one handed out, and there are at most 256 of them.
\<close>

definition tx_port_ok :: "TxModule \<Rightarrow> u8 \<Rightarrow> bool" where
  "tx_port_ok t p \<longleftrightarrow>
     map seq_of (tx_view t p) = seqs_from (at0 (to_consume_port_seq t) p) (length (tx_view t p)) \<and>
     at0 (port_sequence t) p = at0 (to_consume_port_seq t) p + of_nat (length (tx_view t p)) \<and>
     length (tx_view t p) \<le> 256"

definition sync_packet_ok :: "S3TP_PACKET \<Rightarrow> bool" where
  "sync_packet_ok sp \<longleftrightarrow> length (p_payload sp) = 130 \<and> getPduLength (p_header sp) = 130 \<and>
     getMessageType (p_header sp) = S3TP_MSG_SYNC"

definition tx_ok :: "TxModule \<Rightarrow> bool" where
  "tx_ok t \<longleftrightarrow> buf_ok (outBuffer t) \<and> (\<forall>p. tx_port_ok t p) \<and> (\<forall>p. \<forall>x \<in> set (tx_view t p). pkt_wf x) \<and>
     sync_packet_ok (syncPacket t) \<and> dom (port_sequence t) \<subseteq> {k. k < 128}"

lemmas tx_okD = tx_ok_def [THEN iffD1]

lemma tx_new_ok:
  "\<exists>t. tx_new g si = Inr t \<and> tx_ok t \<and> \<not> tx_active t \<and> (\<forall>p. tx_view t p = []) \<and>
    port_sequence t = Map.empty \<and> to_consume_port_seq t = Map.empty"
proof -
  have "length (sync_bytes (new_sync 0)) = 130"
    by (simp add: sync_wf_def new_sync_def)
  moreover have "getPduLength (setPduLength 130 h) = 130" for h
    by (rule getPduLength_setPduLength) simp
  moreover have "getMessageType (setMessageType 3 h) = 3" for h
    by (rule htype.get_set) simp
  moreover have "getPduLength (h\<lparr>h_seq_port := 0\<rparr>) = getPduLength h"
      "getMessageType (h\<lparr>h_seq_port := 0\<rparr>) = getMessageType h" for h
    by (simp_all add: getPduLength_def getMessageType_def)
  ultimately show ?thesis
    by (simp add: tx_new_def new_packet_def Let_def tx_ok_def tx_port_ok_def seqs_from_def sync_packet_ok_def)
qed

lemma tx_reset_ok: "tx_ok t \<Longrightarrow> tx_ok (tx_reset t)"
  by (simp add: tx_ok_def tx_reset_def tx_port_ok_def seqs_from_def)

lemma tx_ok_frame:
  assumes "tx_ok t" "outBuffer t' = outBuffer t" "to_consume_port_seq t' = to_consume_port_seq t"
    "port_sequence t' = port_sequence t" "sync_packet_ok (syncPacket t')"
  shows "tx_ok t'"
  using assms by (simp add: tx_ok_def tx_port_ok_def)

section \<open>Enqueueing\<close>

definition queued_header :: "TxModule \<Rightarrow> u8 \<Rightarrow> bool \<Rightarrow> S3TP_PACKET \<Rightarrow> S3TP_HEADER" where
  "queued_header t frag_no mf packet =
     (setFragmentBit mf (setSubSequence frag_no (setMessageType S3TP_MSG_DATA (p_header packet))))
       \<lparr>h_seq_port := at0 (port_sequence t) (getPort (p_header packet)),
        h_crc := crc16 (p_payload packet)\<rparr>"

definition queued :: "TxModule \<Rightarrow> u8 \<Rightarrow> bool \<Rightarrow> S3TP_PACKET \<Rightarrow> S3TP_PACKET" where
  "queued t frag_no mf packet = packet\<lparr>p_header := queued_header t frag_no mf packet\<rparr>"

lemma queued_fields [s3tp_hdr]:
  "getPort (p_header (queued t f m x)) = getPort (p_header x)"
  "seq_of (queued t f m x) = at0 (port_sequence t) (getPort (p_header x))"
  "getPduLength (p_header (queued t f m x)) = getPduLength (p_header x)"
  "getMessageType (p_header (queued t f m x)) = S3TP_MSG_DATA"
  "getSubSequence (p_header (queued t f m x)) = f"
  "moreFragments (p_header (queued t f m x)) = 0 \<longleftrightarrow> \<not> m"
  "h_crc (p_header (queued t f m x)) = crc16 (p_payload x)"
  "p_payload (queued t f m x) = p_payload x"
  "p_channel (queued t f m x) = p_channel x"
  "p_options (queued t f m x) = p_options x"
  using hseq.b.get_set [of f] htype.get_set [of 0]
  by (simp_all add: queued_def queued_header_def hseq.b.get_set)

lemma pkt_wf_queued [simp]: "pkt_wf (queued t f m x) = pkt_wf x"
  by (simp add: pkt_wf_def queued_fields)

lemma calc_checksum_wf:
  "pkt_wf x \<Longrightarrow> calc_checksum (Some (p_payload x)) (getPduLength (p_header x)) = Inr (crc16 (p_payload x))"
  by (simp add: calc_checksum_ok pkt_wf_def)

lemma enqueuePacket_eq:
  assumes "tx_active t" "pkt_wf x"
  shows "enqueuePacket x f m t =
    (let p = getPort (p_header x);
         t1 = t\<lparr>port_sequence := (port_sequence t)(p \<mapsto> at0 (port_sequence t) p + 1)\<rparr>
     in bind_res (buf_write (tx_policy t1) (queued t f m x) (outBuffer t)) (\<lambda>(rc, b). Inr (0, t1\<lparr>outBuffer := b\<rparr>)))"
proof -
  have "(if m then setMoreFragments h else unsetMoreFragments h) = setFragmentBit m h" for h
    by (simp add: setFragmentBit_def)
  then show ?thesis
    using assms calc_checksum_wf [OF assms(2)]
    by (simp add: enqueuePacket_def Let_def queued_def queued_header_def)
qed

lemma of_nat_u8_less: "a < b \<Longrightarrow> b < 256 \<Longrightarrow> (of_nat a :: u8) < of_nat b"
  by (simp add: word_less_nat_alt unat_of_nat_u8)

text \<open>On the packets of one port the comparator compares distances from the next packet to send.\<close>

definition tx_key :: "TxModule \<Rightarrow> u8 \<Rightarrow> S3TP_PACKET \<Rightarrow> u8" where
  "tx_key t p x = seq_of x - at0 (to_consume_port_seq t) p"

interpretation tx_order: key_comparator "tx_comparePriority t" "tx_key t p" "\<lambda>x. getPort (p_header x) = p" for t p
  by unfold_locales (auto simp: tx_comparePriority_def tx_key_def Let_def)

lemma enqueuePacket_ok:
  assumes ok: "tx_ok t" and act: "tx_active t" and wf: "pkt_wf x"
    and p: "getPort (p_header x) = p" and room: "length (tx_view t p) < 256"
  shows "\<exists>t' b. enqueuePacket x f m t = Inr (0, t') \<and> tx_ok t' \<and>
    tx_view t' = (tx_view t)(p := tx_view t p @ [queued t f m x]) \<and>
    t' = t\<lparr>port_sequence := (port_sequence t)(p \<mapsto> at0 (port_sequence t) p + 1), outBuffer := b\<rparr>"
proof -
  let ?t1 = "t\<lparr>port_sequence := (port_sequence t)(p \<mapsto> at0 (port_sequence t) p + 1)\<rparr>"
  let ?n = "length (tx_view t p)" and ?o = "at0 (to_consume_port_seq t) p"
  from ok have b: "buf_ok (outBuffer t)" and po: "tx_port_ok t p" for p
    by (auto simp: tx_ok_def)
  have ps: "at0 (port_sequence t) p = ?o + of_nat ?n" using po by (simp add: tx_port_ok_def)
  have "comparePriority (tx_policy ?t1) y (queued t f m x) < 0" if y: "y \<in> set (tx_view t p)" for y
  proof -
    from y obtain i where i: "i < ?n" "y = tx_view t p ! i" by (auto simp: in_set_conv_nth)
    have "seq_of y = map seq_of (tx_view t p) ! i" using i by simp
    also have "\<dots> = ?o + of_nat i" using po [of p] i by (simp add: tx_port_ok_def seqs_from_def)
    finally have "seq_of y = ?o + of_nat i" .
    moreover have "getPort (p_header y) = p" using b y by (simp add: buf_ok_def)
    moreover have "(of_nat i :: u8) < of_nat ?n" using i room by (simp add: of_nat_u8_less)
    ultimately show ?thesis
      using tx_order.cmp_less [of y p "queued t f m x" ?t1]
      by (simp add: tx_policy_def tx_key_def queued_fields p ps)
  qed
  then obtain b' where b': "buf_write (tx_policy ?t1) (queued t f m x) (outBuffer t) = Inr (0, b')"
    "buf_ok b'" "buf_view b' = (tx_view t)(p := tx_view t p @ [queued t f m x])"
    using buf.store_last [OF b, of "queued t f m x" p "tx_policy ?t1"] room p
    by (auto simp: queued_fields tx_policy_def tx_maximumWindowExceeded_def)
  have "tx_ok (?t1\<lparr>outBuffer := b'\<rparr>)"
    using ok b' wf room p po [of p] ps
    by (auto simp: tx_ok_def tx_port_ok_def queued_fields seqs_from_snoc)
  with b' show ?thesis
    using enqueuePacket_eq [OF act wf, of f m] p by (auto simp: Let_def)
qed

section \<open>Synchronization packet\<close>

lemma sync_fill_ok:
  assumes "\<forall>k \<in> set ks. unat k < length ps"
  shows "\<exists>ps'. sync_fill m ks ps = Inr ps' \<and> length ps' = length ps \<and>
    (\<forall>i < length ps. ps' ! i = (if \<exists>k \<in> set ks. unat k = i then at0 m (of_nat i) else ps ! i))"
  using assms
proof (induction ks arbitrary: ps)
  case (Cons k ks)
  from Cons.IH [of "ps[unat k := at0 m k]"] Cons.prems obtain ps' where
    "sync_fill m ks (ps[unat k := at0 m k]) = Inr ps'" "length ps' = length ps"
    "\<forall>i < length ps. ps' ! i =
       (if \<exists>k \<in> set ks. unat k = i then at0 m (of_nat i) else ps[unat k := at0 m k] ! i)"
    by auto
  then show ?case using Cons.prems by (auto simp: nth_list_update)
qed simp

lemma sync_fill_ports:
  assumes "dom m \<subseteq> {k. k < 128}"
  shows "\<exists>ps. sync_fill m (map_keys m) (replicate 128 0) = Inr ps \<and> length ps = 128 \<and>
    (\<forall>i < 128. ps ! i = at0 m (of_nat i))"
proof -
  have "\<forall>k \<in> set (map_keys m). unat k < length (replicate 128 (0 :: u8))"
    using assms by (auto simp: word_less_nat_alt)
  from sync_fill_ok [OF this, of m] obtain ps where
    ps: "sync_fill m (map_keys m) (replicate 128 0) = Inr ps" "length ps = 128"
    "\<forall>i < 128. ps ! i = (if \<exists>k \<in> dom m. unat k = i then at0 m (of_nat i) else 0)"
    by auto
  have "at0 m (of_nat i) = 0" if "i < 128" "\<not> (\<exists>k \<in> dom m. unat k = i)" for i
  proof -
    have "unat (of_nat i :: u8) = i" using that(1) by (simp add: unat_of_nat_u8)
    with that(2) have "m (of_nat i) = None" by (metis domIff)
    then show ?thesis by (simp add: at0_def)
  qed
  with ps show ?thesis by auto
qed

lemma tx_synchronizeStatus_ok:
  assumes "tx_ok t"
  shows "\<exists>f sp s. tx_synchronizeStatus t = Inr (f, t\<lparr>syncPacket := sp\<rparr>) \<and> tx_ok (t\<lparr>syncPacket := sp\<rparr>) \<and>
    f_channel f = p_channel (syncPacket t) \<and>
    packet_of_frame opt (f_data f) ch = Inr \<lparr>p_header = p_header sp,
      p_payload = sync_bytes s, p_channel = ch, p_options = opt\<rparr> \<and>
    h_crc (p_header sp) = crc16 (sync_bytes s) \<and> sync_packet_ok sp \<and>
    syncId s = hd (p_payload (syncPacket t)) \<and> tx_global_seq s = global_seq_num t \<and>
    sync_wf s \<and> (\<forall>i < 128. port_seq s ! i = at0 (port_sequence t) (of_nat i))"
proof -
  let ?sp = "syncPacket t"
  from assms have sp: "length (p_payload ?sp) = 130" "getPduLength (p_header ?sp) = 130"
      "getMessageType (p_header ?sp) = 3" and d: "dom (port_sequence t) \<subseteq> {k. k < 128}"
    by (auto simp: tx_ok_def sync_packet_ok_def)
  from sync_fill_ports [OF d] obtain ps where
    ps: "sync_fill (port_sequence t) (map_keys (port_sequence t)) (replicate 128 0) = Inr ps"
    "length ps = 128" "\<forall>i < 128. ps ! i = at0 (port_sequence t) (of_nat i)" by blast
  define s where "s = \<lparr>syncId = p_payload ?sp ! 0, tx_global_seq = global_seq_num t, port_seq = ps\<rparr>"
  have wf: "sync_wf s" using ps by (simp add: s_def sync_wf_def)
  define sp' where "sp' = ?sp\<lparr>p_payload := sync_bytes s, p_header := (p_header ?sp)\<lparr>h_crc := crc16 (sync_bytes s)\<rparr>\<rparr>"
  have ok': "sync_packet_ok sp'"
    using sp wf by (simp add: sp'_def sync_packet_ok_def)
  have "unat (getPduLength (p_header sp')) = length (p_payload sp')"
    using sp wf by (simp add: sp'_def)
  from frame_roundtrip [OF this, of opt ch] obtain bytes where bytes: "frame_of_packet sp' = Inr bytes"
    "packet_of_frame opt bytes ch = Inr \<lparr>p_header = p_header sp', p_payload = p_payload sp',
       p_channel = ch, p_options = opt\<rparr>" by blast
  have "calc_checksum (Some (sync_bytes s)) 130 = Inr (crc16 (sync_bytes s))"
    using wf by (simp add: calc_checksum_ok)
  then have run: "tx_synchronizeStatus t =
      Inr (\<lparr>f_arq = True, f_channel = p_channel ?sp, f_data = bytes\<rparr>, t\<lparr>syncPacket := sp'\<rparr>)"
    using sp ps bytes(1)
    by (simp add: tx_synchronizeStatus_def Let_def sync_of_bytes_def s_def sp'_def)
  have ok1: "tx_ok (t\<lparr>syncPacket := sp'\<rparr>)"
    using assms by (rule tx_ok_frame) (simp_all add: ok')
  have hd: "p_payload ?sp ! 0 = hd (p_payload ?sp)"
    using sp(1) by (cases "p_payload ?sp") simp_all
  have dec: "packet_of_frame opt (f_data \<lparr>f_arq = True, f_channel = p_channel ?sp, f_data = bytes\<rparr>) ch =
      Inr \<lparr>p_header = p_header sp', p_payload = sync_bytes s, p_channel = ch, p_options = opt\<rparr>"
    using bytes(2) by (simp add: sp'_def)
  have s: "syncId s = hd (p_payload ?sp)" "tx_global_seq s = global_seq_num t" "port_seq s = ps"
      "h_crc (p_header sp') = crc16 (sync_bytes s)"
    by (simp_all add: s_def sp'_def hd)
  let ?f = "\<lparr>f_arq = True, f_channel = p_channel ?sp, f_data = bytes\<rparr>"
  have "\<forall>i < 128. port_seq s ! i = at0 (port_sequence t) (of_nat i)"
    unfolding s(3) by (rule ps(3))
  then show ?thesis
    by (intro exI [of _ ?f] exI [of _ sp'] exI [of _ s] conjI run ok1 dec s ok' wf) simp_all
qed

lemma tx_sync_phase_ok:
  assumes "tx_ok t"
  shows "\<exists>fs sp sc bl. let t1 = t\<lparr>syncPacket := sp, scheduled_sync := sc, channel_blacklist := bl\<rparr> in
    tx_sync_phase link t = Inr (fs, t1) \<and> tx_ok t1 \<and> (\<not> getBufferFull link 0 \<longrightarrow> bl = channel_blacklist t)"
proof (cases "scheduled_sync t \<and> tx_isChannelAvailable 0 t \<and> \<not> getBufferFull link 0")
  case True
  from tx_synchronizeStatus_ok [OF assms] obtain f sp where
    f: "tx_synchronizeStatus t = Inr (f, t\<lparr>syncPacket := sp\<rparr>)" "tx_ok (t\<lparr>syncPacket := sp\<rparr>)" by blast
  let ?t1 = "t\<lparr>syncPacket := sp, scheduled_sync := False, channel_blacklist := channel_blacklist t\<rparr>"
  have "tx_ok ?t1"
    using f(2) by (rule tx_ok_frame) (use f(2) in \<open>simp_all add: tx_ok_def\<close>)
  moreover have "tx_sync_phase link t = Inr ([f], ?t1)"
    using True f(1) by (simp add: tx_sync_phase_def)
  ultimately show ?thesis unfolding Let_def by blast
next
  case False
  let ?t1 = "\<lambda>bl. t\<lparr>syncPacket := syncPacket t, scheduled_sync := scheduled_sync t, channel_blacklist := bl\<rparr>"
  have "tx_ok (?t1 bl)" for bl
    using assms by (rule tx_ok_frame) (use assms in \<open>simp_all add: tx_ok_def\<close>)
  moreover have "\<exists>bl. tx_sync_phase link t = Inr ([], ?t1 bl) \<and> (\<not> getBufferFull link 0 \<longrightarrow> bl = channel_blacklist t)"
    using False
    by (cases "scheduled_sync t \<and> tx_isChannelAvailable 0 t")
       (cases t, auto simp: tx_sync_phase_def tx_setChannelAvailable_def)+
  ultimately show ?thesis unfolding Let_def by blast
qed

section \<open>Sending\<close>

definition stamp :: "u8 \<Rightarrow> S3TP_PACKET \<Rightarrow> S3TP_PACKET" where
  "stamp g x = x\<lparr>p_header := setGlobalSequence g (p_header x)\<rparr>"

lemma stamp_fields [s3tp_hdr, simp]:
  "getPort (p_header (stamp g x)) = getPort (p_header x)"
  "moreFragments (p_header (stamp g x)) = moreFragments (p_header x)"
  "getPduLength (p_header (stamp g x)) = getPduLength (p_header x)"
  "getMessageType (p_header (stamp g x)) = getMessageType (p_header x)"
  "getSubSequence (p_header (stamp g x)) = getSubSequence (p_header x)"
  "getGlobalSequence (p_header (stamp g x)) = g"
  "seq_of (stamp g x) = seq_of x" "h_crc (p_header (stamp g x)) = h_crc (p_header x)"
  "p_payload (stamp g x) = p_payload x" "p_channel (stamp g x) = p_channel x"
  "p_options (stamp g x) = p_options x"
  by (simp_all add: stamp_def hseq.a.get_set hseq.getb_seta)

lemma stamp_stamp [simp]: "stamp g (stamp g' x) = stamp g x"
  by (simp add: stamp_def hseq.a.set_set)

lemma pkt_wf_stamp [simp]: "pkt_wf (stamp g x) = pkt_wf x"
  by (simp add: pkt_wf_def)

text \<open>What is handed to the link for a packet.\<close>

definition frame_for :: "S3TP_PACKET \<Rightarrow> Frame" where
  "frame_for x = \<lparr>f_arq = (p_options x AND 1 \<noteq> 0), f_channel = p_channel x,
     f_data = header_bytes (p_header x) @ p_payload x\<rparr>"

lemma frame_of_packet_wf: "pkt_wf x \<Longrightarrow> frame_of_packet x = Inr (header_bytes (p_header x) @ p_payload x)"
  by (simp add: frame_of_packet_def pkt_wf_def getLength_def)

lemma packet_of_frame_for:
  "packet_of_frame opt (f_data (frame_for x)) ch =
    Inr \<lparr>p_header = p_header x, p_payload = p_payload x, p_channel = ch, p_options = opt\<rparr>"
  by (simp add: frame_for_def packet_of_frame_def)

text \<open>The state after the packet \<open>x\<close> left the buffer.\<close>

definition sent_state :: "S3TP_PACKET \<Rightarrow> TxModule \<Rightarrow> TxModule" where
  "sent_state x t =
     (let p = getPort (p_header x); more = moreFragments (p_header x) \<noteq> 0 in
      t\<lparr>currentPort := p, sendingFragments := more,
        global_seq_num := (if more then global_seq_num t else global_seq_num t + 1),
        to_consume_port_seq := (to_consume_port_seq t)(p \<mapsto> at0 (to_consume_port_seq t) p + 1),
        outBuffer := snd (buf_getSizeOfQueue p (outBuffer t))\<rparr>)"

lemma tx_send_phase_eq:
  assumes "pkt_wf x"
  shows "\<exists>n. tx_send_phase x t =
    Inr (\<lparr>out_frames = [frame_for (stamp (global_seq_num t) x)], out_packet = Some (stamp (global_seq_num t) x),
          out_waits = False, out_notify = n\<rparr>, sent_state x t)"
  using frame_of_packet_wf [of "stamp (global_seq_num t) x"] assms
  by (cases t) (simp add: tx_send_phase_def Let_def stamp_def [symmetric] frame_for_def sent_state_def)

lemma sent_state_ok:
  assumes ok: "tx_ok t" and v: "tx_view t p = x # xs" and b: "buf_ok b" "buf_view b = (tx_view t)(p := xs)"
  shows "tx_ok (sent_state x (t\<lparr>outBuffer := b\<rparr>))"
proof -
  from ok have port: "getPort (p_header x) = p" and po: "tx_port_ok t q" and pk: "\<forall>y \<in> set (tx_view t q). pkt_wf y"
    and sp: "sync_packet_ok (syncPacket t)" "dom (port_sequence t) \<subseteq> {k. k < 128}" for q
    using v by (auto simp: tx_ok_def buf_ok_def)
  have "tx_port_ok (sent_state x (t\<lparr>outBuffer := b\<rparr>)) q" for q
    using po [of q] v port by (auto simp: tx_port_ok_def sent_state_def buf_getSizeOfQueue_ok b seqs_from_Suc Let_def)
  moreover have "pkt_wf y" if "y \<in> set (buf_view b q)" for y q
    using that pk [of q] v by (auto simp: b(2) split: if_splits)
  ultimately show ?thesis using b(1) sp by (simp add: tx_ok_def sent_state_def Let_def buf_getSizeOfQueue_ok)
qed

text \<open>
  One iteration of the transmission thread: it never faults, keeps the invariant, and either sends
  nothing from the buffer or takes the first packet of one port: the port of the fragmented message
  in progress if there is one.
\<close>

definition sent_from :: "TxModule \<Rightarrow> TxModule \<Rightarrow> TxOutput \<Rightarrow> S3TP_PACKET \<Rightarrow> bool" where
  "sent_from t t' out x \<longleftrightarrow>
     (let p = getPort (p_header x) in
      (\<exists>xs. tx_view t p = x # xs \<and> tx_view t' = (tx_view t)(p := xs)) \<and>
      out_packet out = Some (stamp (global_seq_num t) x) \<and>
      frame_for (stamp (global_seq_num t) x) \<in> set (out_frames out) \<and>
      (sendingFragments t \<longrightarrow> p = currentPort t) \<and>
      currentPort t' = p \<and> sendingFragments t' = (moreFragments (p_header x) \<noteq> 0) \<and>
      global_seq_num t' = (if moreFragments (p_header x) \<noteq> 0 then global_seq_num t else global_seq_num t + 1))"

definition kept_buffer :: "TxModule \<Rightarrow> TxModule \<Rightarrow> TxOutput \<Rightarrow> bool" where
  "kept_buffer t t' out \<longleftrightarrow> tx_view t' = tx_view t \<and> out_packet out = None \<and>
     currentPort t' = currentPort t \<and> sendingFragments t' = sendingFragments t \<and>
     global_seq_num t' = global_seq_num t"

lemma fetch_cases:
  assumes "buf_ok b"
  shows "\<exists>r b'. (if frag then buf_getNextPacket pa p b else buf_getNextAvailablePacket pa b) = Inr (r, b') \<and>
    buf_ok b' \<and> (case r of None \<Rightarrow> buf_view b' = buf_view b \<and> (if frag then \<not> sendable pa (buf_view b p) else \<forall>q. \<not> sendable pa (buf_view b q))
     | Some x \<Rightarrow> (\<exists>q xs. buf_view b q = x # xs \<and> getPort (p_header x) = q \<and>
         buf_view b' = (buf_view b)(q := xs) \<and> (frag \<longrightarrow> q = p)))"
proof -
  have hd_port: "getPort (p_header (hd (buf_view b q))) = q" if "buf_view b q \<noteq> []" for q
    using assms that by (auto simp: buf_ok_def)
  show ?thesis
  proof (cases frag)
    case True
    show ?thesis
    proof (cases "sendable pa (buf_view b p)")
      case s: True
      then obtain b' where "buf_getNextPacket pa p b = Inr (Some (hd (buf_view b p)), b')" "buf_ok b'"
        "buf_view b' = (buf_view b)(p := tl (buf_view b p))" using buf.fetch_law [OF assms] by blast
      then show ?thesis using True s hd_port [of p]
        by (intro exI [of _ "Some (hd (buf_view b p))"] exI [of _ b'])
           (cases "buf_view b p"; auto simp: sendable_def)
    next
      case False
      then show ?thesis using True buf.fetch_none [OF assms] by fastforce
    qed
  next
    case False
    show ?thesis
    proof (cases "next_port pa b")
      case None
      then show ?thesis using False buf_getNextAvailablePacket_ok [OF assms, of pa] next_port_None_iff [of pa b] by fastforce
    next
      case (Some q)
      then obtain b' where "buf_getNextAvailablePacket pa b = Inr (Some (hd (buf_view b q)), b')" "buf_ok b'"
        "buf_view b' = (buf_view b)(q := tl (buf_view b q))"
        using buf_getNextAvailablePacket_ok [OF assms, of pa] by auto
      moreover have "buf_view b q \<noteq> []" using Some next_port_SomeD by (auto simp: sendable_def)
      ultimately show ?thesis using False hd_port [of q]
        by (intro exI [of _ "Some (hd (buf_view b q))"] exI [of _ b'])
           (cases "buf_view b q"; auto)
    qed
  qed
qed

text \<open>Nothing stands in the way of sending: the link is up, no channel is blocked.\<close>

definition clear_way :: "Link \<Rightarrow> TxModule \<Rightarrow> bool" where
  "clear_way link t \<longleftrightarrow> getLinkStatus link \<and> \<not> getBufferFull link 0 \<and> channel_blacklist t = {}"

definition nothing_to_send :: "TxModule \<Rightarrow> bool" where
  "nothing_to_send t \<longleftrightarrow> (if sendingFragments t then tx_view t (currentPort t) = [] else \<forall>p. tx_view t p = [])"

lemma clear_way_sendable: "channel_blacklist t = {} \<Longrightarrow> sendable (tx_policy t) xs \<longleftrightarrow> xs \<noteq> []"
  by (simp add: sendable_def tx_policy_def tx_isElementValid_def tx_isChannelAvailable_def)

lemma tx_state_irrelevant: "tx_ok t \<Longrightarrow> tx_ok (t\<lparr>tx_state := s\<rparr>)"
  by (rule tx_ok_frame) (simp_all add: tx_ok_def)

text \<open>The last part of an iteration, with the buffer \<open>b\<close> and the packet \<open>r\<close> that were fetched.\<close>

lemma tx_fetched_ok:
  assumes ok: "tx_ok t" "tx_ok t2" and b: "buf_ok b"
    and same: "tx_view t2 = tx_view t" "global_seq_num t2 = global_seq_num t" "sendingFragments t2 = sendingFragments t"
      "currentPort t2 = currentPort t" "tx_active t2 = tx_active t" "port_sequence t2 = port_sequence t"
    and r: "case r of None \<Rightarrow> buf_view b = tx_view t \<and> (clear_way link t \<longrightarrow> nothing_to_send t)
      | Some x \<Rightarrow> (\<exists>q xs. tx_view t q = x # xs \<and> getPort (p_header x) = q \<and> buf_view b = (tx_view t)(q := xs) \<and>
          (sendingFragments t \<longrightarrow> q = currentPort t))"
  shows "\<exists>out t'. (case r of None \<Rightarrow> Inr (tx_wait fs, t2\<lparr>outBuffer := b, tx_state := BLOCKED\<rparr>)
      | Some packet \<Rightarrow> bind_res (tx_send_phase packet (t2\<lparr>outBuffer := b\<rparr>)) (\<lambda>(out, t4).
          Inr (out\<lparr>out_frames := fs @ out_frames out\<rparr>, t4))) = Inr (out, t') \<and> tx_ok t' \<and>
    port_sequence t' = port_sequence t \<and> tx_active t' = tx_active t \<and> channel_blacklist t' = channel_blacklist t2 \<and>
    (kept_buffer t t' out \<and> (clear_way link t \<longrightarrow> nothing_to_send t) \<or> (\<exists>x. sent_from t t' out x))"
proof (cases r)
  case None
  then have "tx_ok (t2\<lparr>outBuffer := b, tx_state := BLOCKED\<rparr>)"
    using ok(2) b r same(1) by (simp add: tx_ok_def tx_port_ok_def)
  with None show ?thesis using r same by (simp add: kept_buffer_def tx_wait_def)
next
  case (Some x)
  with r obtain q xs where x: "tx_view t q = x # xs" "getPort (p_header x) = q"
    "buf_view b = (tx_view t)(q := xs)" "sendingFragments t \<longrightarrow> q = currentPort t" by auto
  have "x \<in> set (tx_view t q)" using x(1) by simp
  then have wf: "pkt_wf x" using ok(1) unfolding tx_ok_def by blast
  let ?t4 = "sent_state x (t2\<lparr>outBuffer := b\<rparr>)"
  have ok4: "tx_ok ?t4" using sent_state_ok [OF ok(2)] x b same(1) by simp
  from tx_send_phase_eq [OF wf, of "t2\<lparr>outBuffer := b\<rparr>"] same(2) obtain n where
    run: "tx_send_phase x (t2\<lparr>outBuffer := b\<rparr>) = Inr (\<lparr>out_frames = [frame_for (stamp (global_seq_num t) x)],
      out_packet = Some (stamp (global_seq_num t) x), out_waits = False, out_notify = n\<rparr>, ?t4)" by auto
  have "sent_from t ?t4 \<lparr>out_frames = fs @ [frame_for (stamp (global_seq_num t) x)],
      out_packet = Some (stamp (global_seq_num t) x), out_waits = False, out_notify = n\<rparr> x"
    using x b same by (simp add: sent_from_def sent_state_def Let_def buf_getSizeOfQueue_ok)
  with run ok4 Some same show ?thesis by (auto simp: sent_state_def Let_def)
qed

lemma tx_iteration_ok:
  assumes "tx_ok t"
  shows "\<exists>out t'. txRoutine_iteration link t = Inr (out, t') \<and> tx_ok t' \<and>
    port_sequence t' = port_sequence t \<and> tx_active t' = tx_active t \<and>
    (\<not> getBufferFull link 0 \<longrightarrow> channel_blacklist t' = channel_blacklist t) \<and>
    (kept_buffer t t' out \<and> (clear_way link t \<longrightarrow> nothing_to_send t) \<or> (\<exists>x. sent_from t t' out x))"
proof (cases "\<not> getLinkStatus link \<or> \<not> channelsAvailable t")
  case True
  then show ?thesis using tx_state_irrelevant [OF assms]
    by (auto simp: txRoutine_iteration_def kept_buffer_def tx_wait_def clear_way_def channelsAvailable_def)
next
  case up: False
  from tx_sync_phase_ok [OF assms, of link] obtain fs sp sc bl where
    sync: "tx_sync_phase link t = Inr (fs, t\<lparr>syncPacket := sp, scheduled_sync := sc, channel_blacklist := bl\<rparr>)"
    and ok1: "tx_ok (t\<lparr>syncPacket := sp, scheduled_sync := sc, channel_blacklist := bl\<rparr>)"
    and bl: "\<not> getBufferFull link 0 \<longrightarrow> bl = channel_blacklist t"
    unfolding Let_def by blast
  let ?t2 = "t\<lparr>syncPacket := sp, scheduled_sync := sc, channel_blacklist := bl, tx_state := RUNNING\<rparr>"
  have bok: "buf_ok (outBuffer t)" using assms by (simp add: tx_ok_def)
  show ?thesis
  proof (cases "buf_packetsAvailable (outBuffer t)")
    case False
    then have "nothing_to_send t" using buf_packetsAvailable_ok [OF bok] by (simp add: nothing_to_send_def)
    with False show ?thesis using up sync bl tx_state_irrelevant [OF ok1]
      by (auto simp: txRoutine_iteration_def kept_buffer_def tx_wait_def)
  next
    case avail: True
    from fetch_cases [OF bok, of "sendingFragments t" "tx_policy ?t2" "currentPort t"] obtain r b where
      fetch: "(if sendingFragments t then buf_getNextPacket (tx_policy ?t2) (currentPort t) (outBuffer t)
         else buf_getNextAvailablePacket (tx_policy ?t2) (outBuffer t)) = Inr (r, b)"
      and b: "buf_ok b" and r: "case r of None \<Rightarrow> buf_view b = tx_view t \<and> (if sendingFragments t
            then \<not> sendable (tx_policy ?t2) (tx_view t (currentPort t)) else \<forall>q. \<not> sendable (tx_policy ?t2) (tx_view t q))
        | Some x \<Rightarrow> (\<exists>q xs. tx_view t q = x # xs \<and> getPort (p_header x) = q \<and>
            buf_view b = (tx_view t)(q := xs) \<and> (sendingFragments t \<longrightarrow> q = currentPort t))"
      by blast
    have run: "txRoutine_iteration link t = (case r of
          None \<Rightarrow> Inr (tx_wait fs, ?t2\<lparr>outBuffer := b, tx_state := BLOCKED\<rparr>)
        | Some packet \<Rightarrow> bind_res (tx_send_phase packet (?t2\<lparr>outBuffer := b\<rparr>)) (\<lambda>(out, t4).
            Inr (out\<lparr>out_frames := fs @ out_frames out\<rparr>, t4)))"
      using up sync avail fetch by (cases "sendingFragments t") (simp_all add: txRoutine_iteration_def Let_def)
    have "case r of None \<Rightarrow> buf_view b = tx_view t \<and> (clear_way link t \<longrightarrow> nothing_to_send t)
      | Some x \<Rightarrow> (\<exists>q xs. tx_view t q = x # xs \<and> getPort (p_header x) = q \<and> buf_view b = (tx_view t)(q := xs) \<and>
          (sendingFragments t \<longrightarrow> q = currentPort t))"
      using r bl clear_way_sendable [of ?t2] by (cases r) (auto simp: clear_way_def nothing_to_send_def)
    from tx_fetched_ok [OF assms tx_state_irrelevant [OF ok1, of RUNNING] b _ _ _ _ _ _ this, of fs] bl show ?thesis
      unfolding run by fastforce
  qed
qed

section \<open>Runs of the module\<close>

text \<open>
  The states the module reaches from its construction, with two histories: the packets that were
  accepted, as they were put into the buffer, and the packets handed to the link. A packet is
  accepted while fewer than 256 packets of its port wait, the bound within which the 8-bit relative
  sequence numbers order the queue.
\<close>

inductive tx_run :: "S3TP_PACKET list \<Rightarrow> S3TP_PACKET list \<Rightarrow> TxModule \<Rightarrow> bool" where
  run_new: "tx_new g si = Inr t \<Longrightarrow> tx_run [] [] t"
| run_enqueue: "tx_run acc sent t \<Longrightarrow> pkt_wf x \<Longrightarrow> length (tx_view t (getPort (p_header x))) < 256 \<Longrightarrow>
    enqueuePacket x f m t = Inr (0, t') \<Longrightarrow> tx_active t \<Longrightarrow> tx_run (acc @ [queued t f m x]) sent t'"
| run_iterate: "tx_run acc sent t \<Longrightarrow> tx_active t \<Longrightarrow> txRoutine_iteration link t = Inr (out, t') \<Longrightarrow>
    tx_run acc (sent @ (case out_packet out of None \<Rightarrow> [] | Some y \<Rightarrow> [y])) t'"
| run_channel: "tx_run acc sent t \<Longrightarrow> tx_run acc sent (tx_setChannelAvailable ch a t)"
| run_sync: "tx_run acc sent t \<Longrightarrow> scheduleSync i t = Inr t' \<Longrightarrow> tx_run acc sent t'"
| run_status: "tx_run acc sent t \<Longrightarrow> tx_run acc sent (tx_setStatusInterface b t)"
| run_start: "tx_run acc sent t \<Longrightarrow> tx_run acc sent (startRoutine t)"
| run_stop: "tx_run acc sent t \<Longrightarrow> tx_run acc sent (stopRoutine t)"

definition of_port :: "u8 \<Rightarrow> S3TP_PACKET list \<Rightarrow> S3TP_PACKET list" where
  "of_port p = filter (\<lambda>x. getPort (p_header x) = p)"

text \<open>The successor rule of the global sequence: the fragments of a message share a number and a port.\<close>

definition follows :: "S3TP_PACKET \<Rightarrow> S3TP_PACKET \<Rightarrow> bool" where
  "follows x y \<longleftrightarrow>
     (if moreFragments (p_header x) \<noteq> 0
      then getPort (p_header y) = getPort (p_header x) \<and>
        getGlobalSequence (p_header y) = getGlobalSequence (p_header x)
      else getGlobalSequence (p_header y) = getGlobalSequence (p_header x) + 1)"

definition tx_resumes :: "S3TP_PACKET list \<Rightarrow> TxModule \<Rightarrow> bool" where
  "tx_resumes sent t \<longleftrightarrow>
     (if sent = [] then global_seq_num t = 0 \<and> \<not> sendingFragments t
      else let x = last sent; more = moreFragments (p_header x) \<noteq> 0 in
        sendingFragments t = more \<and> currentPort t = getPort (p_header x) \<and>
        global_seq_num t = getGlobalSequence (p_header x) + (if more then 0 else 1))"

definition tx_history_ok :: "S3TP_PACKET list \<Rightarrow> S3TP_PACKET list \<Rightarrow> TxModule \<Rightarrow> bool" where
  "tx_history_ok acc sent t \<longleftrightarrow>
     (\<forall>p. map (stamp 0) (of_port p acc) = map (stamp 0) (of_port p sent @ tx_view t p)) \<and>
     (\<forall>p. map seq_of (of_port p acc) = seqs_from 0 (length (of_port p acc))) \<and>
     (\<forall>p. at0 (port_sequence t) p = of_nat (length (of_port p acc))) \<and>
     tx_resumes sent t \<and> successively follows sent"

lemma of_port_simps [simp]:
  "of_port p [] = []" "of_port p (xs @ ys) = of_port p xs @ of_port p ys"
  "of_port p (x # xs) = (if getPort (p_header x) = p then x # of_port p xs else of_port p xs)"
  by (simp_all add: of_port_def)

lemma tx_run_frame:
  assumes "tx_ok t \<and> tx_history_ok acc sent t" "outBuffer t' = outBuffer t" "port_sequence t' = port_sequence t"
    "to_consume_port_seq t' = to_consume_port_seq t" "sync_packet_ok (syncPacket t')"
    "global_seq_num t' = global_seq_num t" "sendingFragments t' = sendingFragments t" "currentPort t' = currentPort t"
  shows "tx_ok t' \<and> tx_history_ok acc sent t'"
  using assms tx_ok_frame [of t t'] by (simp add: tx_history_ok_def tx_resumes_def)

lemma tx_history_enqueue:
  assumes ok: "tx_ok t" "tx_history_ok acc sent t" and "tx_active t" "pkt_wf x"
    and "length (tx_view t (getPort (p_header x))) < 256" and run: "enqueuePacket x f m t = Inr (0, t')"
  shows "tx_ok t' \<and> tx_history_ok (acc @ [queued t f m x]) sent t'"
proof -
  let ?p = "getPort (p_header x)"
  from enqueuePacket_ok [OF ok(1) assms(3,4) refl assms(5), of f m] run obtain b where
    t': "t' = t\<lparr>port_sequence := (port_sequence t)(?p \<mapsto> at0 (port_sequence t) ?p + 1), outBuffer := b\<rparr>"
    and view: "tx_view t' = (tx_view t)(?p := tx_view t ?p @ [queued t f m x])" and ok': "tx_ok t'" by auto
  have "tx_history_ok (acc @ [queued t f m x]) sent t'"
    using ok(2) unfolding tx_history_ok_def view
    by (auto simp: queued_fields seqs_from_snoc t' tx_resumes_def)
  with ok' show ?thesis by simp
qed

lemma tx_resumes_sent:
  assumes "sent_from t t' out x" "tx_resumes sent t" "successively follows sent"
  shows "tx_resumes (sent @ [stamp (global_seq_num t) x]) t' \<and>
    successively follows (sent @ [stamp (global_seq_num t) x])"
  using assms
  by (auto simp: sent_from_def tx_resumes_def Let_def successively_append_iff follows_def split: if_splits)

lemma tx_history_iterate:
  assumes ok: "tx_ok t" "tx_history_ok acc sent t" and run: "txRoutine_iteration link t = Inr (out, t')"
  shows "tx_ok t' \<and> tx_history_ok acc (sent @ (case out_packet out of None \<Rightarrow> [] | Some y \<Rightarrow> [y])) t'"
proof -
  from tx_iteration_ok [OF ok(1), of link] run have ok': "tx_ok t'" and seq: "port_sequence t' = port_sequence t"
    and d: "kept_buffer t t' out \<or> (\<exists>x. sent_from t t' out x)" by auto
  from d show ?thesis
  proof (elim disjE exE)
    assume "kept_buffer t t' out"
    with ok(2) ok' seq show ?thesis by (simp add: kept_buffer_def tx_history_ok_def tx_resumes_def)
  next
    fix x assume x: "sent_from t t' out x"
    then obtain xs where v: "tx_view t (getPort (p_header x)) = x # xs"
      "tx_view t' = (tx_view t)(getPort (p_header x) := xs)" "out_packet out = Some (stamp (global_seq_num t) x)"
      by (auto simp: sent_from_def Let_def)
    have "map (stamp 0) (of_port p acc) = map (stamp 0) (of_port p (sent @ [stamp (global_seq_num t) x]) @ tx_view t' p)"
      for p using ok(2) v(1) by (simp add: tx_history_ok_def v(2))
    with ok' seq v(3) ok(2) tx_resumes_sent [OF x, of sent] show ?thesis by (simp add: tx_history_ok_def)
  qed
qed

lemma tx_run_invariant: "tx_run acc sent t \<Longrightarrow> tx_ok t \<and> tx_history_ok acc sent t"
proof (induction rule: tx_run.induct)
  case (run_new g si t)
  from tx_new_ok [of g si] run_new show ?case
    by (auto simp: tx_history_ok_def seqs_from_def tx_resumes_def tx_new_def Let_def new_packet_def split: if_splits)
next
  case (run_enqueue acc sent t x f m t')
  then show ?case using tx_history_enqueue by blast
next
  case (run_iterate acc sent t link out t')
  then show ?case using tx_history_iterate by blast
next
  case (run_channel acc sent t ch a)
  from run_channel.IH show ?case by (rule tx_run_frame) (use run_channel in \<open>simp_all add: tx_setChannelAvailable_def tx_ok_def\<close>)
next
  case (run_sync acc sent t i t')
  then have "t' = t\<lparr>scheduled_sync := True,
      syncPacket := (syncPacket t)\<lparr>p_payload := (p_payload (syncPacket t))[0 := i]\<rparr>\<rparr>"
    by (simp add: scheduleSync_def split: if_splits)
  with run_sync.IH show ?case
    by (elim tx_run_frame) (use run_sync.IH in \<open>simp_all add: tx_ok_def sync_packet_ok_def\<close>)
next
  case (run_status acc sent t b)
  from run_status.IH show ?case by (rule tx_run_frame) (use run_status in \<open>simp_all add: tx_setStatusInterface_def tx_ok_def\<close>)
next
  case (run_start acc sent t)
  from run_start.IH show ?case by (rule tx_run_frame) (use run_start in \<open>simp_all add: startRoutine_def tx_ok_def\<close>)
next
  case (run_stop acc sent t)
  from run_stop.IH show ?case by (rule tx_run_frame) (use run_stop in \<open>simp_all add: stopRoutine_def tx_ok_def\<close>)
qed

section \<open>Draining the buffer\<close>

text \<open>A data packet as it is put into the buffer: as long as it says, with the checksum of its payload.\<close>

definition data_packet :: "S3TP_PACKET \<Rightarrow> bool" where
  "data_packet x \<longleftrightarrow> pkt_wf x \<and> getMessageType (p_header x) = S3TP_MSG_DATA \<and> h_crc (p_header x) = crc16 (p_payload x)"

lemma data_packet_stamp [simp]: "data_packet (stamp g x) = data_packet x"
  by (simp add: data_packet_def)

lemma tx_run_accepts_data: "tx_run acc sent t \<Longrightarrow> \<forall>x \<in> set acc. data_packet x"
  by (induction rule: tx_run.induct) (auto simp: data_packet_def queued_fields pkt_wf_queued)

lemma tx_run_sends_data:
  assumes "tx_run acc sent t" "x \<in> set sent"
  shows "data_packet x"
proof -
  let ?p = "getPort (p_header x)"
  have "map (stamp 0) (of_port ?p acc) = map (stamp 0) (of_port ?p sent @ tx_view t ?p)"
    using tx_run_invariant [OF assms(1)] unfolding tx_history_ok_def by blast
  moreover have "x \<in> set (of_port ?p sent)" using assms(2) by (simp add: of_port_def)
  ultimately obtain y where "y \<in> set (of_port ?p acc)" "stamp 0 y = stamp 0 x"
    by (metis (no_types, lifting) Un_iff imageE image_eqI set_append set_map)
  then have "data_packet y" using tx_run_accepts_data [OF assms(1)] by (simp add: of_port_def)
  with \<open>stamp 0 y = stamp 0 x\<close> show ?thesis by (metis data_packet_stamp)
qed

primrec tx_iterations :: "Link \<Rightarrow> nat \<Rightarrow> TxModule \<Rightarrow> (S3TP_PACKET list \<times> TxModule) result" where
  "tx_iterations link 0 t = Inr ([], t)"
| "tx_iterations link (Suc n) t =
     bind_res (txRoutine_iteration link t) (\<lambda>(out, t').
     bind_res (tx_iterations link n t') (\<lambda>(ps, t'').
       Inr ((case out_packet out of None \<Rightarrow> [] | Some y \<Rightarrow> [y]) @ ps, t'')))"

text \<open>Every message in the buffer is there up to its last fragment.\<close>

definition tx_whole :: "TxModule \<Rightarrow> bool" where
  "tx_whole t \<longleftrightarrow> (\<forall>p. tx_view t p \<noteq> [] \<longrightarrow> moreFragments (p_header (last (tx_view t p))) = 0) \<and>
     (sendingFragments t \<longrightarrow> tx_view t (currentPort t) \<noteq> [])"

definition waiting :: "TxModule \<Rightarrow> nat" where
  "waiting t = (\<Sum>p\<in>UNIV. length (tx_view t p))"

lemma waiting_0_iff: "waiting t = 0 \<longleftrightarrow> (\<forall>p. tx_view t p = [])"
  by (simp add: waiting_def)

lemma waiting_pop:
  assumes "tx_view t p = x # xs" "tx_view t' = (tx_view t)(p := xs)"
  shows "waiting t = Suc (waiting t')"
  using assms by (simp add: waiting_def sum.remove [of UNIV p])

lemma tx_iteration_progress:
  assumes "tx_ok t" "tx_whole t" "clear_way link t" "waiting t = Suc n"
  shows "\<exists>out t' x. txRoutine_iteration link t = Inr (out, t') \<and> tx_ok t' \<and> tx_whole t' \<and> clear_way link t' \<and>
    waiting t' = n \<and> out_packet out = Some (stamp (global_seq_num t) x) \<and>
    (global_seq_num t' = global_seq_num t \<or> global_seq_num t' = global_seq_num t + 1) \<and>
    (\<forall>p. tx_view t p = of_port p [x] @ tx_view t' p)"
proof -
  have "\<not> nothing_to_send t"
    using assms waiting_0_iff [of t] by (auto simp: nothing_to_send_def tx_whole_def)
  with tx_iteration_ok [OF assms(1), of link] assms(3) obtain out t' x where
    run: "txRoutine_iteration link t = Inr (out, t')" "tx_ok t'" "sent_from t t' out x"
    and bl: "channel_blacklist t' = channel_blacklist t" by (auto simp: clear_way_def)
  let ?p = "getPort (p_header x)"
  from run(3) obtain xs where v: "tx_view t ?p = x # xs" "tx_view t' = (tx_view t)(?p := xs)"
    and o: "out_packet out = Some (stamp (global_seq_num t) x)" "currentPort t' = ?p"
      "sendingFragments t' = (moreFragments (p_header x) \<noteq> 0)"
      "global_seq_num t' = global_seq_num t \<or> global_seq_num t' = global_seq_num t + 1"
    by (auto simp: sent_from_def Let_def)
  have "moreFragments (p_header (last (x # xs))) = 0"
    using assms(2) v(1) unfolding tx_whole_def by (metis list.distinct(1))
  then have "tx_whole t'"
    using assms(2) unfolding tx_whole_def v(2) o(2,3) by (auto split: if_splits)
  moreover have "waiting t' = n" using waiting_pop [OF v] assms(4) by simp
  moreover have "\<forall>p. tx_view t p = of_port p [x] @ tx_view t' p" using v(1) by (simp add: v(2))
  moreover have "clear_way link t'" using assms(3) bl by (simp add: clear_way_def)
  ultimately show ?thesis using run o(1,4) by blast
qed

lemma tx_iterations_drain:
  assumes "tx_ok t" "tx_whole t" "clear_way link t" "waiting t = n"
  shows "\<exists>sent t'. tx_iterations link n t = Inr (sent, t') \<and> length sent = n \<and> tx_ok t' \<and> waiting t' = 0 \<and>
    (\<forall>p. map (stamp 0) (of_port p sent) = map (stamp 0) (tx_view t p)) \<and>
    (\<forall>x \<in> set sent. \<exists>k < n. getGlobalSequence (p_header x) = global_seq_num t + of_nat k)"
  using assms
proof (induction n arbitrary: t)
  case 0
  then show ?case by (simp add: waiting_0_iff)
next
  case (Suc n)
  from tx_iteration_progress [OF Suc.prems] obtain out t1 x where
    s: "txRoutine_iteration link t = Inr (out, t1)" "out_packet out = Some (stamp (global_seq_num t) x)"
    and v: "\<forall>p. tx_view t p = of_port p [x] @ tx_view t1 p"
    and gs: "global_seq_num t1 = global_seq_num t \<or> global_seq_num t1 = global_seq_num t + 1"
    and t1: "tx_ok t1" "tx_whole t1" "clear_way link t1" "waiting t1 = n" by blast
  from Suc.IH [OF t1] obtain sent t' where
    i: "tx_iterations link n t1 = Inr (sent, t')" "length sent = n" "tx_ok t'" "waiting t' = 0"
    "\<forall>p. map (stamp 0) (of_port p sent) = map (stamp 0) (tx_view t1 p)"
    "\<forall>x \<in> set sent. \<exists>k < n. getGlobalSequence (p_header x) = global_seq_num t1 + of_nat k" by blast
  have "\<exists>k < Suc n. getGlobalSequence (p_header y) = global_seq_num t + of_nat k"
    if "y \<in> set (stamp (global_seq_num t) x # sent)" for y
  proof (cases "y \<in> set sent")
    case True
    with i(6) obtain k where k: "k < n" "getGlobalSequence (p_header y) = global_seq_num t1 + of_nat k" by blast
    then have "getGlobalSequence (p_header y) = global_seq_num t + of_nat k \<or>
        getGlobalSequence (p_header y) = global_seq_num t + of_nat (Suc k)"
      using gs by (auto simp: add_ac)
    with k(1) show ?thesis by (meson Suc_mono less_SucI)
  next
    case False
    with that show ?thesis by (intro exI [of _ 0]) auto
  qed
  with i show ?case using s v
    by (intro exI [of _ "stamp (global_seq_num t) x # sent"] exI [of _ t'])
       (simp add: of_port_def)
qed

section \<open>A concrete run\<close>

text \<open>Two fragments of one message are enqueued on port 5 and sent over an idle link.\<close>

definition example_packet :: "u8 list \<Rightarrow> S3TP_PACKET" where
  "example_packet bs = \<lparr>p_header = setPort 5 (setPduLength (of_nat (length bs))
      \<lparr>h_crc = 0, h_seq = 0, h_pdu_length = 0, h_seq_port = 0, h_port = 0\<rparr>),
     p_payload = bs, p_channel = 3, p_options = 1\<rparr>"

definition example_link :: Link where
  "example_link = \<lparr>getLinkStatus = True, getBufferFull = (\<lambda>_. False)\<rparr>"

lemma example_wf: "pkt_wf (example_packet [1, 2])" "pkt_wf (example_packet [3])"
    "getPort (p_header (example_packet bs)) = 5"
  using hport.a.get_set [of 5]
  by (simp_all add: pkt_wf_def example_packet_def getPduLength_setPduLength)

lemma example_enqueued:
  "\<exists>t q1 q2. tx_run [q1, q2] [] t \<and> tx_active t \<and> tx_whole t \<and> clear_way example_link t \<and> waiting t = 2 \<and>
    tx_view t 5 = [q1, q2] \<and> getPort (p_header q1) = 5 \<and> getPort (p_header q2) = 5 \<and>
    moreFragments (p_header q1) \<noteq> 0 \<and> p_payload q1 = [1, 2] \<and> p_payload q2 = [3]"
proof -
  let ?x = "example_packet [1, 2]" and ?y = "example_packet [3]"
  from tx_new_ok [of ?x False] obtain t where new: "tx_new ?x False = Inr t" and v: "\<forall>p. tx_view t p = []" by blast
  then have bl: "channel_blacklist t = {}" "\<not> sendingFragments t"
    by (auto simp: tx_new_def Let_def new_packet_def split: if_splits)
  let ?t0 = "startRoutine t"
  have r0: "tx_run [] [] ?t0" using new by (intro run_start run_new)
  have a0: "tx_active ?t0" "tx_view ?t0 = (\<lambda>_. [])" using v by (auto simp: startRoutine_def)
  define q1 where "q1 = queued ?t0 0 True ?x"
  from tx_run_invariant [OF r0] obtain t1 b where
    t1: "enqueuePacket ?x 0 True ?t0 = Inr (0, t1)" "tx_view t1 = (\<lambda>_. [])(5 := [q1])"
    "tx_active t1" "channel_blacklist t1 = {}" "\<not> sendingFragments t1"
    using enqueuePacket_ok [of ?t0 ?x 5 0 True] example_wf a0 bl
    by (auto simp: q1_def startRoutine_def)
  have r1: "tx_run [q1] [] t1"
    using run_enqueue [OF r0 example_wf(1) _ t1(1) a0(1)] example_wf a0 by (simp add: q1_def)
  define q2 where "q2 = queued t1 1 False ?y"
  from tx_run_invariant [OF r1] obtain t2 where
    t2: "enqueuePacket ?y 1 False t1 = Inr (0, t2)" "tx_view t2 = (\<lambda>_. [])(5 := [q1, q2])"
    "tx_active t2" "channel_blacklist t2 = {}" "\<not> sendingFragments t2"
    using enqueuePacket_ok [of t1 ?y 5 1 False] example_wf t1
    by (auto simp: q2_def)
  have r2: "tx_run [q1, q2] [] t2"
    using run_enqueue [OF r1 example_wf(2) _ t2(1) t1(3)] example_wf t1 by (simp add: q2_def)
  have q: "getPort (p_header q1) = 5" "getPort (p_header q2) = 5" "moreFragments (p_header q1) \<noteq> 0"
    "moreFragments (p_header q2) = 0" "p_payload q1 = [1, 2]" "p_payload q2 = [3]"
    by (simp_all add: q1_def q2_def queued_fields example_wf) (simp_all add: example_packet_def)
  have "waiting t2 = 2" by (simp add: waiting_def t2(2) if_distrib [of length] sum.If_cases cong: if_cong)
  moreover have "tx_whole t2" using q t2(5) by (simp add: tx_whole_def t2(2))
  ultimately show ?thesis
    using r2 t2 q by (intro exI [of _ t2] exI [of _ q1] exI [of _ q2]) (simp add: clear_way_def example_link_def)
qed

lemma example_run:
  "\<exists>t q1 q2 s1 s2. tx_run [q1, q2] [s1, s2] t \<and> getPort (p_header s1) = 5 \<and> moreFragments (p_header s1) \<noteq> 0"
proof -
  from example_enqueued obtain t q1 q2 where
    t: "tx_run [q1, q2] [] t" "tx_active t" "tx_whole t" "clear_way example_link t" "waiting t = Suc 1"
    "tx_view t 5 = [q1, q2]"
    and q: "getPort (p_header q1) = 5" "getPort (p_header q2) = 5" "moreFragments (p_header q1) \<noteq> 0" by auto
  from tx_run_invariant [OF t(1)] have ok: "tx_ok t" by simp
  from tx_iteration_progress [OF ok t(3,4,5)] obtain o1 t1 x1 where
    i1: "txRoutine_iteration example_link t = Inr (o1, t1)" "tx_ok t1" "tx_whole t1"
      "clear_way example_link t1" "waiting t1 = Suc 0" "out_packet o1 = Some (stamp (global_seq_num t) x1)"
    and v: "\<forall>p. tx_view t p = of_port p [x1] @ tx_view t1 p" by auto
  from tx_iteration_progress [OF i1(2-5)] obtain o2 t2 x2 where
    i2: "txRoutine_iteration example_link t1 = Inr (o2, t2)" "out_packet o2 = Some (stamp (global_seq_num t1) x2)"
    by auto
  have a1: "tx_active t1" using tx_iteration_ok [OF ok, of example_link] i1(1) t(2) by auto
  have "x1 = q1"
  proof -
    have "x1 \<in> set (tx_view t (getPort (p_header x1)))" using v by simp
    moreover have "tx_view t p = []" if "p \<noteq> 5" for p
    proof -
      have "map (stamp 0) (of_port p [q1, q2]) = map (stamp 0) (of_port p [] @ tx_view t p)"
        using tx_run_invariant [OF t(1)] unfolding tx_history_ok_def by blast
      with q that show ?thesis by simp
    qed
    ultimately have "getPort (p_header x1) = 5" by force
    then show ?thesis using v [rule_format, of 5] t(6) by simp
  qed
  then have "tx_run [q1, q2] [stamp (global_seq_num t) q1, stamp (global_seq_num t1) x2] t2"
    using run_iterate [OF run_iterate [OF t(1,2) i1(1)] a1 i2(1)] i1(6) i2(2) by simp
  moreover have "getPort (p_header (stamp g q1)) = 5" "moreFragments (p_header (stamp g q1)) \<noteq> 0" for g
    using q by simp_all
  ultimately show ?thesis by blast
qed

section \<open>Properties\<close>



text \<open>C6. In every run, consecutive packets handed to the link obey the successor rule: after a packet that
  announces more fragments comes a packet of the same port with the same global sequence number (the
  fragments of a message are never interleaved with another port), and after a last fragment the
  global sequence number advances by one.\<close>

theorem tx_fragments_contiguous:
  assumes "tx_run acc sent t" and "Suc i < length sent"
  shows "follows (sent ! i) (sent ! Suc i)"
proof -
  from tx_run_invariant [OF assms(1)] have "successively follows sent" by (simp add: tx_history_ok_def)
  with assms(2) show ?thesis by (simp add: successively_conv_nth)
qed

theorem tx_fragments_contiguous_witness:
  "\<exists>t q1 q2 s1 s2. tx_run [q1, q2] [s1, s2] t \<and> getPort (p_header s1) = 5 \<and>
    getPort (p_header s2) = 5 \<and> getGlobalSequence (p_header s2) = getGlobalSequence (p_header s1)"
proof -
  from example_run obtain t q1 q2 s1 s2 where
    r: "tx_run [q1, q2] [s1, s2] t" "getPort (p_header s1) = 5" "moreFragments (p_header s1) \<noteq> 0" by blast
  from tx_fragments_contiguous [OF r(1), of 0] r(2,3)
  have "getPort (p_header s2) = 5 \<and> getGlobalSequence (p_header s2) = getGlobalSequence (p_header s1)"
    by (simp add: follows_def)
  with r show ?thesis by blast
qed



text \<open>An iteration of the transmission thread never faults and keeps the invariant of the module, whatever
  the link reports.\<close>

theorem tx_iteration_keeps_invariant:
  assumes "tx_ok t"
  shows "\<exists>out t'. txRoutine_iteration link t = Inr (out, t') \<and> tx_ok t'"
  using tx_iteration_ok [OF assms, of link] by blast

theorem tx_iteration_keeps_invariant_witness:
  "\<exists>t q1 q2 out t'. tx_view t 5 = [q1, q2] \<and>
    txRoutine_iteration example_link t = Inr (out, t') \<and> tx_ok t'"
proof -
  from example_enqueued obtain t q1 q2 where t: "tx_run [q1, q2] [] t" "tx_view t 5 = [q1, q2]" by blast
  then have "tx_ok t" using tx_run_invariant by blast
  from tx_iteration_keeps_invariant [OF this, of example_link] t show ?thesis by blast
qed





text \<open>The synchronization frame decodes to a packet of the synchronization type with a valid checksum
  whose content is the scheduled identifier, the current global sequence number and, for each of the
  128 ports, its next port sequence number.\<close>

lemma sync_frame_reports_sequences:
  assumes "tx_ok t"
  shows "\<exists>f t' x s. tx_synchronizeStatus t = Inr (f, t') \<and> tx_ok t' \<and>
    packet_of_frame opt (f_data f) ch = Inr x \<and> getMessageType (p_header x) = S3TP_MSG_SYNC \<and>
    verify_checksum (Some (p_payload x)) (getPduLength (p_header x)) (h_crc (p_header x)) = Inr True \<and>
    sync_of_bytes (p_payload x) = Inr s \<and> syncId s = hd (p_payload (syncPacket t)) \<and>
    tx_global_seq s = global_seq_num t \<and> (\<forall>i < 128. port_seq s ! i = at0 (port_sequence t) (of_nat i))"
proof -
  from tx_synchronizeStatus_ok [OF assms, of opt ch] obtain f sp s where
    f: "tx_synchronizeStatus t = Inr (f, t\<lparr>syncPacket := sp\<rparr>)" "tx_ok (t\<lparr>syncPacket := sp\<rparr>)"
    "packet_of_frame opt (f_data f) ch = Inr \<lparr>p_header = p_header sp,
      p_payload = sync_bytes s, p_channel = ch, p_options = opt\<rparr>"
    "h_crc (p_header sp) = crc16 (sync_bytes s)" "sync_packet_ok sp"
    and s: "syncId s = hd (p_payload (syncPacket t))" "tx_global_seq s = global_seq_num t"
    "sync_wf s" "\<forall>i < 128. port_seq s ! i = at0 (port_sequence t) (of_nat i)" by blast
  have "verify_checksum (Some (sync_bytes s)) (getPduLength (p_header sp)) (h_crc (p_header sp)) = Inr True"
    using f(4,5) s(3) by (simp add: verify_checksum_def calc_checksum_ok sync_packet_ok_def)
  moreover have "sync_of_bytes (sync_bytes s) = Inr s" using sync_roundtrip [OF s(3), of "[]"] by simp
  ultimately show ?thesis
    using f s by (intro exI [of _ f] exI [of _ "t\<lparr>syncPacket := sp\<rparr>"] exI [of _ s] exI) (auto simp: sync_packet_ok_def)
qed

end
