(* ===== verification/Rx_Module.thy ===== *)
theory Rx_Module
  imports Packet_Buffer Checksum Shared_Codec
begin

unbundle bit_operations_syntax

text \<open>
  The reception module, \<^verbatim>\<open>core/RxModule.cpp\<close>: received frames are checked, stored per port in order of
  their port sequence numbers, and complete messages are assembled from their fragments. Each method
  is one step. The mutex \<^verbatim>\<open>rx_mutex\<close> is part of the state because one path returns without
  releasing it; a method that has to take it then waits forever (\<open>SelfDeadlock\<close>).
\<close>

section \<open>State\<close>

abbreviation (input) PORT_ALREADY_OPEN :: int where "PORT_ALREADY_OPEN \<equiv> -1"
abbreviation (input) PORT_ALREADY_CLOSED :: int where "PORT_ALREADY_CLOSED \<equiv> -1"
abbreviation (input) MODULE_INACTIVE :: int where "MODULE_INACTIVE \<equiv> -2"
abbreviation (input) CODE_ERROR_CRC_INVALID :: int where "CODE_ERROR_CRC_INVALID \<equiv> -3"
abbreviation (input) CODE_NO_MESSAGES_AVAILABLE :: int where "CODE_NO_MESSAGES_AVAILABLE \<equiv> -4"
abbreviation (input) CODE_ERROR_PORT_CLOSED :: int where "CODE_ERROR_PORT_CLOSED \<equiv> -5"
abbreviation (input) CODE_ERROR_INCONSISTENT_STATE :: int where "CODE_ERROR_INCONSISTENT_STATE \<equiv> -6"
abbreviation (input) MAX_REORDERING_WINDOW :: int where "MAX_REORDERING_WINDOW \<equiv> 128"
abbreviation (input) RECEIVING_WINDOW_SIZE :: u8 where "RECEIVING_WINDOW_SIZE \<equiv> 128"

record RxModule =
  rx_active :: bool
  inBuffer :: Buffer
  to_consume_global_seq :: u8
  receiving_window :: u8
  lastReceivedGlobalSeq :: u8
  statusInterface :: bool
  open_ports :: "u8 \<rightharpoonup> u8"
  current_port_sequence :: "u8 \<rightharpoonup> u8"
  available_messages :: "u8 \<rightharpoonup> u8"
  rx_mutex_held :: bool

text \<open>The calls of the status interface.\<close>

datatype StatusEvent =
    OnLinkStatusChanged bool
  | OnChannelStatusChanged u8 bool
  | OnSynchronization u8

text \<open>Taking the mutex, running a critical section and releasing it.\<close>

definition rx_locked :: "RxModule \<Rightarrow> 'a result \<Rightarrow> 'a result" where
  "rx_locked r k = (if rx_mutex_held r then Inl SelfDeadlock else k)"

section \<open>Operations\<close>

text \<open>The constructor; \<open>a\<close> is the uninitialised member \<^verbatim>\<open>active\<close>.\<close>

definition rx_new :: "bool \<Rightarrow> RxModule" where
  "rx_new a = \<lparr>rx_active = a, inBuffer = buf_new, to_consume_global_seq = 0, receiving_window = 0,
     lastReceivedGlobalSeq = 0, statusInterface = False, open_ports = Map.empty,
     current_port_sequence = Map.empty, available_messages = Map.empty, rx_mutex_held = False\<rparr>"

definition rx_reset :: "RxModule \<Rightarrow> RxModule result" where
  "rx_reset r = rx_locked r (Inr
     (r\<lparr>receiving_window := 0, to_consume_global_seq := 0, lastReceivedGlobalSeq := 0,
        inBuffer := buf_clear (inBuffer r), current_port_sequence := Map.empty,
        available_messages := Map.empty, open_ports := Map.empty\<rparr>))"

definition rx_setStatusInterface :: "bool \<Rightarrow> RxModule \<Rightarrow> RxModule result" where
  "rx_setStatusInterface s r = rx_locked r (Inr (r\<lparr>statusInterface := s\<rparr>))"

definition startModule :: "RxModule \<Rightarrow> RxModule result" where
  "startModule r = rx_locked r (Inr (r\<lparr>receiving_window := 0, rx_active := True\<rparr>))"

definition stopModule :: "RxModule \<Rightarrow> RxModule result" where
  "stopModule r = rx_locked r (Inr (r\<lparr>rx_active := False\<rparr>))"

definition rx_delete :: "RxModule \<Rightarrow> RxModule result" where
  "rx_delete r = bind_res (stopModule r) (\<lambda>r1. rx_locked r1 (Inr (r1\<lparr>inBuffer := buf_delete (inBuffer r1)\<rparr>)))"

definition rx_isActive :: "RxModule \<Rightarrow> bool result" where
  "rx_isActive r = rx_locked r (Inr (rx_active r))"

definition handleLinkStatus :: "bool \<Rightarrow> RxModule \<Rightarrow> StatusEvent list result" where
  "handleLinkStatus linkStatus r =
     rx_locked r (Inr (if statusInterface r then [OnLinkStatusChanged linkStatus] else []))"

definition handleBufferEmpty :: "int \<Rightarrow> RxModule \<Rightarrow> StatusEvent list result" where
  "handleBufferEmpty channel r =
     rx_locked r (Inr (if statusInterface r then [OnChannelStatusChanged (of_int channel) True] else []))"

definition openPort :: "u8 \<Rightarrow> RxModule \<Rightarrow> (int \<times> RxModule) result" where
  "openPort port r = rx_locked r (Inr
     (if \<not> rx_active r then (MODULE_INACTIVE, r)
      else if open_ports r port \<noteq> None then (PORT_ALREADY_OPEN, r)
      else (CODE_SUCCESS, r\<lparr>open_ports := (open_ports r)(port \<mapsto> 1)\<rparr>)))"

definition closePort :: "u8 \<Rightarrow> RxModule \<Rightarrow> (int \<times> RxModule) result" where
  "closePort port r = rx_locked r (Inr
     (if \<not> rx_active r then (MODULE_INACTIVE, r)
      else if open_ports r port \<noteq> None then (CODE_SUCCESS, r\<lparr>open_ports := (open_ports r)(port := None)\<rparr>)
      else (PORT_ALREADY_CLOSED, r)))"

definition isPortOpen :: "u8 \<Rightarrow> RxModule \<Rightarrow> bool result" where
  "isPortOpen port r = rx_locked r (Inr (open_ports r port \<noteq> None \<and> rx_active r))"

text \<open>Policy actor of the incoming buffer.\<close>

definition rx_comparePriority :: "RxModule \<Rightarrow> S3TP_PACKET \<Rightarrow> S3TP_PACKET \<Rightarrow> int" where
  "rx_comparePriority r e1 e2 =
     (let offset = at0 (current_port_sequence r) (getPort (p_header e1));
          seq1 = h_seq_port (p_header e1) - offset;
          seq2 = h_seq_port (p_header e2) - offset
      in if seq1 < seq2 then -1 else if seq1 > seq2 then 1 else 0)"

definition rx_isElementValid :: "RxModule \<Rightarrow> S3TP_PACKET \<Rightarrow> bool" where
  "rx_isElementValid r e = True"

definition rx_maximumWindowExceeded :: "RxModule \<Rightarrow> S3TP_PACKET \<Rightarrow> S3TP_PACKET \<Rightarrow> bool" where
  "rx_maximumWindowExceeded r queueHead newElement =
     (let offset = to_consume_global_seq r;
          headSeq = getGlobalSequence (p_header queueHead) - offset;
          newSeq = getGlobalSequence (p_header newElement) - offset
      in \<bar>uint newSeq - uint headSeq\<bar> > MAX_REORDERING_WINDOW)"

definition rx_policy :: "RxModule \<Rightarrow> S3TP_PACKET PolicyActor" where
  "rx_policy r = \<lparr>comparePriority = rx_comparePriority r, isElementValid = rx_isElementValid r,
     maximumWindowExceeded = rx_maximumWindowExceeded r\<rparr>"

text \<open>
  The walk over the queue of a port. The sum of the expected sequence number and the fragment counter
  is computed as an \<^verbatim>\<open>int\<close>: it does not wrap around.
\<close>

fun rx_complete_loop :: "u8 \<Rightarrow> u8 \<Rightarrow> S3TP_PACKET list \<Rightarrow> bool" where
  "rx_complete_loop cps fragment [] = False"
| "rx_complete_loop cps fragment (pkt # rest) =
     (let hdr = p_header pkt in
      if uint (h_seq_port hdr) \<noteq> uint cps + uint fragment then False
      else if moreFragments hdr \<noteq> 0 \<and> getSubSequence hdr \<noteq> fragment then False
      else if moreFragments hdr = 0 \<and> getSubSequence hdr = fragment then True
      else rx_complete_loop cps (fragment + 1) rest)"

definition isCompleteMessageForPortAvailable :: "u8 \<Rightarrow> RxModule \<Rightarrow> bool \<times> RxModule" where
  "isCompleteMessageForPortAvailable port r =
     (let (q, b) = buf_getQueue port (inBuffer r)
      in (rx_complete_loop (at0 (current_port_sequence r) port) 0 (pq_nodes q), r\<lparr>inBuffer := b\<rparr>))"

text \<open>Flushing: a queue whose first packet is older than the window is dropped.\<close>

primrec rx_flush_loop :: "u8 \<Rightarrow> u8 list \<Rightarrow> Buffer \<Rightarrow> Buffer result" where
  "rx_flush_loop consumed [] b = Inr b"
| "rx_flush_loop consumed (port # ports) b =
     (let (q, b1) = buf_getQueue port b in
      if pq_isEmpty q then rx_flush_loop consumed ports b1
      else bind_res (pq_peek q) (\<lambda>packet.
        let pktGlobalSequence = getGlobalSequence (p_header packet) - consumed in
        if uint pktGlobalSequence \<ge> MAX_REORDERING_WINDOW
        then bind_res (buf_clearQueueForPort port b1) (\<lambda>b2. rx_flush_loop consumed ports b2)
        else rx_flush_loop consumed ports b1))"

definition flushQueues :: "RxModule \<Rightarrow> RxModule result" where
  "flushQueues r =
     bind_res (rx_flush_loop (to_consume_global_seq r) (buf_getActiveQueues (inBuffer r)) (inBuffer r)) (\<lambda>b.
       Inr (r\<lparr>inBuffer := b, to_consume_global_seq := lastReceivedGlobalSeq r\<rparr>))"

text \<open>Synchronization: the non-zero port sequences of the peer are taken over.\<close>

definition sync_ports :: "u8 list \<Rightarrow> (u8 \<rightharpoonup> u8) \<Rightarrow> (u8 \<rightharpoonup> u8)" where
  "sync_ports ps m = fold (\<lambda>i m. if ps ! i \<noteq> 0 then m(of_nat i \<mapsto> ps ! i) else m) [0..<128] m"

definition rx_synchronizeStatus :: "S3TP_SYNC \<Rightarrow> RxModule \<Rightarrow> (StatusEvent list \<times> RxModule) result" where
  "rx_synchronizeStatus s r = rx_locked r
     (let r1 = r\<lparr>current_port_sequence := sync_ports (port_seq s) (current_port_sequence r),
                 lastReceivedGlobalSeq := tx_global_seq s\<rparr>
      in if statusInterface r1 then Inr ([OnSynchronization (syncId s)], r1) else Inl NullDeref)"

text \<open>The bookkeeping after a packet was stored.\<close>

definition rx_announce :: "u8 \<Rightarrow> RxModule \<Rightarrow> RxModule" where
  "rx_announce port r =
     (let (complete, r1) = isCompleteMessageForPortAvailable port r
      in if complete then r1\<lparr>available_messages := (available_messages r1)(port \<mapsto> 1)\<rparr> else r1)"

definition rx_window :: "u8 \<Rightarrow> RxModule \<Rightarrow> RxModule result" where
  "rx_window globalSeq r =
     (let relativeGlobSeq = globalSeq - to_consume_global_seq r;
          r1 = (if relativeGlobSeq < RECEIVING_WINDOW_SIZE \<and> relativeGlobSeq > lastReceivedGlobalSeq r
                then r\<lparr>lastReceivedGlobalSeq := globalSeq\<rparr> else r);
          r2 = r1\<lparr>receiving_window := receiving_window r1 + 1\<rparr>
      in if receiving_window r2 \<ge> RECEIVING_WINDOW_SIZE
         then bind_res (flushQueues r2) (\<lambda>r3. Inr (r3\<lparr>receiving_window := 0\<rparr>))
         else Inr r2)"

definition handleReceivedPacket :: "S3TP_PACKET \<Rightarrow> RxModule \<Rightarrow> (int \<times> StatusEvent list \<times> RxModule) result" where
  "handleReceivedPacket packet r =
     bind_res (rx_isActive r) (\<lambda>active.
     if \<not> active then Inr (MODULE_INACTIVE, [], r)
     else
       let hdr = p_header packet in
       bind_res (verify_checksum (Some (p_payload packet)) (getPduLength hdr) (h_crc hdr)) (\<lambda>valid.
       if \<not> valid then Inr (CODE_ERROR_CRC_INVALID, [], r)
       else if getMessageType hdr = 0x03 then
         bind_res (sync_of_bytes (p_payload packet)) (\<lambda>s.
         bind_res (rx_synchronizeStatus s r) (\<lambda>(ev, r'). Inr (CODE_SUCCESS, ev, r')))
       else if getMessageType hdr \<noteq> 0x00 then Inr (CODE_ERROR_INVALID_TYPE, [], r)
       else
         bind_res (isPortOpen (getPort hdr) r) (\<lambda>portOpen.
         if \<not> portOpen then Inr (CODE_ERROR_PORT_CLOSED, [], r)
         else
           bind_res (buf_write (rx_policy r) packet (inBuffer r)) (\<lambda>(rc, b).
           let r1 = r\<lparr>inBuffer := b\<rparr> in
           if rc \<noteq> CODE_SUCCESS then Inr (rc, [], r1)
           else
             bind_res (rx_window (getGlobalSequence hdr) (rx_announce (getPort hdr) r1)) (\<lambda>r2.
             Inr (CODE_SUCCESS, [], r2))))))"

text \<open>
  The callback of the link. The result code is not used by the callback; it is kept here to tell the
  branches apart. \<open>opt\<close> is the uninitialised options member of the new packet, whose header is first
  read after the module was found active.
\<close>

definition handleFrame :: "u8 \<Rightarrow> u8 \<Rightarrow> u8 list \<Rightarrow> RxModule \<Rightarrow> (int \<times> StatusEvent list \<times> RxModule) result" where
  "handleFrame opt channel frame r =
     bind_res (rx_isActive r) (\<lambda>active.
       if \<not> active then Inr (MODULE_INACTIVE, [], r)
       else bind_res (packet_of_frame opt frame channel) (\<lambda>packet. handleReceivedPacket packet r))"

section \<open>Consuming messages\<close>

definition isNewMessageAvailable :: "RxModule \<Rightarrow> bool result" where
  "isNewMessageAvailable r = rx_locked r (Inr (\<not> map_empty (available_messages r)))"

record Assembly =
  as_buffer :: Buffer
  as_sequence :: "u8 \<rightharpoonup> u8"
  as_data :: "u8 list"
  as_len :: u16

text \<open>
  One pass of the assembly loop: \<open>None\<close> continues, \<open>Some False\<close> is the inconsistent state,
  \<open>Some True\<close> the end of the message.
\<close>

definition rx_assemble_step ::
  "S3TP_PACKET PolicyActor \<Rightarrow> u8 \<Rightarrow> Assembly \<Rightarrow> (bool option \<times> Assembly) result" where
  "rx_assemble_step pa port a =
     bind_res (buf_getNextPacket pa port (as_buffer a)) (\<lambda>(packet, b).
     let a1 = a\<lparr>as_buffer := b\<rparr> in
     case packet of None \<Rightarrow> Inl NullDeref
     | Some pkt \<Rightarrow>
         let hdr = p_header pkt in
         if h_seq_port hdr \<noteq> at0 (as_sequence a1) port then Inr (Some False, a1)
         else if unat (getPduLength hdr) > length (p_payload pkt) then Inl OutOfBounds
         else
           let a2 = a1\<lparr>as_data := as_data a1 @ take (unat (getPduLength hdr)) (p_payload pkt),
                       as_len := as_len a1 + getPduLength hdr,
                       as_sequence := (as_sequence a1)(port \<mapsto> at0 (as_sequence a1) port + 1)\<rparr>
           in Inr (if moreFragments hdr = 0 then Some True else None, a2))"

partial_function (option) rx_assemble ::
  "S3TP_PACKET PolicyActor \<Rightarrow> u8 \<Rightarrow> Assembly \<Rightarrow> (bool \<times> Assembly) result option" where
  "rx_assemble pa port a =
     (case rx_assemble_step pa port a of
        Inl e \<Rightarrow> Some (Inl e)
      | Inr (Some done, a') \<Rightarrow> Some (Inr (done, a'))
      | Inr (None, a') \<Rightarrow> rx_assemble pa port a')"

text \<open>What the caller of \<^verbatim>\<open>getNextCompleteMessage\<close> finds in the result and the output arguments.\<close>

record RxMessage =
  msg_data :: "u8 list option"
  msg_len :: u16
  msg_error :: int
  msg_port :: u8

abbreviation (input) no_message :: "int \<Rightarrow> RxMessage" where
  "no_message e \<equiv> \<lparr>msg_data = None, msg_len = 0, msg_error = e, msg_port = 0\<rparr>"

definition rx_after_message :: "u8 \<Rightarrow> RxModule \<Rightarrow> RxModule" where
  "rx_after_message port r =
     (let (complete, r1) = isCompleteMessageForPortAvailable port r
      in r1\<lparr>available_messages := (if complete then (available_messages r1)(port \<mapsto> 1)
                                  else (available_messages r1)(port := None))\<rparr>)"

definition getNextCompleteMessage :: "RxModule \<Rightarrow> (RxMessage \<times> RxModule) result option" where
  "getNextCompleteMessage r =
     (if rx_mutex_held r then Some (Inl SelfDeadlock)
      else if \<not> rx_active r then Some (Inr (no_message MODULE_INACTIVE, r))
      else case map_begin (available_messages r) of
        None \<Rightarrow> Some (Inr (no_message CODE_NO_MESSAGES_AVAILABLE, r))
      | Some port \<Rightarrow>
          (case rx_assemble (rx_policy r) port \<lparr>as_buffer = inBuffer r,
              as_sequence = current_port_sequence r, as_data = [], as_len = 0\<rparr> of
             None \<Rightarrow> None
           | Some (Inl e) \<Rightarrow> Some (Inl e)
           | Some (Inr (done, a)) \<Rightarrow>
               let r1 = r\<lparr>inBuffer := as_buffer a, current_port_sequence := as_sequence a\<rparr> in
               if \<not> done
               then Some (Inr (\<lparr>msg_data = None, msg_len = as_len a,
                 msg_error = CODE_ERROR_INCONSISTENT_STATE, msg_port = 0\<rparr>, r1\<lparr>rx_mutex_held := True\<rparr>))
               else Some (Inr (\<lparr>msg_data = Some (as_data a), msg_len = as_len a,
                 msg_error = CODE_SUCCESS, msg_port = port\<rparr>, rx_after_message port r1))))"

section \<open>Invariant\<close>

abbreviation rx_view :: "RxModule \<Rightarrow> u8 \<Rightarrow> S3TP_PACKET list" where
  "rx_view r \<equiv> buf_view (inBuffer r)"

definition fits :: "S3TP_PACKET \<Rightarrow> bool" where
  "fits x \<longleftrightarrow> unat (getPduLength (p_header x)) \<le> length (p_payload x)"

definition body :: "S3TP_PACKET \<Rightarrow> u8 list" where
  "body x = take (unat (getPduLength (p_header x))) (p_payload x)"

text \<open>
  The incoming buffer is well formed, every stored packet is as long as it says, and the mutex is free.
\<close>

definition rx_ok :: "RxModule \<Rightarrow> bool" where
  "rx_ok r \<longleftrightarrow> buf_ok (inBuffer r) \<and> \<not> rx_mutex_held r \<and> (\<forall>p. \<forall>x \<in> set (rx_view r p). fits x)"

definition complete :: "RxModule \<Rightarrow> u8 \<Rightarrow> bool" where
  "complete r p \<longleftrightarrow> rx_complete_loop (at0 (current_port_sequence r) p) 0 (rx_view r p)"

lemma rx_new_ok: "rx_ok (rx_new a)"
  by (simp add: rx_ok_def rx_new_def)

lemma isComplete_eq:
  assumes "buf_ok (inBuffer r)"
  shows "\<exists>b. isCompleteMessageForPortAvailable p r = (complete r p, r\<lparr>inBuffer := b\<rparr>) \<and> buf_ok b \<and>
    buf_view b = rx_view r"
  using buf_getQueue_ok(1-3) [OF assms, of p]
  by (cases "buf_getQueue p (inBuffer r)") (auto simp: isCompleteMessageForPortAvailable_def complete_def)

lemma rx_sendable: "sendable (rx_policy r) xs \<longleftrightarrow> xs \<noteq> []"
  by (simp add: sendable_def rx_policy_def rx_isElementValid_def)

section \<open>Assembly\<close>

fun whole_message :: "S3TP_PACKET list \<Rightarrow> bool" where
  "whole_message [] = False"
| "whole_message [x] = (moreFragments (p_header x) = 0)"
| "whole_message (x # y # ys) = (moreFragments (p_header x) \<noteq> 0 \<and> whole_message (y # ys))"

abbreviation policy_accepts :: "S3TP_PACKET PolicyActor \<Rightarrow> bool" where
  "policy_accepts pa \<equiv> \<forall>x. isElementValid pa x"

lemma rx_assemble_step_ok:
  assumes "buf_ok b" "policy_accepts pa" "buf_view b p = x # xs" "fits x"
  shows "\<exists>b'. buf_ok b' \<and> buf_view b' = (buf_view b)(p := xs) \<and>
    rx_assemble_step pa p \<lparr>as_buffer = b, as_sequence = m, as_data = d, as_len = l\<rparr> =
      (if seq_of x \<noteq> at0 m p
       then Inr (Some False, \<lparr>as_buffer = b', as_sequence = m, as_data = d, as_len = l\<rparr>)
       else Inr (if moreFragments (p_header x) = 0 then Some True else None,
         \<lparr>as_buffer = b', as_sequence = m(p \<mapsto> at0 m p + 1), as_data = d @ body x,
          as_len = l + getPduLength (p_header x)\<rparr>))"
proof -
  from buf.fetch_law [OF assms(1), of pa p] assms(2,3) obtain b' where
    "buf_getNextPacket pa p b = Inr (Some x, b')" "buf_ok b'" "buf_view b' = (buf_view b)(p := xs)"
    by (auto simp: sendable_def)
  with assms(4) show ?thesis
    by (intro exI [of _ b']) (simp add: rx_assemble_step_def Let_def fits_def body_def)
qed

lemma rx_assemble_total:
  assumes "buf_ok b" "policy_accepts pa" "\<forall>x \<in> set (buf_view b p). fits x"
  shows "\<exists>res. rx_assemble pa p \<lparr>as_buffer = b, as_sequence = m, as_data = d, as_len = l\<rparr> = Some res"
  using assms
proof (induction "buf_view b p" arbitrary: b m d l)
  case Nil
  then have "\<not> sendable pa (buf_view b p)" by (simp add: sendable_def)
  from buf.fetch_none [OF Nil.prems(1) this] show ?case
    by (subst rx_assemble.simps) (auto simp: rx_assemble_step_def)
next
  case (Cons x xs)
  from Cons(2) [symmetric] Cons.prems have x: "buf_view b p = x # xs" "fits x" by auto
  from rx_assemble_step_ok [OF Cons.prems(1,2) x, of m d l] obtain b' where
    b': "buf_ok b'" "buf_view b' = (buf_view b)(p := xs)" and
    step: "rx_assemble_step pa p \<lparr>as_buffer = b, as_sequence = m, as_data = d, as_len = l\<rparr> =
      (if seq_of x \<noteq> at0 m p
       then Inr (Some False, \<lparr>as_buffer = b', as_sequence = m, as_data = d, as_len = l\<rparr>)
       else Inr (if moreFragments (p_header x) = 0 then Some True else None,
         \<lparr>as_buffer = b', as_sequence = m(p \<mapsto> at0 m p + 1), as_data = d @ body x,
          as_len = l + getPduLength (p_header x)\<rparr>))" by blast
  have "\<exists>res. rx_assemble pa p \<lparr>as_buffer = b', as_sequence = m(p \<mapsto> at0 m p + 1), as_data = d @ body x,
          as_len = l + getPduLength (p_header x)\<rparr> = Some res"
    by (rule Cons(1)) (use b' Cons.prems x in auto)
  then show ?case by (subst rx_assemble.simps) (simp add: step)
qed

lemma rx_assemble_ok:
  assumes "buf_ok b" "policy_accepts pa" "buf_view b p = ms @ rest" "whole_message ms"
    and "map seq_of ms = seqs_from (at0 m p) (length ms)" "\<forall>x \<in> set ms. fits x"
  shows "\<exists>b' m'. rx_assemble pa p \<lparr>as_buffer = b, as_sequence = m, as_data = d, as_len = l\<rparr> =
      Some (Inr (True, \<lparr>as_buffer = b', as_sequence = m',
        as_data = d @ concat (map body ms), as_len = l + (\<Sum>x\<leftarrow>ms. getPduLength (p_header x))\<rparr>)) \<and>
    buf_ok b' \<and> buf_view b' = (buf_view b)(p := rest) \<and>
    (\<forall>k. at0 m' k = (if k = p then at0 m p + of_nat (length ms) else at0 m k))"
  using assms
proof (induction ms arbitrary: b m d l rule: whole_message.induct)
  case (2 x)
  from 2 have x: "buf_view b p = x # rest" "fits x" by auto
  have "seq_of x = at0 m p" using 2(5) by (simp add: seqs_from_def)
  with rx_assemble_step_ok [OF 2(1,2) x, of m d l] 2(4) show ?case
    by (subst rx_assemble.simps) auto
next
  case (3 x y ys)
  from 3 have x: "buf_view b p = x # (y # ys) @ rest" "fits x" by auto
  have s: "seq_of x = at0 m p" "map seq_of (y # ys) = seqs_from (at0 (m(p \<mapsto> at0 m p + 1)) p) (length (y # ys))"
    using 3(6) by (simp_all add: seqs_from_Suc)
  from rx_assemble_step_ok [OF 3(2,3) x, of m d l] s(1) 3(5) obtain b1 where
    b1: "buf_ok b1" "buf_view b1 = (buf_view b)(p := (y # ys) @ rest)" and
    step: "rx_assemble_step pa p \<lparr>as_buffer = b, as_sequence = m, as_data = d, as_len = l\<rparr> =
      Inr (None, \<lparr>as_buffer = b1, as_sequence = m(p \<mapsto> at0 m p + 1), as_data = d @ body x,
          as_len = l + getPduLength (p_header x)\<rparr>)" by auto
  have view1: "buf_view b1 p = (y # ys) @ rest" by (simp add: b1(2))
  have "\<exists>b' m'. rx_assemble pa p \<lparr>as_buffer = b1, as_sequence = m(p \<mapsto> at0 m p + 1), as_data = d @ body x,
      as_len = l + getPduLength (p_header x)\<rparr> =
      Some (Inr (True, \<lparr>as_buffer = b', as_sequence = m', as_data = (d @ body x) @ concat (map body (y # ys)),
        as_len = l + getPduLength (p_header x) + (\<Sum>x\<leftarrow>y # ys. getPduLength (p_header x))\<rparr>)) \<and>
      buf_ok b' \<and> buf_view b' = (buf_view b1)(p := rest) \<and>
      (\<forall>k. at0 m' k = (if k = p then at0 (m(p \<mapsto> at0 m p + 1)) p + of_nat (length (y # ys))
         else at0 (m(p \<mapsto> at0 m p + 1)) k))"
    by (rule 3(1) [OF b1(1) 3(3) view1 _ s(2)]) (use 3(5,7) in simp_all)
  then obtain b' m' where "rx_assemble pa p \<lparr>as_buffer = b1, as_sequence = m(p \<mapsto> at0 m p + 1), as_data = d @ body x,
      as_len = l + getPduLength (p_header x)\<rparr> =
      Some (Inr (True, \<lparr>as_buffer = b', as_sequence = m', as_data = (d @ body x) @ concat (map body (y # ys)),
        as_len = l + getPduLength (p_header x) + (\<Sum>x\<leftarrow>y # ys. getPduLength (p_header x))\<rparr>))"
      "buf_ok b'" "buf_view b' = (buf_view b1)(p := rest)"
      "\<forall>k. at0 m' k = (if k = p then at0 (m(p \<mapsto> at0 m p + 1)) p + of_nat (length (y # ys))
         else at0 (m(p \<mapsto> at0 m p + 1)) k)" by blast
  then show ?case
    by (intro exI [of _ b'] exI [of _ m']) (subst rx_assemble.simps, simp add: step b1 add.assoc)
qed simp

section \<open>Completeness of a message\<close>

lemma complete_loop_message:
  assumes "rx_complete_loop cps f xs"
  shows "\<exists>ms rest. xs = ms @ rest \<and> whole_message ms \<and> map seq_of ms = seqs_from (cps + f) (length ms)"
  using assms
proof (induction xs arbitrary: f)
  case (Cons x xs)
  from Cons.prems have eq: "uint (seq_of x) = uint cps + uint f" by (simp add: Let_def split: if_splits)
  then have "(of_int (uint (seq_of x)) :: u8) = of_int (uint cps + uint f)" by simp
  then have s: "seq_of x = cps + f" by simp
  show ?case
  proof (cases "moreFragments (p_header x) = 0")
    case True
    with s show ?thesis by (intro exI [of _ "[x]"] exI [of _ xs]) (simp add: seqs_from_def)
  next
    case False
    with Cons.prems have "rx_complete_loop cps (f + 1) xs" by (simp add: Let_def split: if_splits)
    from Cons.IH [OF this] obtain ms rest where
      m: "xs = ms @ rest" "whole_message ms" "map seq_of ms = seqs_from (cps + (f + 1)) (length ms)" by blast
    then have "whole_message (x # ms)" using False by (cases ms) simp_all
    with m s show ?thesis
      by (intro exI [of _ "x # ms"] exI [of _ rest]) (simp add: seqs_from_Suc add.assoc)
  qed
qed simp

text \<open>A message numbered as the sender numbers it.\<close>

definition numbered :: "u8 \<Rightarrow> S3TP_PACKET list \<Rightarrow> bool" where
  "numbered s ms \<longleftrightarrow> map seq_of ms = seqs_from s (length ms) \<and>
     (\<forall>i < length ms. getSubSequence (p_header (ms ! i)) = of_nat i)"

lemma complete_loop_numbered:
  assumes "whole_message ms" "map seq_of ms = seqs_from (cps + of_nat f) (length ms)"
    and "\<forall>i < length ms. getSubSequence (p_header (ms ! i)) = of_nat (f + i)" "f + length ms \<le> 256"
    and "unat cps + f < 256"
  shows "rx_complete_loop cps (of_nat f) (ms @ rest) \<longleftrightarrow> unat cps + f + length ms \<le> 256"
  using assms
proof (induction ms arbitrary: f rule: whole_message.induct)
  case (2 x)
  have "seq_of x = cps + of_nat f" using 2(2) by (simp add: seqs_from_def)
  then have "uint (seq_of x) = uint cps + uint (of_nat f :: u8)"
    using uint_add_of_nat_u8 [OF 2(5)] by simp
  with 2 show ?case by (simp add: Let_def)
next
  case (3 x y ys)
  have f: "f < 256" using 3 by simp
  have seq: "seq_of x = cps + of_nat f" "map seq_of (y # ys) = seqs_from (cps + of_nat (Suc f)) (length (y # ys))"
    using 3(3) by (simp_all add: seqs_from_Suc add_ac)
  have "uint (seq_of x) = uint cps + uint (of_nat f :: u8)"
    using uint_add_of_nat_u8 [OF 3(6)] seq(1) by simp
  moreover have "getSubSequence (p_header x) = of_nat f" using 3(4) [rule_format, of 0] by simp
  ultimately have step: "rx_complete_loop cps (of_nat f) ((x # y # ys) @ rest) =
      rx_complete_loop cps (of_nat (Suc f)) ((y # ys) @ rest)"
    using 3(2) by (simp add: Let_def add_ac)
  show ?case
  proof (cases "unat cps + Suc f < 256")
    case True
    have "rx_complete_loop cps (of_nat (Suc f)) ((y # ys) @ rest) \<longleftrightarrow> unat cps + Suc f + length (y # ys) \<le> 256"
    proof (rule 3(1))
      show "\<forall>i < length (y # ys). getSubSequence (p_header ((y # ys) ! i)) = of_nat (Suc f + i)"
      proof (intro allI impI)
        fix i assume "i < length (y # ys)"
        then show "getSubSequence (p_header ((y # ys) ! i)) = of_nat (Suc f + i)"
          using 3(4) [rule_format, of "Suc i"] by simp
      qed
      show "map seq_of (y # ys) = seqs_from (cps + of_nat (Suc f)) (length (y # ys))" by (rule seq(2))
      show "whole_message (y # ys)" using 3(2) by simp
      show "Suc f + length (y # ys) \<le> 256" using 3(5) by simp
    qed (rule True)
    then show ?thesis unfolding step by simp
  next
    case False
    have "uint (seq_of y) \<noteq> uint cps + uint (of_nat (Suc f) :: u8)"
    proof
      assume "uint (seq_of y) = uint cps + uint (of_nat (Suc f) :: u8)"
      then have "unat (seq_of y) = unat cps + unat (of_nat (Suc f) :: u8)" by (simp only: uint_eq_add_iff)
      moreover have "unat (of_nat (Suc f) :: u8) = Suc f" using 3(5) by (intro unat_of_nat_u8) simp
      ultimately show False using False unat_u8_lt [of "seq_of y"] by simp
    qed
    then show ?thesis unfolding step using False by simp
  qed
qed simp

lemma complete_numbered:
  assumes "whole_message ms" "numbered cps ms" "length ms \<le> 256"
  shows "rx_complete_loop cps 0 (ms @ rest) \<longleftrightarrow> unat cps + length ms \<le> 256"
  using complete_loop_numbered [of ms cps 0 rest] assms unat_u8_lt [of cps] by (simp add: numbered_def)

section \<open>Consuming\<close>

lemma getNextCompleteMessage_ok:
  assumes ok: "rx_ok r" and act: "rx_active r" and p: "map_begin (available_messages r) = Some p"
    and view: "rx_view r p = ms @ rest" and ms: "whole_message ms"
    and seq: "map seq_of ms = seqs_from (at0 (current_port_sequence r) p) (length ms)"
  shows "\<exists>r'. getNextCompleteMessage r = Some (Inr (\<lparr>msg_data = Some (concat (map body ms)),
      msg_len = (\<Sum>x\<leftarrow>ms. getPduLength (p_header x)), msg_error = 0, msg_port = p\<rparr>, r')) \<and>
    rx_ok r' \<and> rx_view r' = (rx_view r)(p := rest) \<and>
    (\<forall>k. at0 (current_port_sequence r') k =
      (if k = p then at0 (current_port_sequence r) p + of_nat (length ms) else at0 (current_port_sequence r) k)) \<and>
    available_messages r' = (if complete r' p then (available_messages r)(p \<mapsto> 1) else (available_messages r)(p := None)) \<and>
    open_ports r' = open_ports r \<and> rx_active r' \<and> receiving_window r' = receiving_window r \<and>
    to_consume_global_seq r' = to_consume_global_seq r"
proof -
  have b: "buf_ok (inBuffer r)" "\<forall>x \<in> set ms. fits x" "\<not> rx_mutex_held r"
    using ok view by (auto simp: rx_ok_def dest: spec [of _ p])
  have acc: "policy_accepts (rx_policy r)" by (simp add: rx_policy_def rx_isElementValid_def)
  from rx_assemble_ok [OF b(1) acc view ms seq b(2), of "[]" 0] obtain b' m' where
    run: "rx_assemble (rx_policy r) p \<lparr>as_buffer = inBuffer r, as_sequence = current_port_sequence r,
        as_data = [], as_len = 0\<rparr> = Some (Inr (True, \<lparr>as_buffer = b', as_sequence = m',
        as_data = concat (map body ms), as_len = (\<Sum>x\<leftarrow>ms. getPduLength (p_header x))\<rparr>))"
    and b': "buf_ok b'" "buf_view b' = (rx_view r)(p := rest)"
    and m': "\<forall>k. at0 m' k = (if k = p then at0 (current_port_sequence r) p + of_nat (length ms)
      else at0 (current_port_sequence r) k)" by auto
  let ?r1 = "r\<lparr>inBuffer := b', current_port_sequence := m'\<rparr>"
  from isComplete_eq [of ?r1 p] b' obtain b2 where
    c: "isCompleteMessageForPortAvailable p ?r1 = (complete ?r1 p, ?r1\<lparr>inBuffer := b2\<rparr>)"
    and b2: "buf_ok b2" "buf_view b2 = buf_view b'" by auto
  define r' where "r' = rx_after_message p ?r1"
  have r': "inBuffer r' = b2" "current_port_sequence r' = m'" "rx_mutex_held r' = rx_mutex_held r"
    "available_messages r' = (if complete ?r1 p then (available_messages r)(p \<mapsto> 1) else (available_messages r)(p := None))"
    "open_ports r' = open_ports r" "rx_active r' = rx_active r" "receiving_window r' = receiving_window r"
    "to_consume_global_seq r' = to_consume_global_seq r"
    by (simp_all add: r'_def rx_after_message_def c)
  have "complete r' p = complete ?r1 p" by (simp add: complete_def r' b2)
  moreover have "\<forall>x \<in> set (buf_view b2 q). fits x" for q
    using ok view unfolding rx_ok_def b2 b' by (metis Un_iff fun_upd_apply set_append)
  moreover have "getNextCompleteMessage r = Some (Inr (\<lparr>msg_data = Some (concat (map body ms)),
      msg_len = (\<Sum>x\<leftarrow>ms. getPduLength (p_header x)), msg_error = 0, msg_port = p\<rparr>, r'))"
    using b(3) act p run by (simp add: getNextCompleteMessage_def r'_def Let_def)
  ultimately show ?thesis
    using b(3) b2 b' m' act by (intro exI [of _ r']) (simp add: r' rx_ok_def)
qed

section \<open>Storing\<close>

definition stale :: "u8 \<Rightarrow> S3TP_PACKET list \<Rightarrow> bool" where
  "stale consumed xs \<longleftrightarrow> xs \<noteq> [] \<and> 128 \<le> uint (getGlobalSequence (p_header (hd xs)) - consumed)"

lemma rx_flush_loop_ok:
  assumes "buf_ok b"
  shows "\<exists>b'. rx_flush_loop c ps b = Inr b' \<and> buf_ok b' \<and>
    buf_view b' = (\<lambda>p. if p \<in> set ps \<and> stale c (buf_view b p) then [] else buf_view b p)"
  using assms
proof (induction ps arbitrary: b)
  case (Cons p ps)
  obtain q b1 where g: "buf_getQueue p b = (q, b1)" by (cases "buf_getQueue p b") simp
  note gq = buf_getQueue_ok [OF Cons.prems, of p, unfolded g fst_conv snd_conv]
  consider "buf_view b p = []" | x xs where "buf_view b p = x # xs" by (cases "buf_view b p") auto
  then show ?case
  proof cases
    case 1
    with gq Cons.IH [of b1] g show ?thesis by (auto simp: fun_eq_iff stale_def)
  next
    case (2 x xs)
    then have ne: "buf_view b1 p \<noteq> []" by (simp add: gq(3))
    show ?thesis
    proof (cases "stale c (buf_view b p)")
      case True
      from buf_clearQueueForPort_ok [OF gq(2) queue_present [OF ne]] obtain b2 where
        b2: "buf_clearQueueForPort p b1 = Inr b2" "buf_ok b2" "buf_view b2 = (buf_view b)(p := [])"
        by (auto simp: gq(3))
      have "rx_flush_loop c (p # ps) b = rx_flush_loop c ps b2"
        using g gq(5) gq(6) [OF 2] 2 True b2(1) by (simp add: stale_def Let_def)
      with Cons.IH [OF b2(2)] True 2 show ?thesis by (auto simp: b2(3) fun_eq_iff stale_def)
    next
      case False
      have "rx_flush_loop c (p # ps) b = rx_flush_loop c ps b1"
        using g gq(5) gq(6) [OF 2] 2 False by (simp add: stale_def Let_def)
      with Cons.IH [OF gq(2)] False show ?thesis by (auto simp: gq(3) fun_eq_iff)
    qed
  qed
qed (simp add: fun_eq_iff)

lemma flushQueues_ok:
  assumes "rx_ok r"
  shows "\<exists>b. flushQueues r = Inr (r\<lparr>inBuffer := b, to_consume_global_seq := lastReceivedGlobalSeq r\<rparr>) \<and> buf_ok b \<and>
    buf_view b = (\<lambda>p. if stale (to_consume_global_seq r) (rx_view r p) then [] else rx_view r p)"
proof -
  from assms have b: "buf_ok (inBuffer r)" by (simp add: rx_ok_def)
  show ?thesis
    using rx_flush_loop_ok [OF b, of "to_consume_global_seq r" "buf_getActiveQueues (inBuffer r)"]
    by (auto simp: flushQueues_def buf_getActiveQueues_ok [OF b] stale_def fun_eq_iff)
qed

text \<open>Whether a packet would be accepted, and what the policy makes of it.\<close>

definition valid_data :: "RxModule \<Rightarrow> S3TP_PACKET \<Rightarrow> bool" where
  "valid_data r x \<longleftrightarrow> fits x \<and> h_crc (p_header x) = crc16 (body x) \<and> getMessageType (p_header x) = 0 \<and>
     open_ports r (getPort (p_header x)) \<noteq> None"

lemma verify_checksum_fits:
  "fits x \<Longrightarrow> verify_checksum (Some (p_payload x)) (getPduLength (p_header x)) c = Inr (c = crc16 (body x))"
  by (simp add: verify_checksum_def calc_checksum_ok fits_def body_def)

lemma rx_ok_stored:
  assumes "rx_ok r" "fits x" "buf_ok b" "\<forall>p. buf_view b p = [] \<or> buf_view b p = rx_view r p \<or> buf_view b p = stored pa x (rx_view r p)"
    "inBuffer r' = b" "\<not> rx_mutex_held r'"
  shows "rx_ok r'"
proof -
  have "\<forall>y \<in> set (buf_view b p). fits y" for p
    using assms(4) [rule_format, of p] stored_set [of pa x "rx_view r p"] assms(1,2) by (auto simp: rx_ok_def)
  with assms show ?thesis by (simp add: rx_ok_def)
qed

text \<open>The state after an accepted data packet while the receiving window is not full.\<close>

definition rx_took :: "S3TP_PACKET \<Rightarrow> RxModule \<Rightarrow> RxModule \<Rightarrow> bool" where
  "rx_took x r r' \<longleftrightarrow>
     (let p = getPort (p_header x) in
      rx_view r' = (rx_view r)(p := stored (rx_policy r) x (rx_view r p)) \<and>
      available_messages r' = (if complete r' p then (available_messages r)(p \<mapsto> 1) else available_messages r) \<and>
      receiving_window r' = receiving_window r + 1 \<and> current_port_sequence r' = current_port_sequence r \<and>
      to_consume_global_seq r' = to_consume_global_seq r \<and> open_ports r' = open_ports r \<and>
      rx_active r' = rx_active r \<and> statusInterface r' = statusInterface r)"

lemma rx_announce_ok:
  assumes "rx_ok r"
  shows "\<exists>b. rx_announce p r = r\<lparr>inBuffer := b, available_messages :=
      (if complete r p then (available_messages r)(p \<mapsto> 1) else available_messages r)\<rparr> \<and>
    buf_ok b \<and> buf_view b = rx_view r"
  using isComplete_eq [of r p] assms by (auto simp: rx_announce_def rx_ok_def)

lemma handleReceivedPacket_stores:
  assumes ok: "rx_ok r" and act: "rx_active r" and v: "valid_data r x"
    and room: "length (rx_view r (getPort (p_header x))) < 65535" and win: "receiving_window r < 127"
  shows "\<exists>r'. handleReceivedPacket x r = Inr (0, [], r') \<and> rx_ok r' \<and> rx_took x r r'"
proof -
  let ?p = "getPort (p_header x)"
  from ok have b: "buf_ok (inBuffer r)" and h: "\<not> rx_mutex_held r" by (auto simp: rx_ok_def)
  from buf.store_law [OF b room, of "rx_policy r"] obtain b1 where
    b1: "buf_write (rx_policy r) x (inBuffer r) = Inr (0, b1)" "buf_ok b1"
    "buf_view b1 = (rx_view r)(?p := stored (rx_policy r) x (rx_view r ?p))" by blast
  let ?r1 = "r\<lparr>inBuffer := b1\<rparr>"
  have fx: "fits x" using v by (simp add: valid_data_def)
  have ok1: "rx_ok ?r1" by (rule rx_ok_stored [OF ok fx b1(2)]) (use b1(3) h in auto)
  from rx_announce_ok [OF ok1, of ?p] obtain b2 where
    a: "rx_announce ?p ?r1 = ?r1\<lparr>inBuffer := b2, available_messages :=
      (if complete ?r1 ?p then (available_messages ?r1)(?p \<mapsto> 1) else available_messages ?r1)\<rparr>"
    and b2: "buf_ok b2" "buf_view b2 = rx_view ?r1" by blast
  have w: "\<not> (128 \<le> receiving_window r + 1)"
    using win by (simp add: word_le_nat_alt word_less_nat_alt unat_word_ariths(1))
  define r' where "r' = projr (rx_window (getGlobalSequence (p_header x)) (rx_announce ?p ?r1))"
  have win_eq: "rx_window (getGlobalSequence (p_header x)) (rx_announce ?p ?r1) = Inr r'"
    using w by (simp add: r'_def a rx_window_def Let_def)
  have r': "inBuffer r' = b2" "receiving_window r' = receiving_window r + 1"
    "available_messages r' = (if complete ?r1 ?p then (available_messages r)(?p \<mapsto> 1) else available_messages r)"
    "current_port_sequence r' = current_port_sequence r" "to_consume_global_seq r' = to_consume_global_seq r"
    "open_ports r' = open_ports r" "rx_active r' = rx_active r" "statusInterface r' = statusInterface r"
    "rx_mutex_held r' = rx_mutex_held r"
    using w by (simp_all add: r'_def a rx_window_def Let_def)
  have "complete r' ?p = complete ?r1 ?p" by (simp add: complete_def r' b2)
  then have took: "rx_took x r r'" by (simp add: rx_took_def Let_def r' b2 b1(3))
  have ok': "rx_ok r'" using ok1 b2 h by (simp add: rx_ok_def r')
  have "handleReceivedPacket x r = Inr (0, [], r')"
    using h act v win_eq b1(1)
    by (simp add: handleReceivedPacket_def rx_isActive_def isPortOpen_def rx_locked_def Let_def valid_data_def
        verify_checksum_fits)
  with took ok' show ?thesis by blast
qed

section \<open>Receiving a sequence of frames\<close>

primrec rx_feed :: "(u8 \<times> u8 \<times> u8 list) list \<Rightarrow> RxModule \<Rightarrow> RxModule result" where
  "rx_feed [] r = Inr r"
| "rx_feed (f # fs) r =
     bind_res (case f of (opt, ch, frame) \<Rightarrow> handleFrame opt ch frame r) (\<lambda>(rc, ev, r'). rx_feed fs r')"

text \<open>The frame as which a packet arrives: on its channel, with some value of the options member.\<close>

definition rx_frame :: "S3TP_PACKET \<Rightarrow> u8 \<times> u8 \<times> u8 list" where
  "rx_frame x = (p_options x, p_channel x, header_bytes (p_header x) @ p_payload x)"

definition rx_key :: "RxModule \<Rightarrow> u8 \<Rightarrow> S3TP_PACKET \<Rightarrow> u8" where
  "rx_key r p x = seq_of x - at0 (current_port_sequence r) p"

interpretation rx_order: key_comparator "rx_comparePriority r" "rx_key r p" "\<lambda>x. getPort (p_header x) = p" for r p
  by unfold_locales (auto simp: rx_comparePriority_def rx_key_def Let_def)

definition in_window :: "RxModule \<Rightarrow> S3TP_PACKET \<Rightarrow> bool" where
  "in_window r x \<longleftrightarrow> uint (getGlobalSequence (p_header x) - to_consume_global_seq r) \<le> 128"

lemma handleFrame_eq:
  assumes "rx_ok r" "rx_active r"
  shows "(case rx_frame x of (opt, ch, frame) \<Rightarrow> handleFrame opt ch frame r) = handleReceivedPacket x r"
  using assms
  by (cases x) (simp add: rx_frame_def handleFrame_def rx_isActive_def rx_locked_def rx_ok_def packet_of_frame_def)

lemma in_window_not_exceeded: "in_window r x \<Longrightarrow> in_window r y \<Longrightarrow> \<not> rx_maximumWindowExceeded r x y"
  using uint_ge_0 [of "getGlobalSequence (p_header x) - to_consume_global_seq r"]
    uint_ge_0 [of "getGlobalSequence (p_header y) - to_consume_global_seq r"]
  unfolding in_window_def rx_maximumWindowExceeded_def Let_def by linarith

lemma rx_stored_insort:
  assumes "\<forall>y \<in> set xs. getPort (p_header y) = p" "sorted (map (rx_key r p) xs)"
    and "\<forall>y \<in> set xs. in_window r y" "in_window r x" "getPort (p_header x) = p"
  shows "stored (rx_policy r) x xs = insort_key (rx_key r p) x xs"
proof -
  have "xs \<noteq> [] \<longrightarrow> \<not> rx_maximumWindowExceeded r (hd xs) x"
    using assms(3,4) in_window_not_exceeded by simp
  then have "stored (rx_policy r) x xs = place (rx_comparePriority r) x xs"
    by (auto simp: stored_def rx_policy_def)
  also have "\<dots> = insort_key (rx_key r p) x xs"
    by (rule rx_order.place_insort [OF assms(2)]) (use assms(1,5) in simp)
  finally show ?thesis .
qed

text \<open>
  Data packets of one port within the window: whatever the order of arrival, the queue of the port
  holds them in the order of their sequence numbers.
\<close>

lemma rx_took_frame:
  "rx_took x r r' \<Longrightarrow> valid_data r' = valid_data r \<and> in_window r' = in_window r \<and> rx_key r' p = rx_key r p"
  by (simp add: rx_took_def Let_def valid_data_def [abs_def] in_window_def [abs_def] rx_key_def [abs_def])

lemma rx_feed_insert:
  assumes "rx_ok r" "rx_active r" "sorted (map (rx_key r p) (rx_view r p))"
    and "\<forall>x \<in> set (xs @ rx_view r p). in_window r x"
    and "\<forall>x \<in> set xs. valid_data r x \<and> getPort (p_header x) = p"
    and "length (rx_view r p) + length xs < 65535" "unat (receiving_window r) + length xs < 128"
    and "available_messages r = Map.empty \<or> dom (available_messages r) = {p}"
  shows "\<exists>r'. rx_feed (map rx_frame xs) r = Inr r' \<and> rx_ok r' \<and> rx_active r' \<and>
    rx_view r' = (rx_view r)(p := fold (insort_key (rx_key r p)) xs (rx_view r p)) \<and>
    current_port_sequence r' = current_port_sequence r \<and> dom (available_messages r') \<subseteq> {p} \<and>
    (xs \<noteq> [] \<and> complete r' p \<longrightarrow> p \<in> dom (available_messages r')) \<and>
    (p \<in> dom (available_messages r') \<longrightarrow> p \<in> dom (available_messages r) \<or>
      (\<exists>ys us. xs = ys @ us \<and> rx_complete_loop (at0 (current_port_sequence r) p) 0 (fold (insort_key (rx_key r p)) ys (rx_view r p))))"
  using assms
proof (induction xs arbitrary: r)
  case Nil
  then show ?case by auto
next
  case (Cons x xs)
  have x: "valid_data r x" "getPort (p_header x) = p" "in_window r x" using Cons.prems by auto
  have "length (rx_view r (getPort (p_header x))) < 65535" using Cons.prems(6) x(2) by simp
  moreover have "receiving_window r < 127" using Cons.prems(7) by (simp add: word_less_nat_alt)
  ultimately obtain r1 where r1: "handleReceivedPacket x r = Inr (0, [], r1)" "rx_ok r1" "rx_took x r r1"
    using handleReceivedPacket_stores [OF Cons.prems(1,2) x(1)] by blast
  have ports: "\<forall>y \<in> set (rx_view r p). getPort (p_header y) = p"
    using Cons.prems(1) by (simp add: rx_ok_def buf_ok_def)
  note fr = rx_took_frame [OF r1(3), of p]
  have view: "rx_view r1 = (rx_view r)(p := insort_key (rx_key r p) x (rx_view r p))"
    using r1(3) x(2,3) rx_stored_insort [OF ports Cons.prems(3)] Cons.prems(4) by (simp add: rx_took_def Let_def)
  have t: "rx_active r1" "receiving_window r1 = receiving_window r + 1"
    "current_port_sequence r1 = current_port_sequence r"
    "available_messages r1 = (if complete r1 p then (available_messages r)(p \<mapsto> 1) else available_messages r)"
    using r1(3) x(2) Cons.prems(2) by (simp_all add: rx_took_def Let_def)
  have w: "unat (receiving_window r1) = unat (receiving_window r) + 1"
    using unat_add_of_nat_u8 [of "receiving_window r" 1] Cons.prems(7) by (simp add: t(2))
  have "\<exists>r'. rx_feed (map rx_frame xs) r1 = Inr r' \<and> rx_ok r' \<and> rx_active r' \<and>
    rx_view r' = (rx_view r1)(p := fold (insort_key (rx_key r1 p)) xs (rx_view r1 p)) \<and>
    current_port_sequence r' = current_port_sequence r1 \<and> dom (available_messages r') \<subseteq> {p} \<and>
    (xs \<noteq> [] \<and> complete r' p \<longrightarrow> p \<in> dom (available_messages r')) \<and>
    (p \<in> dom (available_messages r') \<longrightarrow> p \<in> dom (available_messages r1) \<or>
      (\<exists>ys us. xs = ys @ us \<and> rx_complete_loop (at0 (current_port_sequence r1) p) 0 (fold (insort_key (rx_key r1 p)) ys (rx_view r1 p))))"
  proof (rule Cons.IH)
    show "sorted (map (rx_key r1 p) (rx_view r1 p))"
      using Cons.prems(3) by (simp add: view fr sorted_insort_key)
    show "\<forall>y \<in> set (xs @ rx_view r1 p). in_window r1 y"
      using Cons.prems(4) x(3) by (auto simp: view fr set_insort_key)
    show "\<forall>y \<in> set xs. valid_data r1 y \<and> getPort (p_header y) = p" using Cons.prems(5) by (simp add: fr)
    show "length (rx_view r1 p) + length xs < 65535" using Cons.prems(6) by (simp add: view)
    show "available_messages r1 = Map.empty \<or> dom (available_messages r1) = {p}" using Cons.prems(8) t(4) by auto
  qed (use r1 t w Cons.prems(7) in simp_all)
  then obtain r' where r': "rx_feed (map rx_frame xs) r1 = Inr r'" "rx_ok r'" "rx_active r'"
    "rx_view r' = (rx_view r1)(p := fold (insort_key (rx_key r1 p)) xs (rx_view r1 p))"
    "current_port_sequence r' = current_port_sequence r1" "dom (available_messages r') \<subseteq> {p}"
    "xs \<noteq> [] \<and> complete r' p \<longrightarrow> p \<in> dom (available_messages r')"
    and ann: "p \<in> dom (available_messages r') \<longrightarrow> p \<in> dom (available_messages r1) \<or>
      (\<exists>ys us. xs = ys @ us \<and> rx_complete_loop (at0 (current_port_sequence r1) p) 0 (fold (insort_key (rx_key r1 p)) ys (rx_view r1 p)))"
    by blast
  have feed: "rx_feed (map rx_frame (x # xs)) r = Inr r'"
    using handleFrame_eq [OF Cons.prems(1,2), of x] r1(1) r'(1) by simp
  have last: "complete r' p \<longrightarrow> p \<in> dom (available_messages r')"
    using r'(1,7) t(4) by (cases "xs = []") auto
  have fold1: "fold (insort_key (rx_key r1 p)) ys (rx_view r1 p) = fold (insort_key (rx_key r p)) (x # ys) (rx_view r p)" for ys
    by (simp add: view fr)
  have "p \<in> dom (available_messages r) \<or>
      (\<exists>ys us. x # xs = ys @ us \<and> rx_complete_loop (at0 (current_port_sequence r) p) 0 (fold (insort_key (rx_key r p)) ys (rx_view r p)))"
    if "p \<in> dom (available_messages r')"
  proof (cases "p \<in> dom (available_messages r1)")
    case True
    then have "p \<in> dom (available_messages r) \<or> complete r1 p" using t(4) by (auto split: if_splits)
    moreover have "\<exists>ys us. x # xs = ys @ us \<and> rx_complete_loop (at0 (current_port_sequence r) p) 0 (fold (insort_key (rx_key r p)) ys (rx_view r p))"
      if "complete r1 p" using that fold1 [of "[]"] t(3) by (intro exI [of _ "[x]"] exI [of _ xs]) (simp add: complete_def)
    ultimately show ?thesis by blast
  next
    case False
    with ann that obtain ys us where "xs = ys @ us" "rx_complete_loop (at0 (current_port_sequence r1) p) 0 (fold (insort_key (rx_key r1 p)) ys (rx_view r1 p))"
      by blast
    then show ?thesis using fold1 [of ys] t(3) by (intro disjI2 exI [of _ "x # ys"] exI [of _ us]) simp
  qed
  with feed r' last t(3) fold1 [of xs] show ?case by (intro exI [of _ r']) (simp add: view)
qed

section \<open>Consuming a sequence of messages\<close>

primrec rx_consume :: "nat \<Rightarrow> RxModule \<Rightarrow> (RxMessage list \<times> RxModule) result option" where
  "rx_consume 0 r = Some (Inr ([], r))"
| "rx_consume (Suc n) r =
     (case getNextCompleteMessage r of
        None \<Rightarrow> None
      | Some (Inl e) \<Rightarrow> Some (Inl e)
      | Some (Inr (m, r1)) \<Rightarrow>
          (case rx_consume n r1 of
             None \<Rightarrow> None
           | Some (Inl e) \<Rightarrow> Some (Inl e)
           | Some (Inr (ms, r2)) \<Rightarrow> Some (Inr (m # ms, r2))))"

text \<open>Messages numbered one after the other; none of them crosses the wrap-around of the port sequence.\<close>

fun messages_from :: "u8 \<Rightarrow> S3TP_PACKET list list \<Rightarrow> bool" where
  "messages_from s [] = True"
| "messages_from s (ms # mss) =
     (whole_message ms \<and> numbered s ms \<and> unat s + length ms \<le> 256 \<and>
      messages_from (s + of_nat (length ms)) mss)"

definition message_of :: "u8 \<Rightarrow> S3TP_PACKET list \<Rightarrow> RxMessage" where
  "message_of p ms = \<lparr>msg_data = Some (concat (map body ms)),
     msg_len = (\<Sum>x\<leftarrow>ms. getPduLength (p_header x)), msg_error = 0, msg_port = p\<rparr>"

lemma map_begin_single: "dom m = {k} \<Longrightarrow> map_begin m = Some k"
  using map_begin_SomeD [of m] map_begin_None_iff [of m] by (cases "map_begin m") auto

lemma messages_from_seq: "messages_from s mss \<Longrightarrow> map seq_of (concat mss) = seqs_from s (length (concat mss))"
  by (induction mss arbitrary: s) (simp_all add: numbered_def seqs_from_append)

lemma complete_messages:
  assumes "messages_from (at0 (current_port_sequence r) p) mss" "rx_view r p = concat mss"
  shows "complete r p \<longleftrightarrow> mss \<noteq> []"
proof (cases mss)
  case (Cons ms mss')
  then have "whole_message ms" "numbered (at0 (current_port_sequence r) p) ms"
    "unat (at0 (current_port_sequence r) p) + length ms \<le> 256" "rx_view r p = ms @ concat mss'"
    using assms by auto
  with Cons complete_numbered [of ms _ "concat mss'"] show ?thesis by (simp add: complete_def)
qed (use assms in \<open>simp add: complete_def\<close>)

lemma rx_consume_messages:
  assumes "rx_ok r" "rx_active r" "messages_from (at0 (current_port_sequence r) p) mss"
    and "rx_view r p = concat mss" "dom (available_messages r) = (if mss = [] then {} else {p})"
  shows "\<exists>r'. rx_consume (length mss) r = Some (Inr (map (message_of p) mss, r')) \<and> rx_ok r' \<and> rx_active r' \<and>
    rx_view r' = (rx_view r)(p := []) \<and> available_messages r' = Map.empty \<and>
    at0 (current_port_sequence r') p = at0 (current_port_sequence r) p + of_nat (length (concat mss))"
  using assms
proof (induction mss arbitrary: r)
  case Nil
  then show ?case by (auto intro!: exI [of _ r])
next
  case (Cons ms mss)
  let ?s = "at0 (current_port_sequence r) p"
  have m: "whole_message ms" "map seq_of ms = seqs_from ?s (length ms)" "messages_from (?s + of_nat (length ms)) mss"
    using Cons.prems(3) by (simp_all add: numbered_def)
  have view: "rx_view r p = ms @ concat mss" using Cons.prems(4) by simp
  have b: "map_begin (available_messages r) = Some p" using map_begin_single [of _ p] Cons.prems(5) by simp
  from getNextCompleteMessage_ok [OF Cons.prems(1,2) b view m(1,2)] obtain r1 where
    r1: "getNextCompleteMessage r = Some (Inr (message_of p ms, r1))" "rx_ok r1" "rx_active r1"
      "rx_view r1 = (rx_view r)(p := concat mss)"
      "at0 (current_port_sequence r1) p = ?s + of_nat (length ms)"
      "available_messages r1 = (if complete r1 p then (available_messages r)(p \<mapsto> 1) else (available_messages r)(p := None))"
    unfolding message_of_def by auto
  have "complete r1 p \<longleftrightarrow> mss \<noteq> []" using complete_messages [of r1 p mss] m(3) r1(4,5) by simp
  then have "dom (available_messages r1) = (if mss = [] then {} else {p})"
    using r1(6) Cons.prems(5) by auto
  moreover have "messages_from (at0 (current_port_sequence r1) p) mss" "rx_view r1 p = concat mss"
    using m(3) r1(4,5) by simp_all
  ultimately obtain r' where
    "rx_consume (length mss) r1 = Some (Inr (map (message_of p) mss, r'))" "rx_ok r'" "rx_active r'"
    "rx_view r' = (rx_view r1)(p := [])" "available_messages r' = Map.empty"
    "at0 (current_port_sequence r') p = at0 (current_port_sequence r1) p + of_nat (length (concat mss))"
    using Cons.IH [OF r1(2,3)] by blast
  then show ?case using r1 by (intro exI [of _ r']) (simp add: add.assoc)
qed

lemma rx_keys_ascending:
  assumes "map seq_of xs = seqs_from (at0 (current_port_sequence r) p) (length xs)" "length xs \<le> 256"
  shows "sorted (map (rx_key r p) xs) \<and> inj_on (rx_key r p) (set xs)"
proof -
  have "map (rx_key r p) xs = map (\<lambda>s. s - at0 (current_port_sequence r) p) (map seq_of xs)"
    by (simp add: rx_key_def)
  also have "\<dots> = map of_nat [0..<length xs]" unfolding assms(1) by (simp add: seqs_from_def)
  finally have k: "map (rx_key r p) xs = map of_nat [0..<length xs]" .
  have "sorted (map of_nat [0..<length xs] :: u8 list)"
    using assms(2) by (auto simp: sorted_iff_nth_mono word_le_nat_alt unat_of_nat_u8)
  moreover have "distinct (map of_nat [0..<length xs] :: u8 list)"
    using assms(2) by (auto simp: distinct_map inj_on_def of_nat_u8_inject)
  ultimately show ?thesis using k by (metis distinct_map)
qed

lemma rx_feed_permuted:
  assumes "rx_ok r" "rx_active r" "rx_view r p = []" "available_messages r = Map.empty"
    and "map seq_of zs = seqs_from (at0 (current_port_sequence r) p) (length zs)"
    and "\<forall>x \<in> set zs. valid_data r x \<and> getPort (p_header x) = p \<and> in_window r x"
    and "unat (receiving_window r) + length zs < 128" "mset xs = mset zs"
  shows "\<exists>r'. rx_feed (map rx_frame xs) r = Inr r' \<and> rx_ok r' \<and> rx_active r' \<and>
    rx_view r' = (rx_view r)(p := zs) \<and> current_port_sequence r' = current_port_sequence r \<and>
    dom (available_messages r') \<subseteq> {p} \<and> (zs \<noteq> [] \<and> complete r' p \<longrightarrow> p \<in> dom (available_messages r'))"
proof -
  have len: "length xs = length zs" and set: "set xs = set zs"
    using assms(8) by (metis size_mset, metis set_mset_mset)
  have "sort_key (rx_key r p) (rev xs) = zs"
    using rx_keys_ascending [OF assms(5)] assms(7,8) set by (intro sort_key_inj_key_eq) auto
  then have "fold (insort_key (rx_key r p)) xs [] = zs" by (simp add: sort_key_def foldr_conv_fold)
  moreover have "zs = [] \<longleftrightarrow> xs = []" using len by auto
  ultimately show ?thesis
    using rx_feed_insert [OF assms(1,2), of p xs] assms len set by auto
qed

section \<open>Every received packet\<close>

lemma rx_window_ok:
  assumes "rx_ok r"
  shows "\<exists>r'. rx_window g r = Inr r' \<and> rx_ok r' \<and> (\<forall>p. rx_view r' p = rx_view r p \<or> rx_view r' p = [])"
proof -
  define r2 where "r2 = (let relativeGlobSeq = g - to_consume_global_seq r;
      r1 = (if relativeGlobSeq < 128 \<and> relativeGlobSeq > lastReceivedGlobalSeq r
            then r\<lparr>lastReceivedGlobalSeq := g\<rparr> else r)
     in r1\<lparr>receiving_window := receiving_window r1 + 1\<rparr>)"
  have f: "inBuffer r2 = inBuffer r" "rx_mutex_held r2 = rx_mutex_held r" by (simp_all add: r2_def Let_def)
  have eq: "rx_window g r = (if receiving_window r2 \<ge> 128
      then bind_res (flushQueues r2) (\<lambda>r3. Inr (r3\<lparr>receiving_window := 0\<rparr>)) else Inr r2)"
    by (simp add: rx_window_def r2_def Let_def)
  have ok2: "rx_ok r2" using assms f by (simp add: rx_ok_def)
  from flushQueues_ok [OF ok2] obtain b where
    b: "flushQueues r2 = Inr (r2\<lparr>inBuffer := b, to_consume_global_seq := lastReceivedGlobalSeq r2\<rparr>)" "buf_ok b"
    "buf_view b = (\<lambda>p. if stale (to_consume_global_seq r2) (rx_view r2 p) then [] else rx_view r2 p)" by blast
  have "\<forall>x \<in> set (buf_view b p). fits x" for p using assms f by (simp add: b(3) rx_ok_def)
  then show ?thesis using eq b ok2 f by (auto simp: rx_ok_def)
qed

lemma rx_synchronizeStatus_ok:
  "rx_ok r \<Longrightarrow> statusInterface r \<Longrightarrow> \<exists>r'. rx_synchronizeStatus s r = Inr ([OnSynchronization (syncId s)], r') \<and> rx_ok r' \<and>
    inBuffer r' = inBuffer r \<and> current_port_sequence r' = sync_ports (port_seq s) (current_port_sequence r) \<and>
    lastReceivedGlobalSeq r' = tx_global_seq s \<and> available_messages r' = available_messages r"
  by (simp add: rx_synchronizeStatus_def rx_locked_def rx_ok_def Let_def)

lemma rx_store_and_announce_ok:
  assumes ok: "rx_ok r" and fx: "fits x" and room: "length (rx_view r (getPort (p_header x))) < 65535"
  shows "\<exists>b1 r'. buf_write (rx_policy r) x (inBuffer r) = Inr (0, b1) \<and>
    rx_window g (rx_announce (getPort (p_header x)) (r\<lparr>inBuffer := b1\<rparr>)) = Inr r' \<and> rx_ok r'"
proof -
  let ?p = "getPort (p_header x)"
  from ok have b: "buf_ok (inBuffer r)" and h: "\<not> rx_mutex_held r" by (auto simp: rx_ok_def)
  from buf.store_law [OF b room, of "rx_policy r"] obtain b1 where
    b1: "buf_write (rx_policy r) x (inBuffer r) = Inr (0, b1)" "buf_ok b1"
    "buf_view b1 = (rx_view r)(?p := stored (rx_policy r) x (rx_view r ?p))" by blast
  have ok1: "rx_ok (r\<lparr>inBuffer := b1\<rparr>)" by (rule rx_ok_stored [OF ok fx b1(2)]) (use b1(3) h in auto)
  have "rx_ok (rx_announce ?p (r\<lparr>inBuffer := b1\<rparr>))"
    using rx_announce_ok [OF ok1, of ?p] ok1 by (auto simp: rx_ok_def)
  with rx_window_ok [OF this] b1(1) show ?thesis by blast
qed

lemma handleReceivedPacket_safe:
  assumes ok: "rx_ok r" and s: "statusInterface r" and fx: "fits x"
    and sy: "getMessageType (p_header x) = 3 \<longrightarrow> 130 \<le> length (p_payload x)"
    and room: "length (rx_view r (getPort (p_header x))) < 65535"
  shows "\<exists>rc ev r'. handleReceivedPacket x r = Inr (rc, ev, r') \<and> rx_ok r'"
proof -
  let ?p = "getPort (p_header x)"
  have h: "\<not> rx_mutex_held r" using ok by (simp add: rx_ok_def)
  obtain b1 r' where st: "buf_write (rx_policy r) x (inBuffer r) = Inr (0, b1)"
    "rx_window (getGlobalSequence (p_header x)) (rx_announce ?p (r\<lparr>inBuffer := b1\<rparr>)) = Inr r'" "rx_ok r'"
    using rx_store_and_announce_ok [OF ok fx room] by blast
  note defs = handleReceivedPacket_def rx_isActive_def isPortOpen_def rx_locked_def verify_checksum_fits [OF fx]
  consider "\<not> rx_active r \<or> h_crc (p_header x) \<noteq> crc16 (body x)"
    | "rx_active r" "h_crc (p_header x) = crc16 (body x)" "getMessageType (p_header x) = 3"
    | "rx_active r" "h_crc (p_header x) = crc16 (body x)" "getMessageType (p_header x) \<noteq> 3" by blast
  then show ?thesis
  proof cases
    case 1
    then show ?thesis using ok h by (auto simp: defs Let_def)
  next
    case 2
    then obtain q where q: "sync_of_bytes (p_payload x) = Inr q" using sy by (simp add: sync_of_bytes_def)
    with 2 rx_synchronizeStatus_ok [OF ok s, of q] h show ?thesis by (auto simp: defs Let_def)
  next
    case 3
    then show ?thesis using ok h st by (auto simp: defs Let_def)
  qed
qed

lemma sync_ports_at0:
  assumes "length ps = 128"
  shows "at0 (sync_ports ps m) k = (if k < 128 \<and> ps ! unat k \<noteq> 0 then ps ! unat k else at0 m k)"
proof -
  let ?f = "\<lambda>i m. if ps ! i \<noteq> 0 then m(of_nat i \<mapsto> ps ! i) else m"
  have "at0 (fold ?f [0..<n] m) k = (if unat k < n \<and> ps ! unat k \<noteq> 0 then ps ! unat k else at0 m k)"
    if "n \<le> 128" for n using that
  proof (induction n)
    case (Suc n)
    have "k = of_nat n \<longleftrightarrow> unat k = n" using Suc.prems by (auto simp: unat_of_nat_u8)
    then show ?case using Suc by auto
  qed simp
  from this [of 128] show ?thesis by (simp add: sync_ports_def word_less_nat_alt)
qed

section \<open>Failures of the consumer\<close>

lemma assemble_inconsistent:
  assumes "buf_ok b" "policy_accepts pa" "buf_view b p = x # xs" "fits x" "seq_of x \<noteq> at0 m p"
  shows "\<exists>b'. rx_assemble pa p \<lparr>as_buffer = b, as_sequence = m, as_data = d, as_len = l\<rparr> =
    Some (Inr (False, \<lparr>as_buffer = b', as_sequence = m, as_data = d, as_len = l\<rparr>))"
  using rx_assemble_step_ok [OF assms(1-4), of m d l] assms(5)
  by (subst rx_assemble.simps) auto

lemma assemble_empty:
  assumes "buf_ok b" "buf_view b p = []"
  shows "rx_assemble pa p \<lparr>as_buffer = b, as_sequence = m, as_data = d, as_len = l\<rparr> = Some (Inl NullDeref)"
proof -
  have "\<not> sendable pa (buf_view b p)" using assms(2) by (simp add: sendable_def)
  from buf.fetch_none [OF assms(1) this] show ?thesis
    by (subst rx_assemble.simps) (auto simp: rx_assemble_step_def)
qed

lemma rx_in_order:
  assumes "rx_ok r" "rx_active r" "rx_view r p = []" "available_messages r = Map.empty"
    and "messages_from (at0 (current_port_sequence r) p) mss"
    and "\<forall>x \<in> set (concat mss). valid_data r x \<and> getPort (p_header x) = p \<and> in_window r x"
    and "unat (receiving_window r) + length (concat mss) < 128" "mset xs = mset (concat mss)"
  shows "\<exists>r1 r2. rx_feed (map rx_frame xs) r = Inr r1 \<and>
    rx_consume (length mss) r1 = Some (Inr (map (message_of p) mss, r2)) \<and> rx_ok r2 \<and>
    rx_view r2 p = [] \<and> available_messages r2 = Map.empty \<and>
    at0 (current_port_sequence r2) p = at0 (current_port_sequence r) p + of_nat (length (concat mss))"
proof -
  from rx_feed_permuted [OF assms(1-4) messages_from_seq [OF assms(5)] assms(6-8)] obtain r1 where
    r1: "rx_feed (map rx_frame xs) r = Inr r1" "rx_ok r1" "rx_active r1" "rx_view r1 = (rx_view r)(p := concat mss)"
      "current_port_sequence r1 = current_port_sequence r" "dom (available_messages r1) \<subseteq> {p}"
      "concat mss \<noteq> [] \<and> complete r1 p \<longrightarrow> p \<in> dom (available_messages r1)" by blast
  have v: "rx_view r1 p = concat mss" by (simp add: r1(4))
  have m: "messages_from (at0 (current_port_sequence r1) p) mss" using assms(5) r1(5) by simp
  have ne: "concat mss \<noteq> []" if "mss \<noteq> []" using that assms(5) by (cases mss) auto
  have c: "complete r1 p \<longleftrightarrow> mss \<noteq> []" using complete_messages [OF m v] .
  have "dom (available_messages r1) = (if mss = [] then {} else {p})"
  proof (cases "mss = []")
    case True
    then have "xs = []" using assms(8) by simp
    with r1(1) assms(4) True show ?thesis by simp
  qed (use ne c r1(6,7) in auto)
  from rx_consume_messages [OF r1(2,3) m v this] r1(1,5) show ?thesis by auto
qed

lemma handle_sync_packet:
  assumes "rx_ok r" "rx_active r" "statusInterface r"
    and "pkt_wf x" "p_payload x = sync_bytes s" "sync_wf s"
    and "getMessageType (p_header x) = 3" "h_crc (p_header x) = crc16 (p_payload x)"
  shows "\<exists>r'. handleReceivedPacket x r = Inr (0, [OnSynchronization (syncId s)], r') \<and> rx_ok r' \<and>
    rx_view r' = rx_view r \<and> available_messages r' = available_messages r \<and> lastReceivedGlobalSeq r' = tx_global_seq s \<and>
    (\<forall>p. at0 (current_port_sequence r') p =
      (if p < 128 \<and> port_seq s ! unat p \<noteq> 0 then port_seq s ! unat p else at0 (current_port_sequence r) p))"
proof -
  have x: "fits x" "body x = p_payload x" using assms(4) by (simp_all add: fits_def body_def pkt_wf_def)
  have s: "sync_of_bytes (p_payload x) = Inr s" using sync_roundtrip [OF assms(6), of "[]"] assms(5) by simp
  from rx_synchronizeStatus_ok [OF assms(1,3), of s] obtain r' where
    r': "rx_synchronizeStatus s r = Inr ([OnSynchronization (syncId s)], r')" "rx_ok r'" "inBuffer r' = inBuffer r"
    "current_port_sequence r' = sync_ports (port_seq s) (current_port_sequence r)"
    "lastReceivedGlobalSeq r' = tx_global_seq s" "available_messages r' = available_messages r" by blast
  have "handleReceivedPacket x r = Inr (0, [OnSynchronization (syncId s)], r')"
    using assms(1,2,7,8) x s r'(1) verify_checksum_fits [OF x(1)]
    by (simp add: handleReceivedPacket_def rx_isActive_def rx_locked_def Let_def rx_ok_def)
  moreover have "at0 (current_port_sequence r') p =
      (if p < 128 \<and> port_seq s ! unat p \<noteq> 0 then port_seq s ! unat p else at0 (current_port_sequence r) p)" for p
    using sync_ports_at0 [of "port_seq s"] assms(6) by (simp add: r'(4) sync_wf_def)
  ultimately show ?thesis using r' by auto
qed

section \<open>A concrete reception\<close>

text \<open>An active module with port 5 open, and a message of two fragments for it.\<close>

definition example_rx :: RxModule where
  "example_rx = (rx_new True)\<lparr>open_ports := [5 \<mapsto> 1], statusInterface := True\<rparr>"

definition example_fragment :: "u8 \<Rightarrow> u8 \<Rightarrow> bool \<Rightarrow> u8 list \<Rightarrow> S3TP_PACKET" where
  "example_fragment s i m bs = \<lparr>p_header = setFragmentBit m (setPort 5 (setSubSequence i
      (setPduLength (of_nat (length bs)) \<lparr>h_crc = crc16 bs, h_seq = 0, h_pdu_length = 0,
         h_seq_port = s, h_port = 0\<rparr>))), p_payload = bs, p_channel = 3, p_options = 0\<rparr>"

abbreviation example_fragments :: "u8 \<Rightarrow> S3TP_PACKET list" where
  "example_fragments s \<equiv> [example_fragment s 0 True [1, 2], example_fragment (s + 1) 1 False [3]]"

lemma example_rx_ok: "rx_ok example_rx" "rx_active example_rx" "rx_view example_rx p = []"
    "available_messages example_rx = Map.empty" "at0 (current_port_sequence example_rx) p = 0"
    "receiving_window example_rx = 0" "statusInterface example_rx" "to_consume_global_seq example_rx = 0"
    "open_ports example_rx 5 = Some 1"
  by (simp_all add: example_rx_def rx_new_def rx_ok_def)

lemma example_fragment_fields:
  "getPort (p_header (example_fragment s i m bs)) = 5"
  "getSubSequence (p_header (example_fragment s i m bs)) = i"
  "moreFragments (p_header (example_fragment s i m bs)) = 0 \<longleftrightarrow> \<not> m"
  "seq_of (example_fragment s i m bs) = s" "h_crc (p_header (example_fragment s i m bs)) = crc16 bs"
  "p_payload (example_fragment s i m bs) = bs"
  using hport.a.get_set [of 5] by (simp_all add: example_fragment_def hseq.b.get_set)

lemma example_fragment_wire:
  "length bs < 0x4000 \<Longrightarrow> getPduLength (p_header (example_fragment s i m bs)) = of_nat (length bs)"
  "length bs < 0x4000 \<Longrightarrow> getMessageType (p_header (example_fragment s i m bs)) = 0"
  "getGlobalSequence (p_header (example_fragment s i m bs)) = 0"
proof -
  have lt: "(of_nat (length bs) :: u16) < 0x4000" if "length bs < 0x4000"
    using that by (simp add: word_less_nat_alt unat_of_nat_u16)
  show "length bs < 0x4000 \<Longrightarrow> getPduLength (p_header (example_fragment s i m bs)) = of_nat (length bs)"
    using getPduLength_setPduLength [OF lt] by (simp add: example_fragment_def)
  show "length bs < 0x4000 \<Longrightarrow> getMessageType (p_header (example_fragment s i m bs)) = 0"
  proof -
    assume "length bs < 0x4000"
    moreover have "getMessageType \<lparr>h_crc = crc16 bs, h_seq = 0, h_pdu_length = 0, h_seq_port = s, h_port = 0\<rparr> = 0"
      by (simp add: getMessageType_def)
    ultimately show ?thesis using getMessageType_setPduLength [OF lt] by (simp add: example_fragment_def)
  qed
  show "getGlobalSequence (p_header (example_fragment s i m bs)) = 0"
    by (simp add: example_fragment_def hseq.geta_setb) (simp add: getGlobalSequence_def)
qed

lemma example_fragment_ok:
  assumes "length bs < 0x4000"
  shows "fits (example_fragment s i m bs)" "body (example_fragment s i m bs) = bs"
    "in_window example_rx (example_fragment s i m bs)" "valid_data example_rx (example_fragment s i m bs)"
proof -
  have n: "unat (of_nat (length bs) :: u16) = length bs" using assms by (simp add: unat_of_nat_u16)
  show f: "fits (example_fragment s i m bs)" and b: "body (example_fragment s i m bs) = bs"
    using assms n by (simp_all add: fits_def body_def example_fragment_wire example_fragment_fields)
  show "in_window example_rx (example_fragment s i m bs)"
    by (simp add: in_window_def example_rx_ok example_fragment_wire)
  show "valid_data example_rx (example_fragment s i m bs)"
    using assms f b by (simp add: valid_data_def example_fragment_wire example_fragment_fields example_rx_ok)
qed

lemma example_fragments_ok:
  "whole_message (example_fragments s)" "numbered s (example_fragments s)"
  "concat (map body (example_fragments s)) = [1, 2, 3]"
  by (simp_all add: example_fragment_fields example_fragment_ok numbered_def seqs_from_Suc less_Suc_eq)

section \<open>Properties\<close>



text \<open>When the consumer is told of a port whose queue starts with a complete message, it returns the
  payload of the fragments up to the first one without the more-fragments bit, concatenated in order,
  advances the expected sequence number by their number, and keeps the invariant; the walk that
  decides completeness is thus sufficient for the assembly to succeed.\<close>

theorem complete_message_is_consumed:
  assumes "rx_ok r" "rx_active r" "map_begin (available_messages r) = Some p" "complete r p"
  shows "\<exists>ms rest r'. rx_view r p = ms @ rest \<and> whole_message ms \<and>
    map seq_of ms = seqs_from (at0 (current_port_sequence r) p) (length ms) \<and>
    getNextCompleteMessage r = Some (Inr (message_of p ms, r')) \<and> rx_ok r' \<and> rx_view r' p = rest \<and>
    at0 (current_port_sequence r') p = at0 (current_port_sequence r) p + of_nat (length ms) \<and>
    (p \<in> dom (available_messages r') \<longleftrightarrow> complete r' p)"
proof -
  from complete_loop_message [of "at0 (current_port_sequence r) p" 0 "rx_view r p"] assms(4) obtain ms rest where
    m: "rx_view r p = ms @ rest" "whole_message ms"
    "map seq_of ms = seqs_from (at0 (current_port_sequence r) p) (length ms)"
    by (auto simp: complete_def)
  from getNextCompleteMessage_ok [OF assms(1-3) m] obtain r' where
    "getNextCompleteMessage r = Some (Inr (message_of p ms, r'))" "rx_ok r'"
    "rx_view r' = (rx_view r)(p := rest)"
    "at0 (current_port_sequence r') p = at0 (current_port_sequence r) p + of_nat (length ms)"
    "available_messages r' = (if complete r' p then (available_messages r)(p \<mapsto> 1) else (available_messages r)(p := None))"
    unfolding message_of_def by auto
  with m show ?thesis by (intro exI [of _ ms] exI [of _ rest] exI [of _ r']) simp
qed

lemma example_received:
  "\<exists>r1. rx_ok r1 \<and> rx_active r1 \<and> map_begin (available_messages r1) = Some 5 \<and> complete r1 5 \<and>
    rx_view r1 5 = example_fragments 0 \<and> current_port_sequence r1 = current_port_sequence example_rx"
proof -
  have f: "map seq_of (example_fragments 0) =
      seqs_from (at0 (current_port_sequence example_rx) 5) (length (example_fragments 0))"
    using example_fragments_ok(2) [of 0] unfolding numbered_def example_rx_ok(5) by blast
  have v: "\<forall>x \<in> set (example_fragments 0). valid_data example_rx x \<and> getPort (p_header x) = 5 \<and> in_window example_rx x"
    by (simp add: example_fragment_fields example_fragment_ok)
  have w: "unat (receiving_window example_rx) + length (example_fragments 0) < 128" by (simp add: example_rx_ok)
  from rx_feed_permuted [OF example_rx_ok(1,2) example_rx_ok(3) [of 5] example_rx_ok(4) f v w refl] obtain r1 where
    r1: "rx_ok r1" "rx_active r1" "rx_view r1 = (rx_view example_rx)(5 := example_fragments 0)"
      "current_port_sequence r1 = current_port_sequence example_rx" "dom (available_messages r1) \<subseteq> {5}"
      "example_fragments 0 \<noteq> [] \<and> complete r1 5 \<longrightarrow> 5 \<in> dom (available_messages r1)" by blast
  have "complete r1 5"
    using complete_messages [of r1 5 "[example_fragments 0]"] r1(3,4) example_fragments_ok [of 0]
    by (simp add: example_rx_ok)
  moreover from this r1(5,6) have "dom (available_messages r1) = {5}" by auto
  then have "map_begin (available_messages r1) = Some 5" by (rule map_begin_single)
  ultimately show ?thesis using r1(1-4) by (intro exI [of _ r1]) simp
qed

theorem complete_message_is_consumed_witness:
  "\<exists>r ms r'. rx_view r 5 = example_fragments 0 \<and> whole_message ms \<and>
    getNextCompleteMessage r = Some (Inr (message_of 5 ms, r')) \<and> rx_ok r'"
proof -
  from example_received obtain r1 where
    r1: "rx_ok r1" "rx_active r1" "map_begin (available_messages r1) = Some 5" "complete r1 5"
    and v: "rx_view r1 5 = example_fragments 0" by blast
  from complete_message_is_consumed [OF r1] v show ?thesis by blast
qed

text \<open>C29. A message whose fragments are numbered as the sender numbers them is recognised as complete exactly
  when its sequence numbers do not wrap around: the walk adds the fragment counter to the expected
  sequence number in a wider type, so a message that crosses from 255 to 0 is never delivered.\<close>

theorem completeness_iff_no_wraparound:
  assumes "whole_message ms" "numbered (at0 (current_port_sequence r) p) ms" "length ms \<le> 256"
    and "buf_ok (inBuffer r)" "rx_view r p = ms @ rest"
  shows "fst (isCompleteMessageForPortAvailable p r) \<longleftrightarrow> unat (at0 (current_port_sequence r) p) + length ms \<le> 256"
proof -
  from isComplete_eq [OF assms(4), of p] have "fst (isCompleteMessageForPortAvailable p r) = complete r p" by auto
  then show ?thesis using complete_numbered [OF assms(1-3), of rest] assms(5) by (simp add: complete_def)
qed

theorem completeness_iff_no_wraparound_witness:
  "\<exists>r1. rx_view r1 5 = example_fragments 255 \<and> at0 (current_port_sequence r1) 5 = 255 \<and>
    \<not> fst (isCompleteMessageForPortAvailable 5 r1)"
proof -
  let ?r = "example_rx\<lparr>current_port_sequence := [5 \<mapsto> 255]\<rparr>"
  have f: "map seq_of (example_fragments 255) = seqs_from 255 (length (example_fragments 255))"
    using example_fragments_ok(2) [of 255] by (simp add: numbered_def)
  have r: "rx_ok ?r" "rx_active ?r" "rx_view ?r 5 = []" "available_messages ?r = Map.empty"
    "at0 (current_port_sequence ?r) 5 = 255" "receiving_window ?r = 0"
    using example_rx_ok by (simp_all add: rx_ok_def)
  have v: "\<forall>x \<in> set (example_fragments 255). valid_data ?r x \<and> getPort (p_header x) = 5 \<and> in_window ?r x"
    using example_fragment_ok by (simp add: valid_data_def in_window_def example_fragment_fields example_rx_ok)
  from rx_feed_permuted [OF r(1-4) _ v, of "example_fragments 255"] f r(5,6) obtain r1 where
    r1: "rx_ok r1" "rx_view r1 5 = example_fragments 255" "current_port_sequence r1 = current_port_sequence ?r"
    by auto
  from completeness_iff_no_wraparound [of "example_fragments 255" r1 5 "[]"] r1 example_fragments_ok [of 255]
  show ?thesis by (intro exI [of _ r1]) (simp add: rx_ok_def)
qed



text \<open>C27. The refusals of the reception module, in the order of its checks: an inactive module, a wrong
  checksum, an unknown type and a closed port yield their codes and change nothing.\<close>

theorem reception_refusals:
  assumes "rx_ok r" "fits x"
    and "\<not> rx_active r \<or> h_crc (p_header x) \<noteq> crc16 (body x) \<or> getMessageType (p_header x) \<in> {1, 2} \<or>
      getMessageType (p_header x) = 0 \<and> open_ports r (getPort (p_header x)) = None"
  shows "handleReceivedPacket x r =
    Inr (if \<not> rx_active r then -2 else if h_crc (p_header x) \<noteq> crc16 (body x) then -3
         else if getMessageType (p_header x) \<noteq> 0 then -10 else -5, [], r)"
  using assms
  by (auto simp: handleReceivedPacket_def rx_isActive_def isPortOpen_def rx_locked_def Let_def rx_ok_def verify_checksum_fits)

theorem reception_refusals_witness:
  "handleReceivedPacket (example_fragment 0 0 False [7]) (rx_new True) = Inr (-5, [], rx_new True)"
proof -
  have "open_ports (rx_new True) = Map.empty" "rx_active (rx_new True)" by (simp_all add: rx_new_def)
  then show ?thesis
    using reception_refusals [OF rx_new_ok [of True], of "example_fragment 0 0 False [7]"]
    by (simp add: example_fragment_ok example_fragment_wire example_fragment_fields)
qed

text \<open>A synchronization packet makes every port whose announced sequence number is not zero expect that
  number next, leaves the other ports alone, takes over the global sequence number and reports the
  identifier; the queues are kept.\<close>

lemma synchronization_takes_over_sequences:
  assumes "rx_ok r" "rx_active r" "statusInterface r"
    and "pkt_wf x" "p_payload x = sync_bytes s" "sync_wf s"
    and "getMessageType (p_header x) = 3" "h_crc (p_header x) = crc16 (p_payload x)"
  shows "\<exists>r'. handleReceivedPacket x r = Inr (0, [OnSynchronization (syncId s)], r') \<and> rx_ok r' \<and>
    rx_view r' = rx_view r \<and> lastReceivedGlobalSeq r' = tx_global_seq s \<and>
    (\<forall>p. at0 (current_port_sequence r') p =
      (if p < 128 \<and> port_seq s ! unat p \<noteq> 0 then port_seq s ! unat p else at0 (current_port_sequence r) p))"
  using handle_sync_packet [OF assms] by blast

text \<open>C17. Consuming a message always returns: the assembly loop ends because every pass takes a packet from
  the queue of the port, with a message, an error code or a fault.\<close>

theorem consumer_terminates:
  assumes "rx_ok r"
  shows "\<exists>res. getNextCompleteMessage r = Some res"
proof (cases "map_begin (available_messages r)")
  case (Some p)
  have "policy_accepts (rx_policy r)" by (simp add: rx_policy_def rx_isElementValid_def)
  then obtain res where "rx_assemble (rx_policy r) p \<lparr>as_buffer = inBuffer r,
      as_sequence = current_port_sequence r, as_data = [], as_len = 0\<rparr> = Some res"
    using rx_assemble_total [of "inBuffer r" "rx_policy r" p] assms unfolding rx_ok_def by blast
  with Some show ?thesis by (auto simp: getNextCompleteMessage_def Let_def split: sum.splits)
qed (auto simp: getNextCompleteMessage_def)

theorem consumer_terminates_witness: "\<exists>res. getNextCompleteMessage example_rx = Some res"
  by (rule consumer_terminates) (rule example_rx_ok)

text \<open>C31. A port that is still announced while its queue no longer starts with the expected packet makes the
  consumer fail: with an empty queue it dereferences the null pointer, otherwise it reports an
  inconsistent state without releasing the mutex, after which every further call waits forever.\<close>

theorem stale_announcement_breaks_consumer:
  assumes "rx_ok r" "rx_active r" "map_begin (available_messages r) = Some p"
    and "rx_view r p = [] \<or> seq_of (hd (rx_view r p)) \<noteq> at0 (current_port_sequence r) p"
  shows "if rx_view r p = [] then getNextCompleteMessage r = Some (Inl NullDeref)
    else \<exists>m r'. getNextCompleteMessage r = Some (Inr (m, r')) \<and> msg_error m = -6 \<and> msg_data m = None \<and>
      getNextCompleteMessage r' = Some (Inl SelfDeadlock) \<and>
      (\<forall>x. handleReceivedPacket x r' = Inl SelfDeadlock) \<and> openPort p r' = Inl SelfDeadlock"
proof (cases "rx_view r p")
  case Nil
  then show ?thesis using assms assemble_empty [of "inBuffer r" p]
    by (simp add: getNextCompleteMessage_def rx_ok_def)
next
  case (Cons x xs)
  have "policy_accepts (rx_policy r)" by (simp add: rx_policy_def rx_isElementValid_def)
  moreover have "x \<in> set (rx_view r p)" using Cons by simp
  then have "fits x" using assms(1) unfolding rx_ok_def by blast
  ultimately obtain b where "rx_assemble (rx_policy r) p \<lparr>as_buffer = inBuffer r,
      as_sequence = current_port_sequence r, as_data = [], as_len = 0\<rparr> =
    Some (Inr (False, \<lparr>as_buffer = b, as_sequence = current_port_sequence r, as_data = [], as_len = 0\<rparr>))"
    using assemble_inconsistent [of "inBuffer r" "rx_policy r" p x xs "current_port_sequence r" "[]" 0]
      assms(1,4) Cons by (auto simp: rx_ok_def)
  then show ?thesis using assms(1-3) Cons
    by (simp add: getNextCompleteMessage_def rx_ok_def Let_def handleReceivedPacket_def rx_isActive_def
        rx_locked_def openPort_def)
qed

theorem stale_announcement_breaks_consumer_witness:
  "getNextCompleteMessage (example_rx\<lparr>available_messages := [5 \<mapsto> 1]\<rparr>) = Some (Inl NullDeref)"
proof -
  let ?r = "example_rx\<lparr>available_messages := [5 \<mapsto> 1]\<rparr>"
  have "map_begin (available_messages ?r) = Some 5" by (rule map_begin_single) simp
  moreover have "rx_ok ?r" using example_rx_ok(1) by (simp add: rx_ok_def)
  ultimately show ?thesis
    using stale_announcement_breaks_consumer [of ?r 5] by (simp add: example_rx_ok)
qed

end
