(* ===== verification/Client_Session.thy ===== *)
theory Client_Session
  imports Shared_Codec
begin

text \<open>
  The server side of an application connection, \<^verbatim>\<open>core/Client.cpp\<close>. The socket is the environment:
  what \<^verbatim>\<open>read\<close> and \<^verbatim>\<open>write\<close> return are arguments, and every operation lists what it did with
  the socket and which calls of the client interface it made. The interface itself is a parameter of
  the thread loop.
\<close>

section \<open>State\<close>

record Client =
  connected :: bool
  app_port :: u8
  virtual_channel :: u8
  options :: u8
  client_if :: bool

datatype SocketOp =
    WriteType u8
  | WriteLength "u64 list"
  | WriteData "u8 list option" nat
  | WriteControl S3TP_CONTROL
  | Shutdown
  | CloseSocket

datatype ListenerCall = OnConnected | OnDisconnected

type_synonym 'a client_step = "'a \<times> SocketOp list \<times> ListenerCall list \<times> Client"

section \<open>Operations\<close>

definition client_new :: "S3TP_CONFIG \<Rightarrow> Client \<times> ListenerCall list" where
  "client_new config =
     (\<lparr>connected = True, app_port = cfg_port config, virtual_channel = cfg_channel config,
       options = cfg_options config, client_if = True\<rparr>, [OnConnected])"

definition isConnected :: "Client \<Rightarrow> bool" where "isConnected c = connected c"

definition getAppPort :: "Client \<Rightarrow> u8" where "getAppPort c = app_port c"

definition getVirtualChannel :: "Client \<Rightarrow> u8" where "getVirtualChannel c = virtual_channel c"

definition getOptions :: "Client \<Rightarrow> u8" where "getOptions c = options c"

definition closeConnection :: "Client \<Rightarrow> unit client_step" where
  "closeConnection c =
     ((), if connected c then [Shutdown, CloseSocket] else [],
      if client_if c then [OnDisconnected] else [], c\<lparr>connected := False\<rparr>)"

definition handleConnectionClosed :: "Client \<Rightarrow> unit client_step" where
  "handleConnectionClosed c =
     ((), if connected c then [CloseSocket] else [],
      if client_if c then [OnDisconnected] else [], c\<lparr>connected := False\<rparr>)"

definition client_kill :: "Client \<Rightarrow> unit client_step" where
  "client_kill c = (if \<not> isConnected c then ((), [], [], c) else closeConnection c)"

text \<open>Ending an operation after the writes \<open>ops\<close>, with the connection closed in one of the two ways.\<close>

definition fail_closed :: "SocketOp list \<Rightarrow> int \<Rightarrow> Client \<Rightarrow> int client_step" where
  "fail_closed ops rc c = (case handleConnectionClosed c of (_, ops', calls, c') \<Rightarrow> (rc, ops @ ops', calls, c'))"

definition fail_error :: "SocketOp list \<Rightarrow> int \<Rightarrow> Client \<Rightarrow> int client_step" where
  "fail_error ops rc c = (case closeConnection c of (_, ops', calls, c') \<Rightarrow> (rc, ops @ ops', calls, c'))"

text \<open>
  Sending a message; \<open>w1\<close>, \<open>w2\<close> and \<open>w3\<close> are the results of the three writes. A null pointer as data is
  \<open>None\<close>.
\<close>

definition client_send :: "int \<Rightarrow> int \<Rightarrow> int \<Rightarrow> u8 list option \<Rightarrow> nat \<Rightarrow> Client \<Rightarrow> int client_step" where
  "client_send w1 w2 w3 data len c =
     (let ops1 = [WriteType APP_DATA_MESSAGE] in
      if w1 = CODE_ERROR_SOCKET_NO_CONN then fail_closed ops1 CODE_ERROR_SOCKET_NO_CONN c
      else if w1 < 0 then fail_error ops1 CODE_ERROR_SOCKET_WRITE c
      else
        let (error, copies) = write_length_safe w2 (of_nat len);
            ops2 = ops1 @ [WriteLength copies]
        in if error = CODE_ERROR_SOCKET_NO_CONN then fail_closed ops2 error c
           else if error = CODE_ERROR_SOCKET_WRITE then fail_error ops2 error c
           else
             let ops3 = ops2 @ [WriteData data len] in
             if w3 = 0 then fail_closed ops3 CODE_ERROR_SOCKET_NO_CONN c
             else if w3 < 0 then fail_error ops3 CODE_ERROR_SOCKET_WRITE c
             else (CODE_SUCCESS, ops3, [], c))"

definition sendControlMessage :: "int \<Rightarrow> int \<Rightarrow> S3TP_CONTROL \<Rightarrow> Client \<Rightarrow> int client_step" where
  "sendControlMessage w1 w2 message c =
     (let ops1 = [WriteType APP_CONTROL_MESSAGE] in
      if w1 = CODE_ERROR_SOCKET_NO_CONN then fail_closed ops1 CODE_ERROR_SOCKET_NO_CONN c
      else if w1 < 0 then fail_error ops1 CODE_ERROR_SOCKET_WRITE c
      else
        let ops2 = ops1 @ [WriteControl message] in
        if w2 = 0 then fail_closed ops2 CODE_ERROR_SOCKET_NO_CONN c
        else if w2 < 0 then fail_error ops2 CODE_ERROR_SOCKET_WRITE c
        else (CODE_SUCCESS, ops2, [], c))"

section \<open>The client thread\<close>

text \<open>
  What the reads of one pass return. The payload arrives in pieces; an empty piece is the end of the
  stream.
\<close>

datatype ReadResult = ReadError | ReadBytes "u8 list"

record ClientInput =
  in_type_rd :: int
  in_len_rd :: int
  in_len :: "u64 list"
  in_reads :: "ReadResult list"
  in_w1 :: int
  in_w2 :: int

text \<open>The loop that reads the payload: \<open>None\<close> while it waits for more input.\<close>

fun read_payload :: "nat \<Rightarrow> u8 list \<Rightarrow> ReadResult list \<Rightarrow> u8 list option option" where
  "read_payload len got [] = None"
| "read_payload len got (ReadError # rs) = Some None"
| "read_payload len got (ReadBytes bs # rs) =
     (if bs = [] then Some None
      else if length (got @ bs) < len then read_payload len (got @ bs) rs
      else Some (Some (got @ bs)))"

text \<open>What a pass of the thread leads to.\<close>

datatype PassEnd = Blocked | Stopped | Continues

text \<open>
  One pass. \<open>app\<close> is \<^verbatim>\<open>onApplicationMessage\<close> of the interface: it gets the allocated buffer (the
  message with a zero byte behind it) and its length, acts on the listener's state and returns a code.
\<close>

definition client_iteration ::
  "(u8 list \<Rightarrow> nat \<Rightarrow> 's \<Rightarrow> (int \<times> 's) result) \<Rightarrow> ClientInput \<Rightarrow> Client \<Rightarrow> 's \<Rightarrow>
    (PassEnd \<times> SocketOp list \<times> ListenerCall list \<times> Client \<times> 's) result" where
  "client_iteration app inp c s =
     (if \<not> isConnected c then Inr (Stopped, [], [], c, s)
      else if in_type_rd inp \<le> 0 then
        (case handleConnectionClosed c of (_, ops, calls, c') \<Rightarrow> Inr (Stopped, ops, calls, c', s))
      else
        let (error, len) = read_length_safe (in_len_rd inp) (in_len inp) 0 in
        if error = CODE_ERROR_SOCKET_NO_CONN then
          (case handleConnectionClosed c of (_, ops, calls, c') \<Rightarrow> Inr (Stopped, ops, calls, c', s))
        else if error < 0 then
          (case closeConnection c of (_, ops, calls, c') \<Rightarrow> Inr (Stopped, ops, calls, c', s))
        else
          (case read_payload (unat len) [] (in_reads inp) of
             None \<Rightarrow> Inr (Blocked, [], [], c, s)
           | Some None \<Rightarrow>
               (case closeConnection c of (_, ops, calls, c') \<Rightarrow> Inr (Stopped, ops, calls, c', s))
           | Some (Some message) \<Rightarrow>
               if \<not> client_if c then
                 (case closeConnection c of (_, ops, calls, c') \<Rightarrow> Inr (Stopped, ops, calls, c', s))
               else
                 bind_res (app (message @ [0]) (unat len) s) (\<lambda>(res, s').
                 let control = (if res \<noteq> CODE_SUCCESS
                       then \<lparr>controlMessageType = NACK, control_error = word_of_int res\<rparr>
                       else \<lparr>controlMessageType = ACK, control_error = 0\<rparr>)
                 in (case sendControlMessage (in_w1 inp) (in_w2 inp) control c of
                       (_, ops, calls, c') \<Rightarrow> Inr (Continues, ops, calls, c', s')))))"

section \<open>Lemmas\<close>

lemmas client_closing = closeConnection_def handleConnectionClosed_def fail_closed_def fail_error_def

lemma write_length_code: "fst (write_length_safe w len) \<noteq> -5" "snd (write_length_safe w len) = [len, len, len]"
  by (simp_all add: write_length_safe_def redundant_length_def upt_rec)

text \<open>The payload loop returns the bytes in order once enough have arrived.\<close>

lemma read_payload_pieces:
  assumes "\<forall>bs \<in> set bss. bs \<noteq> []" "bss \<noteq> []" "length got + length (concat (butlast bss)) < len"
    and "len \<le> length got + length (concat bss)"
  shows "read_payload len got (map ReadBytes bss @ rs) = Some (Some (got @ concat bss))"
  using assms
proof (induction bss arbitrary: got)
  case (Cons bs bss)
  show ?case
  proof (cases "bss = []")
    case True
    with Cons.prems show ?thesis by simp
  next
    case False
    have "read_payload len (got @ bs) (map ReadBytes bss @ rs) = Some (Some ((got @ bs) @ concat bss))"
      by (rule Cons.IH) (use Cons.prems False in simp_all)
    moreover have "length (got @ bs) < len" using Cons.prems(3) False by simp
    ultimately show ?thesis using Cons.prems(1) by simp
  qed
qed simp

text \<open>A pass of the client thread forwards a message exactly: when the reads deliver a type, the length
  three times and then the payload in any non-empty pieces, the interface is called once with the
  payload (and the terminating zero byte behind it), and the application gets an acknowledgement when
  the call succeeds and a refusal with the code otherwise.\<close>

lemma client_pass_forwards:
  assumes "connected c" "client_if c" "0 < in_type_rd inp" "0 < in_len_rd inp" "0 \<le> in_w1 inp" "0 < in_w2 inp"
    and "in_len inp = redundant_length (of_nat (length msg))" "length msg < 2 ^ 64"
    and "in_reads inp = map ReadBytes bss" "concat bss = msg" "\<forall>bs \<in> set bss. bs \<noteq> []" "bss \<noteq> []"
    and "app (msg @ [0]) (length msg) s = Inr (res, s')"
  shows "client_iteration app inp c s = Inr (Continues,
    [WriteType 0xFF, WriteControl (if res = 0 then \<lparr>controlMessageType = ACK, control_error = 0\<rparr>
       else \<lparr>controlMessageType = NACK, control_error = word_of_int res\<rparr>)], [], c, s')"
proof -
  have n: "unat (of_nat (length msg) :: u64) = length msg"
    using assms(8) by (simp add: unat_of_nat take_bit_nat_eq_self)
  have len: "read_length_safe (in_len_rd inp) (in_len inp) 0 = (0, of_nat (length msg))"
    using read_length_safe_3 [OF assms(4)] by (simp add: assms(7) redundant_length_def upt_rec)
  have "length (concat (butlast bss)) < length (concat bss)"
    using assms(11,12) by (metis append_butlast_last_id concat_append concat.simps last_in_set length_append
        length_greater_0_conv less_add_same_cancel1 append_Nil2)
  then have "read_payload (length msg) [] (in_reads inp) = Some (Some msg)"
    using read_payload_pieces [of bss "[]" "length msg" "[]"] assms(9-12) by simp
  then show ?thesis
    using assms(1-3,5,6,13) n
    by (simp add: client_iteration_def isConnected_def len Let_def sendControlMessage_def)
qed

section \<open>The listener of a client\<close>

text \<open>
  What the client thread and the connector behind it rely on: a listener that is \<open>ready\<close> for a message
  of some length accepts it, and \<open>took\<close> says what the accepted message did to the listener's state.
\<close>

locale client_listener =
  fixes app :: "u8 list \<Rightarrow> nat \<Rightarrow> 's \<Rightarrow> (int \<times> 's) result"
    and ready :: "nat \<Rightarrow> 's \<Rightarrow> bool"
    and took :: "u8 list \<Rightarrow> 's \<Rightarrow> 's \<Rightarrow> bool"
  assumes accepts: "ready (length msg) s \<Longrightarrow> \<exists>s'. app (msg @ [0]) (length msg) s = Inr (0, s') \<and> took msg s s'"
begin

lemma pass_acknowledges:
  assumes "connected c" "client_if c" "0 < in_type_rd inp" "0 < in_len_rd inp" "0 \<le> in_w1 inp" "0 < in_w2 inp"
    and "in_len inp = redundant_length (of_nat (length msg))" "length msg < 2 ^ 64"
    and "in_reads inp = map ReadBytes bss" "concat bss = msg" "\<forall>bs \<in> set bss. bs \<noteq> []" "bss \<noteq> []"
    and "ready (length msg) s"
  shows "\<exists>s'. took msg s s' \<and> client_iteration app inp c s = Inr (Continues,
    [WriteType 0xFF, WriteControl \<lparr>controlMessageType = ACK, control_error = 0\<rparr>], [], c, s')"
proof -
  from accepts [OF assms(13)] obtain s' where s': "app (msg @ [0]) (length msg) s = Inr (0, s')" "took msg s s'" by blast
  from client_pass_forwards [OF assms(1-12), of app s 0 s'] s' show ?thesis by auto
qed

end

text \<open>A connected client.\<close>

abbreviation example_client :: Client where
  "example_client \<equiv> \<lparr>connected = True, app_port = 5, virtual_channel = 3, options = 0, client_if = True\<rparr>"

section \<open>Properties\<close>

text \<open>Sending a message to the application: when every write succeeds the socket gets the data type, the
  length three times and the data, and the connection stays; otherwise a negative code is returned,
  the client is disconnected, and the listener is told exactly once.\<close>

theorem client_send_outcome:
  assumes "connected c" "client_if c"
  shows "case client_send w1 w2 w3 data len c of (rc, ops, calls, c') \<Rightarrow>
    if 0 \<le> w1 \<and> 0 < w2 \<and> 0 < w3
    then rc = 0 \<and> calls = [] \<and> c' = c \<and>
      ops = [WriteType 0, WriteLength [of_nat len, of_nat len, of_nat len], WriteData data len]
    else rc < 0 \<and> calls = [OnDisconnected] \<and> c' = c\<lparr>connected := False\<rparr> \<and> last ops = CloseSocket \<and>
      count_list ops CloseSocket = 1"
  using assms
  by (auto simp: client_send_def client_closing Let_def write_length_safe_def redundant_length_def upt_rec)

theorem client_send_outcome_witness:
  "\<exists>ops. client_send 1 24 (-1) (Some [5]) 1 (fst (client_new \<lparr>cfg_port = 5, cfg_channel = 3, cfg_options = 0\<rparr>)) =
    (-6, ops, [OnDisconnected], (fst (client_new \<lparr>cfg_port = 5, cfg_channel = 3, cfg_options = 0\<rparr>))\<lparr>connected := False\<rparr>)"
  using client_send_outcome [of "fst (client_new \<lparr>cfg_port = 5, cfg_channel = 3, cfg_options = 0\<rparr>)" 1 24 "-1" 1 "Some [5]"]
  by (simp add: client_new_def client_send_def client_closing Let_def write_length_safe_def)

end
