(* ===== verification/Connector.thy ===== *)
theory Connector
  imports Client_Session
begin

text \<open>
  The library an application links, \<^verbatim>\<open>connector/S3tpConnector.cpp\<close>: connecting to the daemon, the
  blocking \<^verbatim>\<open>send\<close>, the two synchronous ways to receive, and the listener thread that reads
  control and data messages. What the socket calls return are arguments; the calls made on the socket,
  the wake-ups of the sender and the callbacks into the application are listed in order. The lemmas at
  the end run the connector against the client thread of the daemon.
\<close>

section \<open>State\<close>

record S3tpConnector =
  cn_connected :: bool
  lastMessageAck :: bool
  s3tpBufferFull :: bool
  cn_config :: S3TP_CONFIG
  cn_callback :: bool

datatype ConnectorOp =
    CreateSocket
  | Connect
  | WriteConfig S3TP_CONFIG
  | Sock SocketOp
  | NotifyAll
  | StartListener
  | OnNewMessage "u8 list" nat

type_synonym 'a connector_step = "'a \<times> ConnectorOp list \<times> S3tpConnector"

text \<open>The conversion of a \<^verbatim>\<open>ssize_t\<close> to the \<^verbatim>\<open>int\<close> that is returned.\<close>

definition to_int32 :: "int \<Rightarrow> int" where
  "to_int32 i = sint (word_of_int i :: u32)"

section \<open>Connecting\<close>

text \<open>\<open>cfg\<close> is the uninitialised configuration and \<open>cb\<close> the uninitialised callback pointer.\<close>

definition cn_new :: "S3TP_CONFIG \<Rightarrow> bool \<Rightarrow> S3tpConnector" where
  "cn_new cfg cb = \<lparr>cn_connected = False, lastMessageAck = False, s3tpBufferFull = False,
     cn_config = cfg, cn_callback = cb\<rparr>"

definition cn_closeConnection :: "S3tpConnector \<Rightarrow> unit connector_step" where
  "cn_closeConnection c =
     ((), (if cn_connected c then [Sock Shutdown, Sock CloseSocket] else []) @ [NotifyAll],
      c\<lparr>cn_connected := False\<rparr>)"

text \<open>Closing and returning, after the operations \<open>ops\<close>.\<close>

definition cn_abort :: "ConnectorOp list \<Rightarrow> 'a \<Rightarrow> S3tpConnector \<Rightarrow> 'a connector_step" where
  "cn_abort ops rc c = (case cn_closeConnection c of (_, ops', c') \<Rightarrow> (rc, ops @ ops', c'))"

record InitInput =
  in_socket :: int
  in_connect :: int
  in_wr :: int
  in_rd :: int
  in_commCode :: int

definition cn_init :: "InitInput \<Rightarrow> S3TP_CONFIG \<Rightarrow> bool \<Rightarrow> S3tpConnector \<Rightarrow> int connector_step" where
  "cn_init inp cfg cb c0 =
     (let c = c0\<lparr>cn_config := cfg, cn_callback := cb\<rparr> in
      if in_socket inp = -1 then (CODE_ERROR_SOCKET_CREATE, [CreateSocket], c)
      else if in_connect inp = -1 then (CODE_ERROR_SOCKET_CONNECT, [CreateSocket, Connect], c)
      else
        let c = c\<lparr>cn_connected := True\<rparr>; ops = [CreateSocket, Connect, WriteConfig cfg] in
        if in_wr inp = 0 then (CODE_ERROR_SOCKET_NO_CONN, ops, c\<lparr>cn_connected := False\<rparr>)
        else if in_wr inp < 0 then cn_abort ops CODE_ERROR_SOCKET_CONFIG c
        else if in_rd inp = 0 then (CODE_ERROR_SOCKET_NO_CONN, ops, c\<lparr>cn_connected := False\<rparr>)
        else if in_rd inp < 0 then cn_abort ops CODE_ERROR_SOCKET_CONFIG c
        else if in_commCode inp = CODE_SERVER_PORT_BUSY then cn_abort ops CODE_SERVER_PORT_BUSY c
        else (CODE_SUCCESS, ops @ (if cb then [StartListener] else []), c))"

section \<open>Sending\<close>

text \<open>
  The sender blocks twice on \<^verbatim>\<open>status_cond\<close>, so a call is a small machine: waiting for the answer,
  waiting for room after a refusal, returned. The number is what the last \<^verbatim>\<open>write\<close> returned.
\<close>

datatype SendPhase = WaitingAnswer int | WaitingRoom int | Returned int

definition send_attempt :: "int \<Rightarrow> int \<Rightarrow> int \<Rightarrow> u8 list \<Rightarrow> nat \<Rightarrow> SendPhase \<times> ConnectorOp list" where
  "send_attempt w1 w2 w3 data len =
     (let ops1 = [Sock (WriteType APP_DATA_MESSAGE)] in
      if w1 \<le> 0 then (Returned CODE_ERROR_SOCKET_WRITE, ops1)
      else
        let (error, copies) = write_length_safe w2 (of_nat len);
            ops2 = ops1 @ [Sock (WriteLength copies)]
        in if error = CODE_ERROR_SOCKET_WRITE then (Returned error, ops2)
           else
             let ops3 = ops2 @ [Sock (WriteData (Some data) len)] in
             if w3 \<le> 0 then (Returned CODE_ERROR_SOCKET_WRITE, ops3) else (WaitingAnswer w3, ops3))"

definition cn_send_start ::
  "int \<Rightarrow> int \<Rightarrow> int \<Rightarrow> u8 list \<Rightarrow> nat \<Rightarrow> S3tpConnector \<Rightarrow> SendPhase \<times> ConnectorOp list" where
  "cn_send_start w1 w2 w3 data len c =
     (if \<not> cn_connected c then (Returned CODE_ERROR_SOCKET_NO_CONN, []) else send_attempt w1 w2 w3 data len)"

text \<open>
  What the sender does when it is woken: after the first wait it looks at the flags, after the second
  one it tries again while the connection lasts.
\<close>

definition cn_send_wake ::
  "int \<Rightarrow> int \<Rightarrow> int \<Rightarrow> u8 list \<Rightarrow> nat \<Rightarrow> S3tpConnector \<Rightarrow> SendPhase \<Rightarrow> SendPhase \<times> ConnectorOp list" where
  "cn_send_wake w1 w2 w3 data len c ph =
     (case ph of
        WaitingAnswer wr \<Rightarrow>
          if \<not> cn_connected c then (Returned CODE_ERROR_SOCKET_NO_CONN, [])
          else if lastMessageAck c \<and> \<not> s3tpBufferFull c then (Returned (to_int32 wr), [])
          else (WaitingRoom wr, [])
      | WaitingRoom wr \<Rightarrow>
          if cn_connected c then send_attempt w1 w2 w3 data len else (Returned (to_int32 wr), [])
      | Returned rc \<Rightarrow> (Returned rc, []))"

section \<open>Receiving\<close>

text \<open>The read loop that the three receiving routines share; \<open>None\<close> while it waits for more bytes.\<close>

datatype ReadEnd = EndOfFile | ReadFailed | ReadDone "u8 list"

fun cn_read_loop :: "nat \<Rightarrow> u8 list \<Rightarrow> ReadResult list \<Rightarrow> ReadEnd option" where
  "cn_read_loop len got [] = None"
| "cn_read_loop len got (ReadError # rs) = Some ReadFailed"
| "cn_read_loop len got (ReadBytes bs # rs) =
     (if bs = [] then Some EndOfFile
      else if length (got @ bs) < len then cn_read_loop len (got @ bs) rs
      else Some (ReadDone (got @ bs)))"

text \<open>
  Receiving into a buffer of \<open>len\<close> bytes. The result is the code and the bytes stored in the buffer.
\<close>

definition cn_recv ::
  "int \<Rightarrow> u64 list \<Rightarrow> ReadResult list \<Rightarrow> nat \<Rightarrow> S3tpConnector \<Rightarrow> (int \<times> u8 list) connector_step option" where
  "cn_recv rd copies reads len c =
     (if \<not> cn_connected c then Some ((CODE_ERROR_SOCKET_NO_CONN, []), [], c)
      else
        let (error, msg_len) = read_length_safe rd copies 0 in
        if error = CODE_ERROR_SOCKET_NO_CONN then Some ((error, []), [], c\<lparr>cn_connected := False\<rparr>)
        else if error < 0 then Some (cn_abort [] (error, []) c)
        else if unat msg_len > len then Some (cn_abort [] (CODE_ERROR_INVALID_LENGTH, []) c)
        else
          let len = MIN_macro len (unat msg_len) in
          (case cn_read_loop len [] reads of
             None \<Rightarrow> None
           | Some EndOfFile \<Rightarrow> Some ((CODE_ERROR_SOCKET_NO_CONN, []), [], c\<lparr>cn_connected := False\<rparr>)
           | Some ReadFailed \<Rightarrow> Some (cn_abort [] (CODE_ERROR_SOCKET_READ, []) c)
           | Some (ReadDone buf) \<Rightarrow> Some ((to_int32 (int (length buf)), buf), [], c)))"

text \<open>
  Receiving into a new buffer: the result is the pointer (\<open>None\<close> for null), \<^verbatim>\<open>*len\<close> and \<^verbatim>\<open>*error\<close>. The
  capacity is what the caller left in \<^verbatim>\<open>*len\<close>.
\<close>

definition cn_recvRaw ::
  "int \<Rightarrow> u64 list \<Rightarrow> ReadResult list \<Rightarrow> nat \<Rightarrow> S3tpConnector \<Rightarrow>
    (u8 list option \<times> nat \<times> int) connector_step option" where
  "cn_recvRaw rd copies reads len c =
     (if \<not> cn_connected c then Some ((None, 0, CODE_ERROR_SOCKET_NO_CONN), [], c)
      else
        let (error, msg_len) = read_length_safe rd copies 0 in
        if error = CODE_ERROR_SOCKET_NO_CONN then Some ((None, 0, error), [], c\<lparr>cn_connected := False\<rparr>)
        else if error < 0 then Some (cn_abort [] (None, 0, error) c)
        else
          (case cn_read_loop len [] reads of
             None \<Rightarrow> None
           | Some EndOfFile \<Rightarrow> Some ((None, 0, CODE_ERROR_SOCKET_NO_CONN), [], c\<lparr>cn_connected := False\<rparr>)
           | Some ReadFailed \<Rightarrow> Some (cn_abort [] (None, len, CODE_ERROR_SOCKET_READ) c)
           | Some (ReadDone msg) \<Rightarrow> Some ((Some msg, len, error), [], c)))"

section \<open>Listener thread\<close>

text \<open>\<open>byte\<close> is the type byte of the control structure that was read.\<close>

definition receiveControlMessage :: "int \<Rightarrow> u8 \<Rightarrow> S3tpConnector \<Rightarrow> bool connector_step" where
  "receiveControlMessage rd byte c =
     (if rd = 0 then (False, [], c\<lparr>cn_connected := False\<rparr>)
      else if rd < 0 then cn_abort [] False c
      else (True, [NotifyAll],
        (case safeMessageTypeInterpretation byte of
           ACK \<Rightarrow> c\<lparr>lastMessageAck := True\<rparr>
         | NACK \<Rightarrow> c\<lparr>lastMessageAck := False, s3tpBufferFull := True\<rparr>
         | AVAILABLE \<Rightarrow> c\<lparr>s3tpBufferFull := False\<rparr>
         | RESERVED \<Rightarrow> c)))"

text \<open>\<open>None\<close> while the payload is incomplete.\<close>

definition receiveDataMessage ::
  "int \<Rightarrow> u64 list \<Rightarrow> ReadResult list \<Rightarrow> S3tpConnector \<Rightarrow> bool connector_step option" where
  "receiveDataMessage rd copies reads c =
     (let (err, len) = read_length_safe rd copies 0 in
      if err = CODE_ERROR_LENGTH_CORRUPT then Some (cn_abort [] False c)
      else if err = CODE_ERROR_SOCKET_NO_CONN then Some (False, [], c\<lparr>cn_connected := False\<rparr>)
      else if err < 0 then Some (cn_abort [] False c)
      else
        (case cn_read_loop (unat len) [] reads of
           None \<Rightarrow> None
         | Some EndOfFile \<Rightarrow> Some (False, [], c\<lparr>cn_connected := False\<rparr>)
         | Some ReadFailed \<Rightarrow> Some (cn_abort [] False c)
         | Some (ReadDone message) \<Rightarrow> Some (True, [OnNewMessage (message @ [0]) (unat len)], c)))"

record ListenerInput =
  li_type_rd :: int
  li_type :: u8
  li_ctrl_rd :: int
  li_ctrl :: u8
  li_len_rd :: int
  li_len :: "u64 list"
  li_reads :: "ReadResult list"

definition listener_result :: "bool connector_step \<Rightarrow> PassEnd connector_step" where
  "listener_result st = (case st of (ok, ops, c) \<Rightarrow> (if ok then Continues else Stopped, ops, c))"

definition asyncListener_pass :: "ListenerInput \<Rightarrow> S3tpConnector \<Rightarrow> PassEnd connector_step" where
  "asyncListener_pass inp c =
     (if \<not> cn_connected c then (Stopped, [], c)
      else if li_type_rd inp = 0 then cn_abort [] Stopped c
      else if li_type_rd inp < 0 then cn_abort [] Stopped c
      else
        let type = control_byte (safeMessageTypeInterpretation (li_type inp)) in
        if type = APP_CONTROL_MESSAGE then
          listener_result (receiveControlMessage (li_ctrl_rd inp) (li_ctrl inp) c)
        else if type = APP_DATA_MESSAGE then
          (case receiveDataMessage (li_len_rd inp) (li_len inp) (li_reads inp) c of
             None \<Rightarrow> (Blocked, [], c)
           | Some st \<Rightarrow> listener_result st)
        else (Continues, [], c))"

text \<open>The listener thread over a sequence of inputs, until a pass ends it.\<close>

primrec asyncListener :: "ListenerInput list \<Rightarrow> S3tpConnector \<Rightarrow> ConnectorOp list \<times> S3tpConnector" where
  "asyncListener [] c = ([], c)"
| "asyncListener (inp # inps) c =
     (case asyncListener_pass inp c of (e, ops, c') \<Rightarrow>
        if e = Continues then (case asyncListener inps c' of (ops', c'') \<Rightarrow> (ops @ ops', c'')) else (ops, c'))"

definition cn_isConnected :: "S3tpConnector \<Rightarrow> bool" where
  "cn_isConnected c = cn_connected c"

text \<open>The destructor closes the connection and waits for the listener, whose next pass sees it.\<close>

definition cn_delete :: "S3tpConnector \<Rightarrow> unit connector_step" where
  "cn_delete c = cn_closeConnection c"

lemma listener_ends_after_delete: "cn_delete c = (u, ops, c') \<Longrightarrow> asyncListener_pass inp c' = (Stopped, [], c')"
  by (auto simp: cn_delete_def cn_closeConnection_def asyncListener_pass_def)

section \<open>Both ends of the socket\<close>

text \<open>
  What a reader sees of the writes of the other side: the fields in order, the payload in non-empty
  pieces.
\<close>

definition in_pieces :: "u8 list list \<Rightarrow> u8 list \<Rightarrow> bool" where
  "in_pieces bss msg \<longleftrightarrow> concat bss = msg \<and> bss \<noteq> [] \<and> (\<forall>bs \<in> set bss. bs \<noteq> [])"

fun daemon_reads :: "ConnectorOp list \<Rightarrow> u8 list list \<Rightarrow> ClientInput \<Rightarrow> bool" where
  "daemon_reads [Sock (WriteType t), Sock (WriteLength copies), Sock (WriteData (Some data) len)] bss inp \<longleftrightarrow>
     0 < in_type_rd inp \<and> 0 < in_len_rd inp \<and> in_len inp = copies \<and>
     in_reads inp = map ReadBytes bss \<and> in_pieces bss (take len data)"
| "daemon_reads _ bss inp \<longleftrightarrow> False"

fun listener_reads :: "SocketOp list \<Rightarrow> u8 list list \<Rightarrow> ListenerInput \<Rightarrow> bool" where
  "listener_reads [WriteType t, WriteControl m] bss inp \<longleftrightarrow>
     0 < li_type_rd inp \<and> li_type inp = t \<and> 0 < li_ctrl_rd inp \<and> li_ctrl inp = control_byte (controlMessageType m)"
| "listener_reads [WriteType t, WriteLength copies, WriteData (Some data) len] bss inp \<longleftrightarrow>
     0 < li_type_rd inp \<and> li_type inp = t \<and> 0 < li_len_rd inp \<and> li_len inp = copies \<and>
     li_reads inp = map ReadBytes bss \<and> in_pieces bss (take len data)"
| "listener_reads _ bss inp \<longleftrightarrow> False"

lemma safe_bytes [simp]:
  "safeMessageTypeInterpretation 0 = ACK" "safeMessageTypeInterpretation 0x0F = NACK"
  "safeMessageTypeInterpretation 0xF0 = AVAILABLE" "safeMessageTypeInterpretation 0xFF = RESERVED"
  by code_simp+

lemma safe_control_byte [simp]: "safeMessageTypeInterpretation (control_byte t) = t"
  by (cases t) simp_all

lemma butlast_shorter:
  assumes "in_pieces bss msg"
  shows "length (concat (butlast bss)) < length msg"
  using assms unfolding in_pieces_def
  by (metis append_butlast_last_id concat_append concat.simps last_in_set length_append
      length_greater_0_conv less_add_same_cancel1 append_Nil2)

lemma cn_read_loop_pieces:
  assumes "\<forall>bs \<in> set bss. bs \<noteq> []" "bss \<noteq> []" "length got + length (concat (butlast bss)) < len"
    and "len \<le> length got + length (concat bss)"
  shows "cn_read_loop len got (map ReadBytes bss @ rs) = Some (ReadDone (got @ concat bss))"
  using assms
proof (induction bss arbitrary: got)
  case (Cons bs bss)
  show ?case
  proof (cases "bss = []")
    case False
    have "cn_read_loop len (got @ bs) (map ReadBytes bss @ rs) = Some (ReadDone ((got @ bs) @ concat bss))"
      by (rule Cons.IH) (use Cons.prems False in simp_all)
    moreover have "length (got @ bs) < len" using Cons.prems(3) False by simp
    ultimately show ?thesis using Cons.prems(1) by simp
  qed (use Cons.prems in simp)
qed simp

lemma cn_read_loop_message:
  assumes "in_pieces bss msg"
  shows "cn_read_loop (length msg) [] (map ReadBytes bss) = Some (ReadDone msg)"
  using cn_read_loop_pieces [of bss "[]" "length msg" "[]"] butlast_shorter [OF assms] assms
  by (simp add: in_pieces_def)

text \<open>While fewer bytes arrived than were asked for, the loop waits.\<close>

lemma cn_read_loop_waits:
  assumes "\<forall>bs \<in> set bss. bs \<noteq> []" "length got + length (concat bss) < len"
  shows "cn_read_loop len got (map ReadBytes bss) = None"
  using assms by (induction bss arbitrary: got) auto

lemma unat_length_u64: "length msg < 2 ^ 64 \<Longrightarrow> unat (of_nat (length msg) :: u64) = length msg"
  by (simp add: unat_of_nat take_bit_nat_eq_self)

lemma redundant_length_eq: "redundant_length n = [n, n, n]"
  by (simp add: redundant_length_def upt_rec)

lemma read_length_redundant: "0 < rd \<Longrightarrow> read_length_safe rd [n, n, n] x = (0, n)"
  by (simp add: read_length_safe_3)

lemma send_attempt_ok:
  "0 < w1 \<Longrightarrow> 0 < w2 \<Longrightarrow> 0 < w3 \<Longrightarrow> send_attempt w1 w2 w3 data len =
    (WaitingAnswer w3, [Sock (WriteType 0), Sock (WriteLength [of_nat len, of_nat len, of_nat len]),
      Sock (WriteData (Some data) len)])"
  by (simp add: send_attempt_def write_length_safe_def redundant_length_eq Let_def)

text \<open>The listener reads a control message of the daemon.\<close>

lemma listener_control:
  assumes "cn_connected c" "listener_reads [WriteType 0xFF, WriteControl m] bss inp"
  shows "asyncListener_pass inp c = (Continues, [NotifyAll],
    (case controlMessageType m of ACK \<Rightarrow> c\<lparr>lastMessageAck := True\<rparr>
      | NACK \<Rightarrow> c\<lparr>lastMessageAck := False, s3tpBufferFull := True\<rparr>
      | AVAILABLE \<Rightarrow> c\<lparr>s3tpBufferFull := False\<rparr> | RESERVED \<Rightarrow> c))"
  using assms by (simp add: asyncListener_pass_def Let_def receiveControlMessage_def listener_result_def)

text \<open>
  A call of \<^verbatim>\<open>send\<close> while control messages of the daemon arrive one after the other, the sender being
  woken after each of them.
\<close>

primrec cn_session ::
  "int \<Rightarrow> int \<Rightarrow> int \<Rightarrow> u8 list \<Rightarrow> AppControlMessageType list \<Rightarrow> S3tpConnector \<Rightarrow> SendPhase \<Rightarrow>
    SendPhase \<times> ConnectorOp list \<times> S3tpConnector" where
  "cn_session w1 w2 w3 msg [] c ph = (ph, [], c)"
| "cn_session w1 w2 w3 msg (m # ms) c ph =
     (case receiveControlMessage 2 (control_byte m) c of (_, _, c') \<Rightarrow>
      case cn_send_wake w1 w2 w3 msg (length msg) c' ph of (ph', ops) \<Rightarrow>
      case cn_session w1 w2 w3 msg ms c' ph' of (ph'', ops', c'') \<Rightarrow> (ph'', ops @ ops', c''))"

lemmas session_simps = receiveControlMessage_def cn_send_wake_def send_attempt_ok

lemma session_refusals:
  assumes "0 < w1" "0 < w2" "0 < w3" "cn_connected c"
  shows "\<exists>c'. cn_session w1 w2 w3 msg (concat (replicate k [NACK, AVAILABLE]) @ ms) c (WaitingAnswer w3) =
    (case cn_session w1 w2 w3 msg ms c' (WaitingAnswer w3) of (ph, ops, c'') \<Rightarrow>
      (ph, concat (replicate k (snd (send_attempt w1 w2 w3 msg (length msg)))) @ ops, c'')) \<and>
    cn_connected c' \<and> (s3tpBufferFull c' \<longrightarrow> s3tpBufferFull c)"
  using assms(4)
proof (induction k arbitrary: c)
  case 0
  then show ?case by (intro exI [of _ c]) (simp split: prod.splits)
next
  case (Suc k)
  let ?c = "c\<lparr>lastMessageAck := False, s3tpBufferFull := False\<rparr>"
  from Suc have "cn_connected ?c" by simp
  from Suc.IH [OF this] obtain c' where c':
    "cn_session w1 w2 w3 msg (concat (replicate k [NACK, AVAILABLE]) @ ms) ?c (WaitingAnswer w3) =
      (case cn_session w1 w2 w3 msg ms c' (WaitingAnswer w3) of (ph, ops, c'') \<Rightarrow>
        (ph, concat (replicate k (snd (send_attempt w1 w2 w3 msg (length msg)))) @ ops, c''))"
    "cn_connected c'" "\<not> s3tpBufferFull c'" by auto
  show ?case
    by (rule exI [of _ c'])
       (use Suc.prems assms(1-3) c' in \<open>simp add: session_simps split: prod.splits\<close>)
qed

text \<open>With a listener that is ready, a call of \<^verbatim>\<open>send\<close> returns the number of bytes and the message was taken.\<close>

context client_listener
begin

lemma connector_send_taken:
  assumes "cn_connected c" "\<not> s3tpBufferFull c" "connected cl" "client_if cl" "0 < w1" "0 < w2" "0 < w3"
    and "length msg < 2 ^ 64" "ready (length msg) s"
    and "daemon_reads (snd (cn_send_start w1 w2 w3 msg (length msg) c)) bss inp" "0 \<le> in_w1 inp" "0 < in_w2 inp"
  shows "\<exists>s' ops. took msg s s' \<and> client_iteration app inp cl s = Inr (Continues, ops, [], cl, s') \<and>
    (\<forall>linp. listener_reads ops [] linp \<longrightarrow>
      (\<exists>c'. asyncListener_pass linp c = (Continues, [NotifyAll], c') \<and>
        fst (cn_send_wake w1 w2 w3 msg (length msg) c' (WaitingAnswer w3)) = Returned (to_int32 w3)))"
proof -
  have "snd (cn_send_start w1 w2 w3 msg (length msg) c) = [Sock (WriteType 0),
      Sock (WriteLength (redundant_length (of_nat (length msg)))), Sock (WriteData (Some msg) (length msg))]"
    using assms(1,5-7) by (simp add: cn_send_start_def send_attempt_ok redundant_length_eq)
  then have "\<exists>s'. took msg s s' \<and> client_iteration app inp cl s = Inr (Continues,
      [WriteType 0xFF, WriteControl \<lparr>controlMessageType = ACK, control_error = 0\<rparr>], [], cl, s')"
    using assms(3,4,8-12) by (intro pass_acknowledges [where bss = bss]) (simp_all add: in_pieces_def)
  moreover have "\<exists>c'. asyncListener_pass linp c = (Continues, [NotifyAll], c') \<and>
      fst (cn_send_wake w1 w2 w3 msg (length msg) c' (WaitingAnswer w3)) = Returned (to_int32 w3)"
    if "listener_reads [WriteType 0xFF, WriteControl \<lparr>controlMessageType = ACK, control_error = 0\<rparr>] [] linp" for linp
    using listener_control [OF assms(1) that] assms(1,2) by (simp add: cn_send_wake_def)
  ultimately show ?thesis by blast
qed

end

section \<open>Properties\<close>

text \<open>C11. A message sent with the connector reaches the daemon's client thread and is answered: whatever the
  pieces in which the socket delivers it, the listener of the client gets exactly the message, and
  the answer that comes back ends the call with the number of bytes written when the message was
  accepted, and leaves it waiting for room when it was refused.\<close>

theorem connector_send_round_trip:
  assumes "cn_connected c" "\<not> s3tpBufferFull c" "connected cl" "client_if cl" "0 < w1" "0 < w2" "0 < w3"
    and "length msg < 2 ^ 64" "app (msg @ [0]) (length msg) s = Inr (res, s')"
    and "daemon_reads (snd (cn_send_start w1 w2 w3 msg (length msg) c)) bss inp" "0 \<le> in_w1 inp" "0 < in_w2 inp"
  shows "\<exists>ops. fst (cn_send_start w1 w2 w3 msg (length msg) c) = WaitingAnswer w3 \<and>
    client_iteration app inp cl s = Inr (Continues, ops, [], cl, s') \<and>
    (\<forall>linp. listener_reads ops [] linp \<longrightarrow>
      (\<exists>c'. asyncListener_pass linp c = (Continues, [NotifyAll], c') \<and>
        fst (cn_send_wake w1 w2 w3 msg (length msg) c' (WaitingAnswer w3)) =
          (if res = 0 then Returned (to_int32 w3) else WaitingRoom w3)))"
proof -
  let ?ctrl = "if res = 0 then \<lparr>controlMessageType = ACK, control_error = 0\<rparr>
       else \<lparr>controlMessageType = NACK, control_error = word_of_int res\<rparr>"
  have start: "cn_send_start w1 w2 w3 msg (length msg) c = (WaitingAnswer w3,
      [Sock (WriteType 0), Sock (WriteLength (redundant_length (of_nat (length msg)))), Sock (WriteData (Some msg) (length msg))])"
    using assms(1,5-7) by (simp add: cn_send_start_def send_attempt_ok redundant_length_eq)
  have it: "client_iteration app inp cl s = Inr (Continues, [WriteType 0xFF, WriteControl ?ctrl], [], cl, s')"
    by (rule client_pass_forwards [where bss = bss and msg = msg])
       (use assms(3,4,8-12) start in \<open>simp_all add: in_pieces_def\<close>)
  have "\<exists>c'. asyncListener_pass linp c = (Continues, [NotifyAll], c') \<and>
      fst (cn_send_wake w1 w2 w3 msg (length msg) c' (WaitingAnswer w3)) =
        (if res = 0 then Returned (to_int32 w3) else WaitingRoom w3)"
    if "listener_reads [WriteType 0xFF, WriteControl ?ctrl] [] linp" for linp
    using listener_control [OF assms(1) that] assms(1,2) by (simp add: cn_send_wake_def)
  with start it show ?thesis by simp
qed

text \<open>The connector of a connected application.\<close>

definition example_connector :: S3tpConnector where
  "example_connector = (cn_new \<lparr>cfg_port = 5, cfg_channel = 3, cfg_options = 0\<rparr> True)\<lparr>cn_connected := True\<rparr>"

lemma example_connector_simps [simp]: "cn_connected example_connector" "\<not> s3tpBufferFull example_connector"
  by (simp_all add: example_connector_def cn_new_def)

theorem connector_send_round_trip_witness:
  "\<exists>ops. client_iteration (\<lambda>buf len s. Inr (0, s @ [take len buf]))
     \<lparr>in_type_rd = 1, in_len_rd = 24, in_len = [3, 3, 3], in_reads = [ReadBytes [1, 2], ReadBytes [3]], in_w1 = 1, in_w2 = 2\<rparr>
     example_client [] = Inr (Continues, ops, [], example_client, [[1, 2, 3]]) \<and>
   (\<forall>linp. listener_reads ops [] linp \<longrightarrow>
      (\<exists>c'. asyncListener_pass linp example_connector = (Continues, [NotifyAll], c') \<and>
        fst (cn_send_wake 1 24 3 [1, 2, 3] (length [1, 2, 3 :: u8]) c' (WaitingAnswer 3)) = Returned (to_int32 3)))"
  using connector_send_round_trip [of example_connector example_client 1 24 3 "[1, 2, 3]"
      "\<lambda>buf len s. Inr (0, s @ [take len buf])" "[]" 0 "[[1, 2, 3]]" "[[1, 2], [3]]"
      "\<lparr>in_type_rd = 1, in_len_rd = 24, in_len = [3, 3, 3], in_reads = [ReadBytes [1, 2], ReadBytes [3]], in_w1 = 1, in_w2 = 2\<rparr>"]
  by (simp add: cn_send_start_def send_attempt_ok in_pieces_def)

text \<open>C23. Refusals are retried: after any number of refusals, each followed by the notice that there is room
  again, an acknowledgement ends the call with the number of bytes written, and the message was
  written again, unchanged, once per refusal.\<close>

theorem send_retries_until_acknowledged:
  assumes "0 < w1" "0 < w2" "0 < w3" "cn_connected c" "\<not> s3tpBufferFull c"
  shows "\<exists>c'. cn_session w1 w2 w3 msg (concat (replicate k [NACK, AVAILABLE]) @ [ACK]) c
      (fst (cn_send_start w1 w2 w3 msg (length msg) c)) =
    (Returned (to_int32 w3),
     concat (replicate k [Sock (WriteType 0),
       Sock (WriteLength [of_nat (length msg), of_nat (length msg), of_nat (length msg)]),
       Sock (WriteData (Some msg) (length msg))]), c')"
proof -
  from session_refusals [OF assms(1-4), of msg k "[ACK]"] assms(5) obtain c' where
    "cn_session w1 w2 w3 msg (concat (replicate k [NACK, AVAILABLE]) @ [ACK]) c (WaitingAnswer w3) =
      (case cn_session w1 w2 w3 msg [ACK] c' (WaitingAnswer w3) of (ph, ops, c'') \<Rightarrow>
        (ph, concat (replicate k (snd (send_attempt w1 w2 w3 msg (length msg)))) @ ops, c''))"
    "cn_connected c'" "\<not> s3tpBufferFull c'" by blast
  then show ?thesis
    using assms(1-4) by (simp add: cn_send_start_def session_simps)
qed

theorem send_retries_until_acknowledged_witness:
  "\<exists>c'. cn_session 1 24 2 [8, 9] [NACK, AVAILABLE, ACK] example_connector
      (fst (cn_send_start 1 24 2 [8, 9] (length [8, 9 :: u8]) example_connector)) =
    (Returned (to_int32 2), [Sock (WriteType 0), Sock (WriteLength [2, 2, 2]), Sock (WriteData (Some [8, 9]) (length [8, 9 :: u8]))], c')"
  using send_retries_until_acknowledged [of 1 24 2 example_connector "[8, 9]" 1] by simp

text \<open>Once a message was acknowledged, a later call of \<^verbatim>\<open>send\<close> returns success without any answer to its own
  message, when a notice of available room arrives first: the flag of the last acknowledgement is
  never taken back.\<close>

theorem stale_acknowledgement_ends_send:
  assumes "0 < w1" "0 < w2" "0 < w3" "cn_connected c" "lastMessageAck c"
  shows "cn_session w1 w2 w3 msg [AVAILABLE] c (fst (cn_send_start w1 w2 w3 msg (length msg) c)) =
    (Returned (to_int32 w3), [], c\<lparr>s3tpBufferFull := False\<rparr>)"
  using assms by (simp add: cn_send_start_def session_simps)

theorem stale_acknowledgement_ends_send_witness:
  "cn_session 1 24 2 [8, 9] [AVAILABLE] (example_connector\<lparr>lastMessageAck := True\<rparr>)
      (fst (cn_send_start 1 24 2 [8, 9] (length [8, 9 :: u8]) (example_connector\<lparr>lastMessageAck := True\<rparr>))) =
    (Returned (to_int32 2), [], example_connector\<lparr>lastMessageAck := True, s3tpBufferFull := False\<rparr>)"
  using stale_acknowledgement_ends_send [of 1 24 2 "example_connector\<lparr>lastMessageAck := True\<rparr>" "[8, 9]"] by simp

text \<open>What the listener thread makes of the writes of a successful send.\<close>

lemma client_send_received:
  assumes "cn_connected c" "0 \<le> w1" "0 < w2" "0 < w3" "length msg < 2 ^ 64"
    and "listener_reads (fst (snd (client_send w1 w2 w3 (Some msg) (length msg) cl))) bss inp"
  shows "asyncListener_pass inp c = (Continues, [OnNewMessage (msg @ [0]) (length msg)], c)"
proof -
  have "fst (snd (client_send w1 w2 w3 (Some msg) (length msg) cl)) =
    [WriteType 0, WriteLength [of_nat (length msg), of_nat (length msg), of_nat (length msg)], WriteData (Some msg) (length msg)]"
    using assms(2-4) by (simp add: client_send_def Let_def write_length_safe_def redundant_length_eq)
  with assms(1,5,6) show ?thesis
    using cn_read_loop_message [of bss msg]
    by (simp add: asyncListener_pass_def Let_def receiveDataMessage_def listener_result_def
        read_length_redundant unat_length_u64)
qed

text \<open>What the daemon sends to a client reaches the application: the listener thread calls back exactly
  once, with the message and its length, whatever the pieces in which it arrives.\<close>

theorem client_send_reaches_application:
  assumes "cn_connected c" "0 \<le> w1" "0 < w2" "0 < w3" "length msg < 2 ^ 64"
    and "listener_reads (fst (snd (client_send w1 w2 w3 (Some msg) (length msg) cl))) bss inp"
  shows "asyncListener_pass inp c = (Continues, [OnNewMessage (msg @ [0]) (length msg)], c)"
  using assms by (rule client_send_received)

theorem client_send_reaches_application_witness:
  "asyncListener_pass \<lparr>li_type_rd = 1, li_type = 0, li_ctrl_rd = 0, li_ctrl = 0, li_len_rd = 24, li_len = [3, 3, 3],
     li_reads = [ReadBytes [1], ReadBytes [2, 3]]\<rparr> example_connector =
   (Continues, [OnNewMessage [1, 2, 3, 0] 3], example_connector)"
  using client_send_reaches_application [of example_connector 1 24 3 "[1, 2, 3]" example_client "[[1], [2, 3]]"
    "\<lparr>li_type_rd = 1, li_type = 0, li_ctrl_rd = 0, li_ctrl = 0, li_len_rd = 24, li_len = [3, 3, 3],
     li_reads = [ReadBytes [1], ReadBytes [2, 3]]\<rparr>"]
  by (simp add: client_send_def Let_def write_length_safe_def redundant_length_eq in_pieces_def)

text \<open>The synchronous \<^verbatim>\<open>recv\<close> returns a message only into a buffer of exactly its length: a smaller one
  closes the connection, and with a larger one the call keeps waiting for more bytes after the whole
  message has arrived, since the macro that should limit the length to the message takes the
  maximum.\<close>

theorem recv_needs_exact_buffer:
  assumes "cn_connected c" "0 < rd" "length msg < 2 ^ 64" "in_pieces bss msg"
  shows "cn_recv rd (redundant_length (of_nat (length msg))) (map ReadBytes bss) len c =
    (if len < length msg then Some (cn_abort [] (-9, []) c)
     else if len = length msg then Some ((to_int32 (int len), msg), [], c)
     else None)"
proof -
  have "cn_read_loop len [] (map ReadBytes bss) = None" if "length msg < len"
    using cn_read_loop_waits [of bss "[]" len] that assms(4) by (simp add: in_pieces_def)
  then show ?thesis
    using assms(1-3) cn_read_loop_message [OF assms(4)]
    by (auto simp: cn_recv_def redundant_length_eq read_length_redundant unat_length_u64 MIN_macro_is_max max_def)
qed

theorem recv_needs_exact_buffer_witness:
  "cn_recv 24 (redundant_length 3) [ReadBytes [1, 2], ReadBytes [3]] 8 example_connector = None \<and>
   cn_recv 24 (redundant_length 3) [ReadBytes [1, 2], ReadBytes [3]] 3 example_connector =
     Some ((to_int32 3, [1, 2, 3]), [], example_connector)"
  using recv_needs_exact_buffer [of example_connector 24 "[1, 2, 3]" "[[1, 2], [3]]" 8]
    recv_needs_exact_buffer [of example_connector 24 "[1, 2, 3]" "[[1, 2], [3]]" 3]
  by (simp add: in_pieces_def)

end
