(* ===== verification/S3tp_Main.thy ===== *)
theory S3tp_Main
  imports Tx_Module Rx_Module Connector "HOL-Library.Sublist"
begin

text \<open>
  The protocol object, \<^verbatim>\<open>core/S3TP.cpp\<close>: it owns the transmission and the reception module and the map
  of connected clients, fragments outgoing messages, hands incoming messages to the clients and
  reacts to the callbacks of both sides. What the socket writes return is an argument. The mutex
  \<^verbatim>\<open>clients_mutex\<close> is not recursive: an operation that holds it and reaches
  \<^verbatim>\<open>onDisconnected\<close>, which takes it again, waits forever (\<open>SelfDeadlock\<close>).
\<close>

section \<open>State\<close>

abbreviation (input) CODE_ERROR_MAX_MESSAGE_SIZE :: int where "CODE_ERROR_MAX_MESSAGE_SIZE \<equiv> -2"
abbreviation (input) CODE_INTERNAL_ERROR :: int where "CODE_INTERNAL_ERROR \<equiv> -3"
abbreviation (input) CODE_QUEUE_FULL :: int where "CODE_QUEUE_FULL \<equiv> -4"
abbreviation (input) CODE_LINK_UNAVAIABLE :: int where "CODE_LINK_UNAVAIABLE \<equiv> -5"
abbreviation (input) CODE_CHANNEL_BROKEN :: int where "CODE_CHANNEL_BROKEN \<equiv> -6"
abbreviation (input) LEN_S3TP_PDU :: nat where "LEN_S3TP_PDU \<equiv> 992"
abbreviation (input) MAX_PDU_LENGTH :: nat where "MAX_PDU_LENGTH \<equiv> 126976"

text \<open>An entry of the client map is absent, the null pointer or a client.\<close>

record S3TP =
  s_active :: bool
  s_tx :: TxModule
  s_rx :: RxModule
  clients :: "u8 \<rightharpoonup> Client option"
  disconnectedClients :: "u8 list"
  transceiver_started :: bool

section \<open>Life cycle\<close>

definition s3tp_reset :: "S3TP \<Rightarrow> S3TP result" where
  "s3tp_reset s = bind_res (rx_reset (s_rx s)) (\<lambda>rx. Inr (s\<lparr>s_rx := rx, s_tx := tx_reset (s_tx s)\<rparr>))"

text \<open>\<open>g\<close>, \<open>si\<close>, \<open>a\<close> and \<open>a'\<close> are the uninitialised packet memory, status interface and flags.\<close>

definition s3tp_new :: "S3TP_PACKET \<Rightarrow> bool \<Rightarrow> bool \<Rightarrow> bool \<Rightarrow> S3TP result" where
  "s3tp_new g si a a' =
     bind_res (tx_new g si) (\<lambda>tx.
       s3tp_reset \<lparr>s_active = a, s_tx = tx, s_rx = rx_new a', clients = Map.empty,
                   disconnectedClients = [], transceiver_started = False\<rparr>)"

definition s3tp_init :: "S3TP \<Rightarrow> (int \<times> S3TP) result" where
  "s3tp_init s =
     bind_res (rx_setStatusInterface True (s_rx s)) (\<lambda>rx1.
     bind_res (startModule rx1) (\<lambda>rx2.
     Inr (CODE_SUCCESS, s\<lparr>s_active := True, transceiver_started := True, s_rx := rx2,
                          s_tx := startRoutine (s_tx s)\<rparr>)))"

definition s3tp_stop :: "S3TP \<Rightarrow> (int \<times> S3TP) result" where
  "s3tp_stop s =
     bind_res (stopModule (s_rx s)) (\<lambda>rx.
     Inr (CODE_SUCCESS, s\<lparr>s_active := False, s_tx := stopRoutine (s_tx s), s_rx := rx,
                          transceiver_started := False\<rparr>))"

definition s3tp_synchronizeStatus :: "u8 \<Rightarrow> S3TP \<Rightarrow> S3TP result" where
  "s3tp_synchronizeStatus i s =
     (if \<not> map_empty (clients s) then bind_res (scheduleSync i (s_tx s)) (\<lambda>tx. Inr (s\<lparr>s_tx := tx\<rparr>))
      else Inr s)"

section \<open>Clients\<close>

definition getClientConnectedToPort :: "u8 \<Rightarrow> S3TP \<Rightarrow> Client option" where
  "getClientConnectedToPort port s = (case clients s port of None \<Rightarrow> None | Some cli \<Rightarrow> cli)"

text \<open>A call of a client under \<^verbatim>\<open>clients_mutex\<close>: it must not end in \<^verbatim>\<open>onDisconnected\<close>.\<close>

definition under_clients_mutex :: "'a client_step \<Rightarrow> ('a \<times> SocketOp list \<times> Client) result" where
  "under_clients_mutex st =
     (case st of (res, ops, calls, c) \<Rightarrow> if calls \<noteq> [] then Inl SelfDeadlock else Inr (res, ops, c))"

primrec cleanup_loop :: "u8 list \<Rightarrow> (u8 \<rightharpoonup> Client option) \<Rightarrow> (u8 \<rightharpoonup> Client option) result" where
  "cleanup_loop [] m = Inr m"
| "cleanup_loop (port # ports) m =
     (case m port of
        None \<Rightarrow> cleanup_loop ports (m(port \<mapsto> None))
      | Some None \<Rightarrow> cleanup_loop ports m
      | Some (Some cli) \<Rightarrow>
          bind_res (under_clients_mutex (client_kill cli)) (\<lambda>_.
            cleanup_loop ports (m(getAppPort cli := None))))"

definition cleanupClients :: "S3TP \<Rightarrow> S3TP result" where
  "cleanupClients s =
     bind_res (cleanup_loop (disconnectedClients s) (clients s)) (\<lambda>m.
       Inr (s\<lparr>clients := m, disconnectedClients := []\<rparr>))"

section \<open>Sending\<close>

definition checkTransmissionAvailability :: "u8 \<Rightarrow> u8 \<Rightarrow> u16 \<Rightarrow> S3TP \<Rightarrow> int \<times> S3TP" where
  "checkTransmissionAvailability port channel mlen s =
     (if getCurrentState (s_tx s) = BLOCKED then (CODE_LINK_UNAVAIABLE, s)
      else
        let no_packets = of_nat (unat mlen div LEN_S3TP_PDU) :: u8;
            no_packets = (if unat mlen mod LEN_S3TP_PDU > 0 then no_packets + 1 else no_packets);
            (room, tx) = isQueueAvailable port no_packets (s_tx s);
            s1 = s\<lparr>s_tx := tx\<rparr>
        in if \<not> room then (CODE_QUEUE_FULL, s1)
           else if \<not> tx_isChannelAvailable channel tx then (CODE_CHANNEL_BROKEN, s1)
           else (CODE_SUCCESS, s1))"

text \<open>A fresh packet with its metadata; \<open>g\<close> is the uninitialised memory it is built in.\<close>

definition fresh_packet :: "S3TP_PACKET \<Rightarrow> u8 \<Rightarrow> u8 \<Rightarrow> u8 \<Rightarrow> u8 list \<Rightarrow> nat \<Rightarrow> S3TP_PACKET result" where
  "fresh_packet g channel port opts pdu n =
     bind_res (new_packet g pdu (of_nat n)) (\<lambda>packet.
       Inr (packet\<lparr>p_channel := channel, p_options := opts, p_header := setPort port (p_header packet)\<rparr>))"

definition sendSimplePayload ::
  "S3TP_PACKET \<Rightarrow> u8 \<Rightarrow> u8 \<Rightarrow> u8 list \<Rightarrow> nat \<Rightarrow> u8 \<Rightarrow> TxModule \<Rightarrow> (int \<times> TxModule) result" where
  "sendSimplePayload g channel port data len opts t =
     bind_res (fresh_packet g channel port opts data len) (\<lambda>packet. enqueuePacket packet 0 False t)"

text \<open>
  The fragmentation loop. \<open>data\<close> is the allocation the pointer \<^verbatim>\<open>data\<close> points to and \<open>off\<close> the offset
  of \<^verbatim>\<open>dataPtr\<close>, which the source advances by the total written so far.
\<close>

function fragment_loop ::
  "(nat \<Rightarrow> S3TP_PACKET) \<Rightarrow> u8 \<Rightarrow> u8 \<Rightarrow> u8 list \<Rightarrow> nat \<Rightarrow> u8 \<Rightarrow> nat \<Rightarrow> nat \<Rightarrow> u8 \<Rightarrow> TxModule \<Rightarrow>
    (int \<times> TxModule) result" where
  "fragment_loop g channel port data len opts written off fragment t =
     (if \<not> written < len then Inr (CODE_SUCCESS, t)
      else
        case fresh_packet (g (unat fragment)) channel port opts (drop off data)
               (if written + LEN_S3TP_PDU > len then len - written else LEN_S3TP_PDU) of
          Inl e \<Rightarrow> Inl e
        | Inr packet \<Rightarrow>
            let written' = written + unat (getPduLength (p_header packet));
                off' = off + written';
                moreFragments = \<not> written' \<ge> len
            in case enqueuePacket packet fragment moreFragments t of
                 Inl e \<Rightarrow> Inl e
               | Inr (status, t') \<Rightarrow>
                   if status \<noteq> CODE_SUCCESS then Inr (status, t')
                   else fragment_loop g channel port data len opts written' off' (fragment + 1) t')"
  by auto

lemma unat_of_nat_small: "n \<le> 992 \<Longrightarrow> unat (of_nat n :: u16) = n" "n \<le> 992 \<Longrightarrow> (of_nat n :: u16) < 0x4000"
  by (simp_all add: unat_of_nat_u16 word_less_nat_alt)

lemma fresh_packet_eq:
  assumes "n \<le> 992"
  shows "fresh_packet g channel port opts pdu n =
    (if n \<le> length pdu
     then Inr \<lparr>p_header = setPort port (setPduLength (of_nat n) (p_header g)), p_payload = take n pdu,
       p_channel = channel, p_options = opts\<rparr>
     else Inl OutOfBounds)"
  using unat_of_nat_small [OF assms] by (cases g) (simp add: fresh_packet_def new_packet_def)

lemma fresh_packet_length:
  "fresh_packet g channel port opts pdu n = Inr packet \<Longrightarrow> n \<le> 992 \<Longrightarrow> unat (getPduLength (p_header packet)) = n"
  using unat_of_nat_small [of n] getPduLength_setPduLength [of "of_nat n"]
  by (auto simp: fresh_packet_eq split: if_splits)

termination fragment_loop
  by (relation "measure (\<lambda>(g, channel, port, data, len, opts, written, off, fragment, t). len - written)")
     (auto dest!: fresh_packet_length split: if_splits)

declare fragment_loop.simps [simp del]

definition fragmentPayload ::
  "(nat \<Rightarrow> S3TP_PACKET) \<Rightarrow> u8 \<Rightarrow> u8 \<Rightarrow> u8 list \<Rightarrow> nat \<Rightarrow> u8 \<Rightarrow> TxModule \<Rightarrow> (int \<times> TxModule) result" where
  "fragmentPayload g channel port data len opts t = fragment_loop g channel port data len opts 0 0 0 t"

definition sendToLinkLayer ::
  "(nat \<Rightarrow> S3TP_PACKET) \<Rightarrow> u8 \<Rightarrow> u8 \<Rightarrow> u8 list \<Rightarrow> nat \<Rightarrow> u8 \<Rightarrow> S3TP \<Rightarrow> (int \<times> S3TP) result" where
  "sendToLinkLayer g channel port data len opts s =
     (if s_active s then
        let (availability, s1) = checkTransmissionAvailability port channel (of_nat len) s in
        if availability \<noteq> CODE_SUCCESS then Inr (availability, s1)
        else if len > MAX_PDU_LENGTH then Inr (CODE_ERROR_MAX_MESSAGE_SIZE, s1)
        else
          bind_res (if len > LEN_S3TP_PDU then fragmentPayload g channel port data len opts (s_tx s1)
                    else sendSimplePayload (g 0) channel port data len opts (s_tx s1)) (\<lambda>(rc, tx).
          Inr (rc, s1\<lparr>s_tx := tx\<rparr>))
      else Inr (CODE_INTERNAL_ERROR, s))"

section \<open>Assembly thread\<close>

datatype AssemblyEnd = AssemblyStops | AssemblyWaits | AssemblyDone "SocketOp list"

text \<open>One pass; \<open>w1\<close>, \<open>w2\<close>, \<open>w3\<close> are the results of the writes to the client.\<close>

definition assembly_iteration ::
  "int \<Rightarrow> int \<Rightarrow> int \<Rightarrow> S3TP \<Rightarrow> (AssemblyEnd \<times> S3TP) result option" where
  "assembly_iteration w1 w2 w3 s =
     (if \<not> s_active s then Some (Inr (AssemblyStops, s))
      else case rx_isActive (s_rx s) of Inl e \<Rightarrow> Some (Inl e)
      | Inr rxActive \<Rightarrow>
        if \<not> rxActive then Some (Inr (AssemblyStops, s))
        else case isNewMessageAvailable (s_rx s) of Inl e \<Rightarrow> Some (Inl e)
        | Inr available \<Rightarrow>
          if \<not> available then Some (Inr (AssemblyWaits, s))
          else case getNextCompleteMessage (s_rx s) of
            None \<Rightarrow> None
          | Some (Inl e) \<Rightarrow> Some (Inl e)
          | Some (Inr (m, rx)) \<Rightarrow>
              let port = msg_port m; s1 = s\<lparr>s_rx := rx\<rparr> in
              (case clients s1 port of
                 None \<Rightarrow> Some (Inr (AssemblyDone [], s1\<lparr>clients := (clients s1)(port \<mapsto> None)\<rparr>))
               | Some None \<Rightarrow> Some (Inr (AssemblyDone [], s1))
               | Some (Some cli) \<Rightarrow>
                   Some (bind_res (under_clients_mutex (client_send w1 w2 w3 (msg_data m) (unat (msg_len m)) cli))
                     (\<lambda>(rc, ops, cli'). Inr (AssemblyDone ops, s1\<lparr>clients := (clients s1)(port \<mapsto> Some cli')\<rparr>)))))"

section \<open>Callbacks\<close>

abbreviation (input) available_message :: S3TP_CONTROL where
  "available_message \<equiv> \<lparr>controlMessageType = AVAILABLE, control_error = 0\<rparr>"

text \<open>The loops over the client map; \<open>w\<close> gives the results of the writes to the client of a port.\<close>

primrec notify_loop ::
  "(Client \<Rightarrow> bool) \<Rightarrow> (u8 \<Rightarrow> int \<times> int) \<Rightarrow> u8 list \<Rightarrow> (u8 \<rightharpoonup> Client option) \<Rightarrow> (u8 \<times> SocketOp list) list result" where
  "notify_loop sel w [] m = Inr []"
| "notify_loop sel w (port # ports) m =
     (case m port of
        Some (Some cli) \<Rightarrow>
          if sel cli then
            bind_res (under_clients_mutex (sendControlMessage (fst (w port)) (snd (w port)) available_message cli))
              (\<lambda>(rc, ops, cli'). bind_res (notify_loop sel w ports m) (\<lambda>rest. Inr ((port, ops) # rest)))
          else notify_loop sel w ports m
      | _ \<Rightarrow> Inl NullDeref)"

definition notifyAvailabilityToClients :: "(u8 \<Rightarrow> int \<times> int) \<Rightarrow> S3TP \<Rightarrow> (u8 \<times> SocketOp list) list result" where
  "notifyAvailabilityToClients w s = notify_loop (\<lambda>_. True) w (map_keys (clients s)) (clients s)"

definition onDisconnected :: "Client \<Rightarrow> S3TP \<Rightarrow> S3TP result" where
  "onDisconnected cli s =
     bind_res (closePort (getAppPort cli) (s_rx s)) (\<lambda>(rc, rx).
       Inr (s\<lparr>disconnectedClients := disconnectedClients s @ [getAppPort cli], s_rx := rx\<rparr>))"

definition onConnected :: "Client \<Rightarrow> S3TP \<Rightarrow> S3TP result" where
  "onConnected cli s =
     bind_res (openPort (getAppPort cli) (s_rx s)) (\<lambda>(rc, rx).
       s3tp_synchronizeStatus S3TP_SYNC_INITIATOR
         (s\<lparr>clients := (clients s)(getAppPort cli \<mapsto> Some cli), s_rx := rx\<rparr>))"

definition onApplicationMessage ::
  "(nat \<Rightarrow> S3TP_PACKET) \<Rightarrow> Client \<Rightarrow> u8 list \<Rightarrow> nat \<Rightarrow> S3TP \<Rightarrow> (int \<times> S3TP) result" where
  "onApplicationMessage g cli data len s =
     sendToLinkLayer g (getVirtualChannel cli) (getAppPort cli) data len (getOptions cli) s"

definition onLinkStatusChanged ::
  "(u8 \<Rightarrow> int \<times> int) \<Rightarrow> bool \<Rightarrow> S3TP \<Rightarrow> ((u8 \<times> SocketOp list) list \<times> S3TP) result" where
  "onLinkStatusChanged w up s =
     (if up then bind_res (s3tp_synchronizeStatus S3TP_SYNC_INITIATOR s) (\<lambda>s1.
        bind_res (notifyAvailabilityToClients w s1) (\<lambda>out. Inr (out, s1)))
      else Inr ([], s))"

definition onChannelStatusChanged ::
  "(u8 \<Rightarrow> int \<times> int) \<Rightarrow> u8 \<Rightarrow> bool \<Rightarrow> S3TP \<Rightarrow> ((u8 \<times> SocketOp list) list \<times> S3TP) result" where
  "onChannelStatusChanged w channel up s =
     (let s1 = s\<lparr>s_tx := tx_setChannelAvailable channel up (s_tx s)\<rparr>
      in bind_res (notify_loop (\<lambda>cli. getVirtualChannel cli = channel) w (map_keys (clients s1)) (clients s1))
           (\<lambda>out. Inr (out, s1)))"

definition onSynchronization :: "u8 \<Rightarrow> S3TP \<Rightarrow> S3TP result" where
  "onSynchronization i s = (if i = S3TP_SYNC_INITIATOR then s3tp_synchronizeStatus S3TP_SYNC_ACK s else Inr s)"

definition onOutputQueueAvailable :: "(u8 \<Rightarrow> int \<times> int) \<Rightarrow> u8 \<Rightarrow> S3TP \<Rightarrow> SocketOp list result" where
  "onOutputQueueAvailable w port s =
     (case clients s port of
        None \<Rightarrow> Inr []
      | Some None \<Rightarrow> Inl NullDeref
      | Some (Some cli) \<Rightarrow>
          bind_res (under_clients_mutex (sendControlMessage (fst (w port)) (snd (w port)) available_message cli))
            (\<lambda>(rc, ops, cli'). Inr ops))"

text \<open>A status event of the reception module reaches the matching callback.\<close>

definition s3tp_status :: "(u8 \<Rightarrow> int \<times> int) \<Rightarrow> StatusEvent \<Rightarrow> S3TP \<Rightarrow> ((u8 \<times> SocketOp list) list \<times> S3TP) result" where
  "s3tp_status w ev s =
     (case ev of
        OnLinkStatusChanged up \<Rightarrow> onLinkStatusChanged w up s
      | OnChannelStatusChanged ch up \<Rightarrow> onChannelStatusChanged w ch up s
      | OnSynchronization i \<Rightarrow> bind_res (onSynchronization i s) (\<lambda>s'. Inr ([], s')))"

primrec s3tp_statuses :: "(u8 \<Rightarrow> int \<times> int) \<Rightarrow> StatusEvent list \<Rightarrow> S3TP \<Rightarrow> S3TP result" where
  "s3tp_statuses w [] s = Inr s"
| "s3tp_statuses w (ev # evs) s = bind_res (s3tp_status w ev s) (\<lambda>(out, s'). s3tp_statuses w evs s')"

text \<open>A frame from the link, with the callbacks it leads to.\<close>

definition s3tp_handleFrame ::
  "(u8 \<Rightarrow> int \<times> int) \<Rightarrow> u8 \<Rightarrow> u8 \<Rightarrow> u8 list \<Rightarrow> S3TP \<Rightarrow> (int \<times> S3TP) result" where
  "s3tp_handleFrame w opt channel frame s =
     bind_res (handleFrame opt channel frame (s_rx s)) (\<lambda>(rc, evs, rx).
     bind_res (s3tp_statuses w evs (s\<lparr>s_rx := rx\<rparr>)) (\<lambda>s'. Inr (rc, s')))"

section \<open>Lemmas about sending\<close>

lemma isQueueAvailable_room: "fst (isQueueAvailable port n t)"
proof -
  have "fst (buf_getSizeOfQueue port (outBuffer t)) \<le> 65535"
  proof (cases "queue_at (outBuffer t) port")
    case (Some q)
    have "int (unat (pq_getSize q)) \<le> 65535" using unat_u16_lt [of "pq_getSize q"] by linarith
    with Some show ?thesis by (simp add: buf_getSizeOfQueue_def)
  qed (simp add: buf_getSizeOfQueue_def)
  moreover have "int (unat n) \<le> 255" using unat_u8_lt [of n] by linarith
  ultimately show ?thesis
    by (cases "buf_getSizeOfQueue port (outBuffer t)") (simp add: isQueueAvailable_def MAX_QUEUE_SIZE_def)
qed

lemma isQueueAvailable_ok:
  assumes "tx_ok t"
  shows "\<exists>b. isQueueAvailable port n t = (True, t\<lparr>outBuffer := b\<rparr>) \<and> tx_ok (t\<lparr>outBuffer := b\<rparr>) \<and> buf_view b = tx_view t"
proof -
  let ?b = "snd (buf_getSizeOfQueue port (outBuffer t))"
  have "isQueueAvailable port n t = (True, t\<lparr>outBuffer := ?b\<rparr>)"
    using isQueueAvailable_room [of port n t] by (auto simp: isQueueAvailable_def split: prod.splits)
  moreover have "buf_ok ?b" "buf_view ?b = tx_view t" using assms by (simp_all add: tx_ok_def buf_getSizeOfQueue_ok)
  ultimately show ?thesis using assms by (auto simp: tx_ok_def tx_port_ok_def)
qed

lemma checkTransmissionAvailability_eq:
  assumes "tx_ok (s_tx s)"
  shows "\<exists>b. buf_view b = tx_view (s_tx s) \<and> tx_ok ((s_tx s)\<lparr>outBuffer := b\<rparr>) \<and>
    checkTransmissionAvailability port channel n s =
      (if tx_state (s_tx s) = BLOCKED then (-5, s)
       else (if channel \<in> channel_blacklist (s_tx s) then -6 else 0, s\<lparr>s_tx := (s_tx s)\<lparr>outBuffer := b\<rparr>\<rparr>))"
proof -
  define k :: u8 where "k = (if unat n mod 992 > 0 then of_nat (unat n div 992) + 1 else of_nat (unat n div 992))"
  from isQueueAvailable_ok [OF assms, of port k] obtain b where
    "isQueueAvailable port k (s_tx s) = (True, (s_tx s)\<lparr>outBuffer := b\<rparr>)"
    "tx_ok ((s_tx s)\<lparr>outBuffer := b\<rparr>)" "buf_view b = tx_view (s_tx s)" by blast
  then show ?thesis
    by (intro exI [of _ b])
       (simp add: checkTransmissionAvailability_def getCurrentState_def Let_def k_def tx_isChannelAvailable_def)
qed

text \<open>A message as a list of queued packets.\<close>

definition message_packets :: "u8 \<Rightarrow> u8 \<Rightarrow> u8 \<Rightarrow> u8 \<Rightarrow> u8 list \<Rightarrow> S3TP_PACKET list \<Rightarrow> bool" where
  "message_packets sq port channel opts data xs \<longleftrightarrow>
     whole_message xs \<and> numbered sq xs \<and> concat (map p_payload xs) = data \<and>
     (\<forall>x \<in> set xs. pkt_wf x \<and> getPort (p_header x) = port \<and> p_channel x = channel \<and> p_options x = opts \<and>
        getMessageType (p_header x) = 0 \<and> h_crc (p_header x) = crc16 (p_payload x))"

text \<open>Only the port sequences and the buffer of the transmission module have changed.\<close>

definition tx_frame :: "TxModule \<Rightarrow> TxModule \<Rightarrow> bool" where
  "tx_frame t t' \<longleftrightarrow> (\<exists>ps b. t' = t\<lparr>port_sequence := ps, outBuffer := b\<rparr>)"

lemma tx_frame_refl [simp]: "tx_frame t t"
  unfolding tx_frame_def by (rule exI [of _ "port_sequence t"], rule exI [of _ "outBuffer t"]) simp

lemma tx_frame_upd [simp]: "tx_frame t (t\<lparr>outBuffer := b\<rparr>)" "tx_frame t (t\<lparr>port_sequence := ps, outBuffer := b\<rparr>)"
  unfolding tx_frame_def by (rule exI [of _ "port_sequence t"], rule exI [of _ b], simp) blast

lemma tx_frame_trans [trans]: "tx_frame t t1 \<Longrightarrow> tx_frame t1 t2 \<Longrightarrow> tx_frame t t2"
  unfolding tx_frame_def by force

lemma tx_frame_fields:
  assumes "tx_frame t t'"
  shows "tx_active t' = tx_active t" "tx_state t' = tx_state t" "channel_blacklist t' = channel_blacklist t"
    "sendingFragments t' = sendingFragments t" "global_seq_num t' = global_seq_num t"
    "to_consume_port_seq t' = to_consume_port_seq t"
  using assms by (auto simp: tx_frame_def)

text \<open>What enqueueing one fresh packet does.\<close>

lemma enqueue_fresh:
  assumes ok: "tx_ok t" and act: "tx_active t" and port: "port < 128" and room: "length (tx_view t port) < 256"
    and n: "n \<le> 992" "n \<le> length pdu"
  shows "\<exists>x t' y b. fresh_packet g channel port opts pdu n = Inr x \<and> unat (getPduLength (p_header x)) = n \<and>
    enqueuePacket x f m t = Inr (0, t') \<and> tx_ok t' \<and> tx_view t' = (tx_view t)(port := tx_view t port @ [y]) \<and>
    t' = t\<lparr>port_sequence := (port_sequence t)(port \<mapsto> at0 (port_sequence t) port + 1), outBuffer := b\<rparr> \<and>
    pkt_wf y \<and> getPort (p_header y) = port \<and> p_channel y = channel \<and> p_options y = opts \<and>
    getMessageType (p_header y) = 0 \<and> h_crc (p_header y) = crc16 (p_payload y) \<and> p_payload y = take n pdu \<and>
    seq_of y = at0 (port_sequence t) port \<and> getSubSequence (p_header y) = f \<and> (moreFragments (p_header y) \<noteq> 0) = m"
proof -
  define x where "x = \<lparr>p_header = setPort port (setPduLength (of_nat n) (p_header g)), p_payload = take n pdu,
       p_channel = channel, p_options = opts\<rparr>"
  have fr: "fresh_packet g channel port opts pdu n = Inr x" using n by (simp add: fresh_packet_eq x_def)
  have len: "unat (getPduLength (p_header x)) = n" using fresh_packet_length [OF fr n(1)] .
  have wf: "pkt_wf x" using len n by (simp add: pkt_wf_def x_def)
  have p: "getPort (p_header x) = port" using hport.a.get_set [OF port] by (simp add: x_def)
  have xf: "p_channel x = channel" "p_options x = opts" "p_payload x = take n pdu" by (simp_all add: x_def)
  from enqueuePacket_ok [OF ok act wf p room, of f m] obtain t' b where
    e: "enqueuePacket x f m t = Inr (0, t')" "tx_ok t'"
    "tx_view t' = (tx_view t)(port := tx_view t port @ [queued t f m x])"
    "t' = t\<lparr>port_sequence := (port_sequence t)(port \<mapsto> at0 (port_sequence t) port + 1), outBuffer := b\<rparr>" by blast
  show ?thesis
    by (intro exI [of _ x] exI [of _ t'] exI [of _ "queued t f m x"] exI [of _ b] conjI fr len e)
       (simp_all add: queued_fields p wf xf)
qed

lemma sendSimplePayload_ok:
  assumes "tx_ok t" "tx_active t" "port < 128" "length (tx_view t port) < 256" "len \<le> 992" "len \<le> length data"
  shows "\<exists>t' x. sendSimplePayload g channel port data len opts t = Inr (0, t') \<and> tx_ok t' \<and> tx_frame t t' \<and>
    tx_view t' = (tx_view t)(port := tx_view t port @ [x]) \<and>
    message_packets (at0 (port_sequence t) port) port channel opts (take len data) [x]"
proof -
  from enqueue_fresh [OF assms, of g channel opts 0 False] obtain x t' y where
    "fresh_packet g channel port opts data len = Inr x" "enqueuePacket x 0 False t = Inr (0, t')" "tx_ok t'"
    "tx_view t' = (tx_view t)(port := tx_view t port @ [y])" "tx_frame t t'"
    "message_packets (at0 (port_sequence t) port) port channel opts (take len data) [y]"
    by (auto simp: message_packets_def numbered_def seqs_from_Suc)
  then show ?thesis by (auto simp: sendSimplePayload_def)
qed

lemma fragmentPayload_two:
  assumes "tx_ok t" "tx_active t" "port < 128" "length (tx_view t port) + 2 \<le> 256"
    and len: "992 < len" "len \<le> 1984" "len \<le> length data"
  shows "\<exists>t' x y. fragmentPayload g channel port data len opts t = Inr (0, t') \<and> tx_ok t' \<and> tx_frame t t' \<and>
    tx_view t' = (tx_view t)(port := tx_view t port @ [x, y]) \<and>
    message_packets (at0 (port_sequence t) port) port channel opts (take len data) [x, y]"
proof -
  have r: "length (tx_view t port) < 256" "992 \<le> (992::nat)" "992 \<le> length data" using assms by simp_all
  from enqueue_fresh [OF assms(1-3) r, of "g 0" channel opts 0 True] obtain x t1 y b where
    e1: "fresh_packet (g 0) channel port opts data 992 = Inr x" "unat (getPduLength (p_header x)) = 992"
    "enqueuePacket x 0 True t = Inr (0, t1)" "tx_ok t1" "tx_view t1 = (tx_view t)(port := tx_view t port @ [y])"
    "t1 = t\<lparr>port_sequence := (port_sequence t)(port \<mapsto> at0 (port_sequence t) port + 1), outBuffer := b\<rparr>"
    and y: "pkt_wf y \<and> getPort (p_header y) = port \<and> p_channel y = channel \<and> p_options y = opts \<and>
    getMessageType (p_header y) = 0 \<and> h_crc (p_header y) = crc16 (p_payload y)" "p_payload y = take 992 data"
    "seq_of y = at0 (port_sequence t) port" "getSubSequence (p_header y) = 0" "moreFragments (p_header y) \<noteq> 0"
    by auto
  have t1: "tx_active t1" "length (tx_view t1 port) < 256" "at0 (port_sequence t1) port = at0 (port_sequence t) port + 1"
    using assms(2) by (simp add: e1(6)) (use assms(4) in \<open>simp add: e1(5)\<close>, simp add: e1(6))
  have n: "len - 992 \<le> 992" "len - 992 \<le> length (drop 992 data)" using len by simp_all
  from enqueue_fresh [OF e1(4) t1(1) assms(3) t1(2) n, of "g 1" channel opts 1 False] obtain x2 t2 z where
    e2: "fresh_packet (g 1) channel port opts (drop 992 data) (len - 992) = Inr x2"
    "unat (getPduLength (p_header x2)) = len - 992" "enqueuePacket x2 1 False t1 = Inr (0, t2)" "tx_ok t2"
    "tx_view t2 = (tx_view t1)(port := tx_view t1 port @ [z])" "tx_frame t1 t2"
    and z: "pkt_wf z \<and> getPort (p_header z) = port \<and> p_channel z = channel \<and> p_options z = opts \<and>
    getMessageType (p_header z) = 0 \<and> h_crc (p_header z) = crc16 (p_payload z)" "p_payload z = take (len - 992) (drop 992 data)"
    "seq_of z = at0 (port_sequence t1) port" "getSubSequence (p_header z) = 1" "moreFragments (p_header z) = 0"
    by auto
  have n2: "(if 992 + 992 > len then len - 992 else 992) = len - 992" using len by auto
  have "fragmentPayload g channel port data len opts t = Inr (0, t2)"
    using len e1(1-3) e2(1-3) n2
    by (simp add: fragmentPayload_def fragment_loop.simps [of g channel port data len opts 0]
        fragment_loop.simps [of g channel port data len opts 992] fragment_loop.simps [of g channel port data len opts len])
  moreover have "tx_view t2 = (tx_view t)(port := tx_view t port @ [y, z])" by (simp add: e2(5) e1(5))
  moreover have "take 992 data @ take (len - 992) (drop 992 data) = take len data"
    using len by (metis le_add_diff_inverse less_imp_le take_add)
  then have "message_packets (at0 (port_sequence t) port) port channel opts (take len data) [y, z]"
    using y z t1(3) by (simp add: message_packets_def numbered_def seqs_from_Suc less_Suc_eq)
  moreover have "tx_frame t t2" using tx_frame_trans [OF _ e2(6), of t] e1(6) by simp
  ultimately show ?thesis using e2(4) by blast
qed

text \<open>
  Once the read offset has run ahead of the amount written by more than the slack of the allocation,
  some later fragment is read beyond its end.
\<close>

lemma fragment_loop_overruns:
  assumes "tx_ok t" "tx_active t" "port < 128" "written < len" "length data + written < off + len"
    and "length (tx_view t port) + (len - written) div 992 < 256"
  shows "fragment_loop g channel port data len opts written off fragment t = Inl OutOfBounds"
  using assms
proof (induction "len - written" arbitrary: written off fragment t rule: less_induct)
  case less
  let ?n = "if written + 992 > len then len - written else 992"
  show ?case
  proof (cases "?n \<le> length (drop off data)")
    case False
    then show ?thesis
      using less.prems(4) by (subst fragment_loop.simps) (simp add: fresh_packet_eq split: if_splits)
  next
    case True
    then have more: "written + 992 < len" using less.prems(4,5) by (auto split: if_splits)
    then have n: "?n = 992" by simp
    have r: "length (tx_view t port) < 256" "992 \<le> (992::nat)" "992 \<le> length (drop off data)"
      using less.prems(6) True n by simp_all
    from enqueue_fresh [OF less.prems(1-3) r, of "g (unat fragment)" channel opts fragment True] obtain x t1 y b where
      e: "fresh_packet (g (unat fragment)) channel port opts (drop off data) 992 = Inr x"
      "unat (getPduLength (p_header x)) = 992" "enqueuePacket x fragment True t = Inr (0, t1)" "tx_ok t1"
      "tx_view t1 = (tx_view t)(port := tx_view t port @ [y])"
      "t1 = t\<lparr>port_sequence := (port_sequence t)(port \<mapsto> at0 (port_sequence t) port + 1), outBuffer := b\<rparr>" by blast
    have act: "tx_active t1" using less.prems(2) by (simp add: e(6))
    have "(len - written) div 992 = Suc ((len - (written + 992)) div 992)"
      using more by (simp add: le_div_geq)
    then have room: "length (tx_view t1 port) + (len - (written + 992)) div 992 < 256"
      using less.prems(6) by (simp add: e(5))
    have "fragment_loop g channel port data len opts (written + 992) (off + (written + 992)) (fragment + 1) t1 = Inl OutOfBounds"
      by (rule less.hyps) (use more less.prems(3,5) e(4) act room in simp_all)
    then show ?thesis
      using more n e(1-3) by (subst fragment_loop.simps) simp
  qed
qed

lemma fragmentPayload_overruns:
  assumes "tx_ok t" "tx_active t" "port < 128" "length (tx_view t port) + len div 992 < 256"
    and len: "1984 < len" "length data \<le> len + 1"
  shows "fragmentPayload g channel port data len opts t = Inl OutOfBounds"
proof (cases "1984 \<le> length data")
  case False
  then have "length data + 0 < 0 + len" using len by simp
  with assms show ?thesis unfolding fragmentPayload_def by (intro fragment_loop_overruns) simp_all
next
  case True
  have d: "len div 992 = Suc (Suc ((len - 1984) div 992))"
    using len by (simp add: le_div_geq)
  have r: "length (tx_view t port) < 256" "992 \<le> (992::nat)" "992 \<le> length data" using assms(4) True by simp_all
  from enqueue_fresh [OF assms(1-3) r, of "g 0" channel opts 0 True] obtain x t1 y b where
    e1: "fresh_packet (g 0) channel port opts data 992 = Inr x" "unat (getPduLength (p_header x)) = 992"
    "enqueuePacket x 0 True t = Inr (0, t1)" "tx_ok t1" "tx_view t1 = (tx_view t)(port := tx_view t port @ [y])"
    "t1 = t\<lparr>port_sequence := (port_sequence t)(port \<mapsto> at0 (port_sequence t) port + 1), outBuffer := b\<rparr>"
    by blast
  have t1: "tx_active t1" using assms(2) by (simp add: e1(6))
  have r1: "length (tx_view t1 port) < 256" "992 \<le> (992::nat)" "992 \<le> length (drop 992 data)"
    using assms(4) True d by (simp_all add: e1(5))
  from enqueue_fresh [OF e1(4) t1 assms(3) r1, of "g 1" channel opts 1 True] obtain x2 t2 z b2 where
    e2: "fresh_packet (g 1) channel port opts (drop 992 data) 992 = Inr x2" "unat (getPduLength (p_header x2)) = 992"
    "enqueuePacket x2 1 True t1 = Inr (0, t2)" "tx_ok t2" "tx_view t2 = (tx_view t1)(port := tx_view t1 port @ [z])"
    "t2 = t1\<lparr>port_sequence := (port_sequence t1)(port \<mapsto> at0 (port_sequence t1) port + 1), outBuffer := b2\<rparr>"
    by blast
  have t2: "tx_active t2" using t1 by (simp add: e2(6))
  have "fragment_loop g channel port data len opts 1984 2976 2 t2 = Inl OutOfBounds"
    by (rule fragment_loop_overruns) (use e2(4) t2 assms(3,4) len d in \<open>simp_all add: e2(5) e1(5)\<close>)
  then show ?thesis
    using len e1(1-3) e2(1-3)
    by (simp add: fragmentPayload_def fragment_loop.simps [of g channel port data len opts 0]
        fragment_loop.simps [of g channel port data len opts 992])
qed

text \<open>The whole path of a message into the transmission buffer.\<close>

definition can_send :: "u8 \<Rightarrow> u8 \<Rightarrow> S3TP \<Rightarrow> bool" where
  "can_send channel port s \<longleftrightarrow> s_active s \<and> tx_ok (s_tx s) \<and> tx_active (s_tx s) \<and> tx_state (s_tx s) \<noteq> BLOCKED \<and>
     channel \<notin> channel_blacklist (s_tx s) \<and> port < 128"

lemma sendToLinkLayer_queues:
  assumes s: "can_send channel port s" and room: "length (tx_view (s_tx s) port) + 2 \<le> 256"
    and len: "len \<le> 1984" "len \<le> length data"
  shows "\<exists>t' xs. sendToLinkLayer g channel port data len opts s = Inr (0, s\<lparr>s_tx := t'\<rparr>) \<and>
    can_send channel port (s\<lparr>s_tx := t'\<rparr>) \<and> tx_frame (s_tx s) t' \<and>
    tx_view t' = (tx_view (s_tx s))(port := tx_view (s_tx s) port @ xs) \<and> length xs = (if len > 992 then 2 else 1) \<and>
    message_packets (at0 (port_sequence (s_tx s)) port) port channel opts (take len data) xs"
proof -
  let ?t = "s_tx s"
  from s have ok: "tx_ok ?t" "s_active s" "tx_active ?t" "tx_state ?t \<noteq> BLOCKED" "channel \<notin> channel_blacklist ?t" "port < 128"
    by (simp_all add: can_send_def)
  from checkTransmissionAvailability_eq [OF ok(1), of port channel "of_nat len"] ok obtain b where
    b: "buf_view b = tx_view ?t" "tx_ok (?t\<lparr>outBuffer := b\<rparr>)"
    "checkTransmissionAvailability port channel (of_nat len) s = (0, s\<lparr>s_tx := ?t\<lparr>outBuffer := b\<rparr>\<rparr>)" by auto
  let ?t1 = "?t\<lparr>outBuffer := b\<rparr>"
  have "\<exists>t' xs. (if len > 992 then fragmentPayload g channel port data len opts ?t1
      else sendSimplePayload (g 0) channel port data len opts ?t1) = Inr (0, t') \<and> tx_ok t' \<and> tx_frame ?t1 t' \<and>
      tx_view t' = (tx_view ?t1)(port := tx_view ?t1 port @ xs) \<and> length xs = (if len > 992 then 2 else 1) \<and>
      message_packets (at0 (port_sequence ?t) port) port channel opts (take len data) xs"
  proof (cases "len > 992")
    case True
    with fragmentPayload_two [OF b(2), of port len data g channel opts] ok room len b(1) show ?thesis by fastforce
  next
    case False
    with sendSimplePayload_ok [OF b(2), of port len data "g 0" channel opts] ok room len b(1) show ?thesis by fastforce
  qed
  then obtain t' xs where t': "(if len > 992 then fragmentPayload g channel port data len opts ?t1
      else sendSimplePayload (g 0) channel port data len opts ?t1) = Inr (0, t')" "tx_ok t'" "tx_frame ?t1 t'"
      "tx_view t' = (tx_view ?t1)(port := tx_view ?t1 port @ xs)" "length xs = (if len > 992 then 2 else 1)"
      "message_packets (at0 (port_sequence ?t) port) port channel opts (take len data) xs" by blast
  have fr: "tx_frame ?t t'" using tx_frame_trans [OF tx_frame_upd(1) t'(3)] .
  have "sendToLinkLayer g channel port data len opts s = Inr (0, s\<lparr>s_tx := t'\<rparr>)"
    using ok(2) b(3) t'(1) len(1) by (cases "len > 992") (simp_all add: sendToLinkLayer_def Let_def)
  moreover have "can_send channel port (s\<lparr>s_tx := t'\<rparr>)"
    using ok t'(2) tx_frame_fields [OF fr] by (simp add: can_send_def)
  moreover have "tx_view t' = (tx_view ?t)(port := tx_view ?t port @ xs)" using t'(4) b(1) by simp
  ultimately show ?thesis using fr t'(5,6) by blast
qed

section \<open>Properties\<close>

text \<open>A message of at most 1984 bytes that the protocol accepts ends up behind the waiting packets of its
  port as one complete message: one or two fragments, numbered from the next port sequence number,
  whose payloads concatenated are exactly the message, each with its own checksum, and the caller is
  told of success.\<close>

theorem send_queues_whole_message:
  assumes "can_send channel port s" "length (tx_view (s_tx s) port) + 2 \<le> 256"
    and "len \<le> 1984" "len \<le> length data"
  shows "\<exists>s' xs. sendToLinkLayer g channel port data len opts s = Inr (0, s') \<and> tx_ok (s_tx s') \<and>
    tx_view (s_tx s') = (tx_view (s_tx s))(port := tx_view (s_tx s) port @ xs) \<and>
    message_packets (at0 (port_sequence (s_tx s)) port) port channel opts (take len data) xs"
proof -
  from sendToLinkLayer_queues [OF assms, of g opts] obtain t' xs where
    "sendToLinkLayer g channel port data len opts s = Inr (0, s\<lparr>s_tx := t'\<rparr>)" "can_send channel port (s\<lparr>s_tx := t'\<rparr>)"
    "tx_view t' = (tx_view (s_tx s))(port := tx_view (s_tx s) port @ xs)"
    "message_packets (at0 (port_sequence (s_tx s)) port) port channel opts (take len data) xs" by blast
  then show ?thesis by (intro exI [of _ "s\<lparr>s_tx := t'\<rparr>"] exI [of _ xs]) (simp add: can_send_def)
qed

text \<open>
  The protocol object as the listener of a client: it is ready when it can send, the message has at
  most two fragments and there is room for them, and an accepted message is queued for its port.
\<close>

definition listener_ready :: "Client \<Rightarrow> nat \<Rightarrow> S3TP \<Rightarrow> bool" where
  "listener_ready cli n s \<longleftrightarrow> can_send (virtual_channel cli) (app_port cli) s \<and> n \<le> 1984 \<and>
     length (tx_view (s_tx s) (app_port cli)) + 2 \<le> 256"

definition listener_took :: "Client \<Rightarrow> u8 list \<Rightarrow> S3TP \<Rightarrow> S3TP \<Rightarrow> bool" where
  "listener_took cli msg s s' \<longleftrightarrow> (\<exists>t' xs. s' = s\<lparr>s_tx := t'\<rparr> \<and> can_send (virtual_channel cli) (app_port cli) s' \<and>
     tx_frame (s_tx s) t' \<and> length xs \<le> 2 \<and>
     tx_view t' = (tx_view (s_tx s))(app_port cli := tx_view (s_tx s) (app_port cli) @ xs) \<and>
     message_packets (at0 (port_sequence (s_tx s)) (app_port cli)) (app_port cli) (virtual_channel cli)
       (options cli) msg xs)"

interpretation s3tp_listener: client_listener "onApplicationMessage g cli" "listener_ready cli" "listener_took cli" for g cli
proof
  fix msg :: "u8 list" and s
  assume "listener_ready cli (length msg) s"
  then have "can_send (virtual_channel cli) (app_port cli) s" "length (tx_view (s_tx s) (app_port cli)) + 2 \<le> 256"
    "length msg \<le> 1984" "length msg \<le> length (msg @ [0])" by (simp_all add: listener_ready_def)
  from sendToLinkLayer_queues [OF this, of g "options cli"] obtain t' xs where
    t': "sendToLinkLayer g (virtual_channel cli) (app_port cli) (msg @ [0]) (length msg) (options cli) s = Inr (0, s\<lparr>s_tx := t'\<rparr>)"
      "can_send (virtual_channel cli) (app_port cli) (s\<lparr>s_tx := t'\<rparr>)" "tx_frame (s_tx s) t'"
      "tx_view t' = (tx_view (s_tx s))(app_port cli := tx_view (s_tx s) (app_port cli) @ xs)" "length xs = (if length msg > 992 then 2 else 1)"
      "message_packets (at0 (port_sequence (s_tx s)) (app_port cli)) (app_port cli) (virtual_channel cli) (options cli)
        (take (length msg) (msg @ [0])) xs" by blast
  then have "length xs \<le> 2" "take (length msg) (msg @ [0]) = msg" by simp_all
  with t' have "listener_took cli msg s (s\<lparr>s_tx := t'\<rparr>)" unfolding listener_took_def by metis
  with t'(1) show "\<exists>s'. onApplicationMessage g cli (msg @ [0]) (length msg) s = Inr (0, s') \<and> listener_took cli msg s s'"
    by (simp add: onApplicationMessage_def getVirtualChannel_def getAppPort_def getOptions_def)
qed

text \<open>A protocol object that can send on any channel.\<close>

definition example_s3tp :: "TxModule \<Rightarrow> S3TP" where
  "example_s3tp t = \<lparr>s_active = True, s_tx = t, s_rx = example_rx, clients = Map.empty,
     disconnectedClients = [], transceiver_started = True\<rparr>"

lemma example_can_send:
  "\<exists>t. can_send 3 5 (example_s3tp t) \<and> (\<forall>p. tx_view t p = []) \<and> at0 (port_sequence t) 5 = 0 \<and>
    \<not> sendingFragments t \<and> channel_blacklist t = {} \<and> global_seq_num t = 0 \<and> (\<forall>p. at0 (port_sequence t) p = 0)"
proof -
  from tx_new_ok [of "example_packet []" False] obtain t where t: "tx_new (example_packet []) False = Inr t" "tx_ok t"
    "\<forall>p. tx_view t p = []" "port_sequence t = Map.empty" by blast
  then have "channel_blacklist t = {}" "\<not> sendingFragments t" "tx_state t = WAITING" "global_seq_num t = 0"
    by (auto simp: tx_new_def Let_def new_packet_def split: if_splits)
  with t show ?thesis
    by (intro exI [of _ "startRoutine t"])
       (auto simp: can_send_def example_s3tp_def startRoutine_def tx_ok_def tx_port_ok_def)
qed

theorem send_queues_whole_message_witness:
  "\<exists>t s' xs. sendToLinkLayer (\<lambda>_. example_packet []) 3 5 (replicate 1500 7) 1500 0 (example_s3tp t) = Inr (0, s') \<and>
    tx_view (s_tx s') 5 = xs \<and> message_packets 0 5 3 0 (replicate 1500 7) xs"
proof -
  from example_can_send obtain t where t: "can_send 3 5 (example_s3tp t)" "\<forall>p. tx_view t p = []"
    "at0 (port_sequence t) 5 = 0" by blast
  have e: "s_tx (example_s3tp t) = t" by (simp add: example_s3tp_def)
  have "length (tx_view (s_tx (example_s3tp t)) 5) + 2 \<le> 256" using t(2) e by simp
  from send_queues_whole_message [OF t(1) this, of 1500 "replicate 1500 7" "\<lambda>_. example_packet []" 0] t(2,3)
  show ?thesis unfolding e by fastforce
qed

lemma sendToLinkLayer_overruns:
  assumes "can_send channel port s" "length (tx_view (s_tx s) port) + 128 < 256"
    and "1984 < len" "len \<le> 126976" "length data \<le> len + 1"
  shows "sendToLinkLayer g channel port data len opts s = Inl OutOfBounds"
proof -
  let ?t = "s_tx s"
  from assms(1) have ok: "tx_ok ?t" "s_active s" "tx_active ?t" "tx_state ?t \<noteq> BLOCKED" "channel \<notin> channel_blacklist ?t" "port < 128"
    by (simp_all add: can_send_def)
  from checkTransmissionAvailability_eq [OF ok(1), of port channel "of_nat len"] ok obtain b where
    b: "buf_view b = tx_view ?t" "tx_ok (?t\<lparr>outBuffer := b\<rparr>)"
    "checkTransmissionAvailability port channel (of_nat len) s = (0, s\<lparr>s_tx := ?t\<lparr>outBuffer := b\<rparr>\<rparr>)" by auto
  have "len div 992 \<le> 128" using div_le_mono [OF assms(4), of 992] by simp
  then have "fragmentPayload g channel port data len opts (?t\<lparr>outBuffer := b\<rparr>) = Inl OutOfBounds"
    using assms(2,3,5) ok b(1) by (intro fragmentPayload_overruns [OF b(2)]) simp_all
  with b(3) ok(2) assms(3,4) show ?thesis by (simp add: sendToLinkLayer_def Let_def)
qed

text \<open>C30. A message of more than two fragments makes the protocol read beyond the application's buffer (of
  the message and at most its terminating zero byte): the read pointer is advanced by the total written so
  far instead of by the last fragment.\<close>

theorem long_message_overruns_buffer:
  assumes "can_send channel port s" "length (tx_view (s_tx s) port) + 128 < 256"
    and "1984 < len" "len \<le> 126976" "length data \<le> len + 1"
  shows "sendToLinkLayer g channel port data len opts s = Inl OutOfBounds"
  using assms by (rule sendToLinkLayer_overruns)

theorem long_message_overruns_buffer_witness:
  "\<exists>t. can_send 3 5 (example_s3tp t) \<and>
    sendToLinkLayer (\<lambda>_. example_packet []) 3 5 (replicate 2001 7) 2000 0 (example_s3tp t) = Inl OutOfBounds"
proof -
  from example_can_send obtain t where t: "can_send 3 5 (example_s3tp t)" "\<forall>p. tx_view t p = []" by blast
  have "length (tx_view (s_tx (example_s3tp t)) 5) + 128 < 256" using t(2) by (simp add: example_s3tp_def)
  from long_message_overruns_buffer [OF t(1) this, of 2000 "replicate 2001 7"] t(1) show ?thesis by auto
qed



text \<open>What a pass of the assembly thread does with a complete message.\<close>

lemma assembly_iteration_complete:
  assumes "s_active s" "rx_ok (s_rx s)" "rx_active (s_rx s)" "map_begin (available_messages (s_rx s)) = Some p"
    and "complete (s_rx s) p" "clients s p = Some (Some cli)"
  shows "\<exists>ms r'. whole_message ms \<and> prefix ms (rx_view (s_rx s) p) \<and> rx_ok r' \<and>
    assembly_iteration w1 w2 w3 s =
      Some (bind_res (under_clients_mutex (client_send w1 w2 w3 (Some (concat (map body ms)))
          (unat (\<Sum>x\<leftarrow>ms. getPduLength (p_header x))) cli))
        (\<lambda>(rc, ops, cli'). Inr (AssemblyDone ops, s\<lparr>s_rx := r', clients := (clients s)(p \<mapsto> Some cli')\<rparr>)))"
proof -
  from complete_loop_message [of "at0 (current_port_sequence (s_rx s)) p" 0 "rx_view (s_rx s) p"] assms(5)
  obtain ms rest where m: "rx_view (s_rx s) p = ms @ rest" "whole_message ms"
    "map seq_of ms = seqs_from (at0 (current_port_sequence (s_rx s)) p) (length ms)" by (auto simp: complete_def)
  from getNextCompleteMessage_ok [OF assms(2-4) m] obtain r' where
    r': "getNextCompleteMessage (s_rx s) = Some (Inr (message_of p ms, r'))" "rx_ok r'"
    unfolding message_of_def by blast
  have f: "msg_port (message_of p ms) = p" "msg_data (message_of p ms) = Some (concat (map body ms))"
    "msg_len (message_of p ms) = (\<Sum>x\<leftarrow>ms. getPduLength (p_header x))" by (simp_all add: message_of_def)
  have "available_messages (s_rx s) \<noteq> Map.empty" using assms(4) map_begin_SomeD by fastforce
  then have "isNewMessageAvailable (s_rx s) = Inr True" "rx_isActive (s_rx s) = Inr True"
    using assms(2,3) by (simp_all add: isNewMessageAvailable_def rx_isActive_def rx_locked_def rx_ok_def map_empty_iff)
  then have "assembly_iteration w1 w2 w3 s =
      Some (bind_res (under_clients_mutex (client_send w1 w2 w3 (Some (concat (map body ms)))
          (unat (\<Sum>x\<leftarrow>ms. getPduLength (p_header x))) cli))
        (\<lambda>(rc, ops, cli'). Inr (AssemblyDone ops, s\<lparr>s_rx := r', clients := (clients s)(p \<mapsto> Some cli')\<rparr>)))"
    using assms(1,6) r'(1) f by (simp add: assembly_iteration_def Let_def)
  with m r'(2) show ?thesis by (intro exI [of _ ms] exI [of _ r']) simp
qed

text \<open>A complete message at the head of the announced port goes to the client connected to that port: the
  socket gets the data type, the length three times and the payload of the fragments in order, and
  the client stays connected.\<close>

theorem assembly_delivers_to_client:
  assumes "s_active s" "rx_ok (s_rx s)" "rx_active (s_rx s)" "map_begin (available_messages (s_rx s)) = Some p"
    and "complete (s_rx s) p" "clients s p = Some (Some cli)" "0 \<le> w1" "0 < w2" "0 < w3"
  shows "\<exists>ms s' n. whole_message ms \<and> prefix ms (rx_view (s_rx s) p) \<and>
    n = unat (\<Sum>x\<leftarrow>ms. getPduLength (p_header x)) \<and>
    assembly_iteration w1 w2 w3 s = Some (Inr (AssemblyDone [WriteType 0,
      WriteLength [of_nat n, of_nat n, of_nat n], WriteData (Some (concat (map body ms))) n], s')) \<and>
    rx_ok (s_rx s') \<and> clients s' = clients s"
proof -
  from assembly_iteration_complete [OF assms(1-6), of w1 w2 w3] obtain ms r' where
    m: "whole_message ms" "prefix ms (rx_view (s_rx s) p)" "rx_ok r'"
    and run: "assembly_iteration w1 w2 w3 s =
      Some (bind_res (under_clients_mutex (client_send w1 w2 w3 (Some (concat (map body ms)))
          (unat (\<Sum>x\<leftarrow>ms. getPduLength (p_header x))) cli))
        (\<lambda>(rc, ops, cli'). Inr (AssemblyDone ops, s\<lparr>s_rx := r', clients := (clients s)(p \<mapsto> Some cli')\<rparr>)))" by blast
  define n where "n = unat (\<Sum>x\<leftarrow>ms. getPduLength (p_header x))"
  have "under_clients_mutex (client_send w1 w2 w3 (Some (concat (map body ms))) n cli) =
      Inr (0, [WriteType 0, WriteLength [of_nat n, of_nat n, of_nat n], WriteData (Some (concat (map body ms))) n], cli)"
    using assms(7-9)
    by (simp add: under_clients_mutex_def client_send_def Let_def write_length_safe_def redundant_length_def upt_rec)
  with run have "assembly_iteration w1 w2 w3 s = Some (Inr (AssemblyDone [WriteType 0,
      WriteLength [of_nat n, of_nat n, of_nat n], WriteData (Some (concat (map body ms))) n],
      s\<lparr>s_rx := r', clients := (clients s)(p \<mapsto> Some cli)\<rparr>))" by (simp add: n_def)
  moreover have "(clients s)(p \<mapsto> Some cli) = clients s" using assms(6) by auto
  ultimately show ?thesis
    using m n_def by (intro exI [of _ ms] exI [of _ "s\<lparr>s_rx := r', clients := (clients s)(p \<mapsto> Some cli)\<rparr>"] exI [of _ n]) simp
qed

theorem assembly_delivers_to_client_witness:
  "\<exists>s ms s' n. rx_view (s_rx s) 5 = example_fragments 0 \<and> clients s 5 = Some (Some example_client) \<and>
    prefix ms (example_fragments 0) \<and> assembly_iteration 1 24 3 s = Some (Inr (AssemblyDone [WriteType 0,
      WriteLength [of_nat n, of_nat n, of_nat n], WriteData (Some (concat (map body ms))) n], s'))"
proof -
  from example_received obtain r1 where
    r1: "rx_ok r1" "rx_active r1" "map_begin (available_messages r1) = Some 5" "complete r1 5"
    "rx_view r1 5 = example_fragments 0" by blast
  let ?s = "\<lambda>t. (example_s3tp t)\<lparr>s_rx := r1, clients := [5 \<mapsto> Some example_client]\<rparr>"
  have "s_active (?s t)" "s_rx (?s t) = r1" "clients (?s t) 5 = Some (Some example_client)" for t
    by (simp_all add: example_s3tp_def)
  with assembly_delivers_to_client [of "?s t" 5 example_client 1 24 3 for t] r1 show ?thesis
    by (metis zero_le_one zero_less_numeral)
qed

text \<open>C33. A client whose socket fails while a message is delivered stops the assembly thread for good: the send
  ends in \<^verbatim>\<open>onDisconnected\<close>, which takes the mutex of the client map that the thread already holds.\<close>

theorem failed_delivery_deadlocks:
  assumes "s_active s" "rx_ok (s_rx s)" "rx_active (s_rx s)" "map_begin (available_messages (s_rx s)) = Some p"
    and "complete (s_rx s) p" "clients s p = Some (Some cli)" "client_if cli" "w1 < 0 \<or> w2 \<le> 0 \<or> w3 \<le> 0"
  shows "assembly_iteration w1 w2 w3 s = Some (Inl SelfDeadlock)"
proof -
  have "under_clients_mutex (client_send w1 w2 w3 d n cli) = Inl SelfDeadlock" for d n
    using assms(7,8)
    by (auto simp: under_clients_mutex_def client_send_def client_closing Let_def write_length_safe_def)
  with assembly_iteration_complete [OF assms(1-6), of w1 w2 w3] show ?thesis by auto
qed

theorem failed_delivery_deadlocks_witness:
  "\<exists>s. clients s 5 = Some (Some example_client) \<and> assembly_iteration 1 24 (-1) s = Some (Inl SelfDeadlock)"
proof -
  from example_received obtain r1 where
    r1: "rx_ok r1" "rx_active r1" "map_begin (available_messages r1) = Some 5" "complete r1 5" by blast
  let ?s = "\<lambda>t. (example_s3tp t)\<lparr>s_rx := r1, clients := [5 \<mapsto> Some example_client]\<rparr>"
  have s: "s_active (?s t)" "s_rx (?s t) = r1" "clients (?s t) 5 = Some (Some example_client)" for t
    by (simp_all add: example_s3tp_def)
  from failed_delivery_deadlocks [of "?s t" 5 example_client 1 24 "-1" for t] r1 s have
    "assembly_iteration 1 24 (-1) (?s t) = Some (Inl SelfDeadlock)" for t by auto
  with s(3) show ?thesis by blast
qed

text \<open>A port whose entry in the client map is the null pointer (the delivery of a message to a port without
  a client leaves one behind) makes the notification of the clients dereference it as soon as the
  link comes up, unless an earlier client's write fails first.\<close>

lemma null_client_entry_breaks_notification:
  assumes "tx_ok (s_tx s)" "clients s p = Some None"
    and "\<forall>q c. clients s q = Some (Some c) \<longrightarrow> 0 \<le> fst (w q) \<and> 0 < snd (w q)"
  shows "onLinkStatusChanged w True s = Inl NullDeref"
proof -
  have loop: "notify_loop (\<lambda>_. True) w ps (clients s) = Inl NullDeref" if "p \<in> set ps" for ps
    using that
  proof (induction ps)
    case (Cons q ps)
    show ?case
    proof (cases "\<exists>c. clients s q = Some (Some c)")
      case True
      then obtain c where c: "clients s q = Some (Some c)" by blast
      then have "q \<noteq> p" using assms(2) by auto
      moreover have "under_clients_mutex (sendControlMessage (fst (w q)) (snd (w q)) m c) =
          Inr (0, [WriteType 0xFF, WriteControl m], c)" for m
        using assms(3) c by (auto simp: under_clients_mutex_def sendControlMessage_def Let_def)
      ultimately show ?thesis using Cons c by simp
    next
      case False
      then show ?thesis by (auto split: option.splits)
    qed
  qed simp
  have "\<not> map_empty (clients s)" using assms(2) by (auto simp: map_empty_iff)
  moreover have "p_payload (syncPacket (s_tx s)) \<noteq> []" using assms(1) by (auto simp: tx_ok_def sync_packet_ok_def)
  then obtain t where "scheduleSync S3TP_SYNC_INITIATOR (s_tx s) = Inr t" by (simp add: scheduleSync_def)
  moreover have "p \<in> set (map_keys (clients s))" using assms(2) by auto
  ultimately show ?thesis
    using loop by (simp add: onLinkStatusChanged_def s3tp_synchronizeStatus_def notifyAvailabilityToClients_def)
qed

lemma cleanup_loop_ok:
  assumes "distinct ps" "\<forall>p \<in> set ps. \<exists>c. m p = Some (Some c) \<and> \<not> connected c \<and> app_port c = p"
  shows "cleanup_loop ps m = Inr (\<lambda>q. if q \<in> set ps then None else m q)"
  using assms
proof (induction ps arbitrary: m)
  case (Cons p ps)
  then obtain c where c: "m p = Some (Some c)" "\<not> connected c" "app_port c = p" by auto
  have "cleanup_loop ps (m(p := None)) = Inr (\<lambda>q. if q \<in> set ps then None else (m(p := None)) q)"
    by (rule Cons.IH) (use Cons.prems in auto)
  then show ?case
    using c by (simp add: under_clients_mutex_def client_kill_def isConnected_def getAppPort_def fun_eq_iff)
qed simp

text \<open>A client that was reported twice leaves a null pointer behind.\<close>

lemma cleanup_of_double_report:
  assumes "m p = Some (Some c)" "\<not> connected c" "app_port c = p"
  shows "cleanup_loop [p, p] m = Inr (m(p \<mapsto> None))"
  using assms by (simp add: under_clients_mutex_def client_kill_def isConnected_def getAppPort_def)

text \<open>The cleanup removes exactly the clients that were reported as disconnected, each reported once, and
  forgets the reports; the other entries are kept and no null pointer appears.\<close>

lemma cleanup_frees_disconnected_ports:
  assumes "distinct (disconnectedClients s)"
    and "\<forall>p \<in> set (disconnectedClients s). \<exists>c. clients s p = Some (Some c) \<and> \<not> connected c \<and> app_port c = p"
  shows "\<exists>s'. cleanupClients s = Inr s' \<and> disconnectedClients s' = [] \<and>
    (\<forall>p. clients s' p = (if p \<in> set (disconnectedClients s) then None else clients s p)) \<and>
    (\<forall>p \<in> set (disconnectedClients s). getClientConnectedToPort p s' = None)"
  using cleanup_loop_ok [OF assms] by (auto simp: cleanupClients_def getClientConnectedToPort_def)

end
