(* ===== verification/End_To_End.thy ===== *)
theory End_To_End
  imports S3tp_Main
begin

text \<open>
  From one protocol object to another: a sequence of messages is given to the sender, its transmission
  thread hands the frames to the link, the receiver gets them in any order. This theory holds the
  lemmas that connect the numbering of the sender with what the receiver expects.
\<close>

section \<open>Sending a sequence of messages\<close>

primrec send_all ::
  "(nat \<Rightarrow> S3TP_PACKET) \<Rightarrow> u8 \<Rightarrow> u8 \<Rightarrow> u8 \<Rightarrow> u8 list list \<Rightarrow> S3TP \<Rightarrow> (int list \<times> S3TP) result" where
  "send_all g channel port opts [] s = Inr ([], s)"
| "send_all g channel port opts (d # ds) s =
     bind_res (sendToLinkLayer g channel port d (length d) opts s) (\<lambda>(rc, s1).
     bind_res (send_all g channel port opts ds s1) (\<lambda>(rcs, s2). Inr (rc # rcs, s2)))"

fun packets_for :: "u8 \<Rightarrow> u8 \<Rightarrow> u8 \<Rightarrow> u8 \<Rightarrow> u8 list list \<Rightarrow> S3TP_PACKET list list \<Rightarrow> bool" where
  "packets_for sq port channel opts [] [] = True"
| "packets_for sq port channel opts (d # ds) (ms # mss) =
     (message_packets sq port channel opts d ms \<and> length ms \<le> 2 \<and>
      packets_for (sq + of_nat (length ms)) port channel opts ds mss)"
| "packets_for sq port channel opts _ _ = False"

lemma tx_port_sequence_advance:
  assumes "tx_ok t" "tx_ok t'" "tx_frame t t'" "tx_view t' p = tx_view t p @ xs"
  shows "at0 (port_sequence t') p = at0 (port_sequence t) p + of_nat (length xs)"
proof -
  have "tx_port_ok t p" "tx_port_ok t' p" using assms(1,2) by (simp_all add: tx_ok_def)
  then show ?thesis using tx_frame_fields(6) [OF assms(3)] assms(4) by (simp add: tx_port_ok_def add_ac)
qed

text \<open>The messages \<open>ds\<close> were queued, as the fragments \<open>mss\<close>.\<close>

definition queued_all :: "u8 \<Rightarrow> u8 \<Rightarrow> u8 \<Rightarrow> u8 list list \<Rightarrow> S3TP_PACKET list list \<Rightarrow> S3TP \<Rightarrow> S3TP \<Rightarrow> bool" where
  "queued_all channel port opts ds mss s s' \<longleftrightarrow> can_send channel port s' \<and> tx_frame (s_tx s) (s_tx s') \<and>
     tx_view (s_tx s') = (tx_view (s_tx s))(port := tx_view (s_tx s) port @ concat mss) \<and>
     packets_for (at0 (port_sequence (s_tx s)) port) port channel opts ds mss"

lemma queued_all_Nil: "can_send channel port s \<Longrightarrow> queued_all channel port opts [] [] s s"
  by (simp add: queued_all_def)

lemma queued_all_Cons:
  assumes "can_send channel port s" "can_send channel port s1" "tx_frame (s_tx s) (s_tx s1)" "length xs \<le> 2"
    and "tx_view (s_tx s1) = (tx_view (s_tx s))(port := tx_view (s_tx s) port @ xs)"
    and "message_packets (at0 (port_sequence (s_tx s)) port) port channel opts d xs"
    and "queued_all channel port opts ds mss s1 s2"
  shows "queued_all channel port opts (d # ds) (xs # mss) s s2"
proof -
  have "at0 (port_sequence (s_tx s1)) port = at0 (port_sequence (s_tx s)) port + of_nat (length xs)"
    using assms(1-3,5) by (intro tx_port_sequence_advance) (simp_all add: can_send_def)
  with assms show ?thesis using tx_frame_trans [of "s_tx s" "s_tx s1" "s_tx s2"] by (simp add: queued_all_def)
qed

lemma send_all_ok:
  assumes "can_send channel port s" "\<forall>d \<in> set ds. length d \<le> 1984"
    and "length (tx_view (s_tx s) port) + 2 * length ds \<le> 256"
  shows "\<exists>s' mss. send_all g channel port opts ds s = Inr (replicate (length ds) 0, s') \<and>
    queued_all channel port opts ds mss s s'"
  using assms
proof (induction ds arbitrary: s)
  case Nil
  then show ?case using queued_all_Nil [of channel port s opts] by (intro exI [of _ s] exI [of _ "[]"]) simp
next
  case (Cons d ds)
  have "length (tx_view (s_tx s) port) + 2 \<le> 256" "length d \<le> 1984" using Cons.prems by simp_all
  from sendToLinkLayer_queues [OF Cons.prems(1) this, of d g opts] obtain t1 xs where
    t1: "sendToLinkLayer g channel port d (length d) opts s = Inr (0, s\<lparr>s_tx := t1\<rparr>)"
      "can_send channel port (s\<lparr>s_tx := t1\<rparr>)" "tx_frame (s_tx s) t1"
      "tx_view t1 = (tx_view (s_tx s))(port := tx_view (s_tx s) port @ xs)" "length xs \<le> 2"
      "message_packets (at0 (port_sequence (s_tx s)) port) port channel opts d xs"
    by (auto split: if_splits)
  have "length (tx_view (s_tx (s\<lparr>s_tx := t1\<rparr>)) port) + 2 * length ds \<le> 256" "\<forall>d \<in> set ds. length d \<le> 1984"
    using Cons.prems(2,3) t1(4,5) by simp_all
  with Cons.IH [OF t1(2)] obtain s' mss where
    s': "send_all g channel port opts ds (s\<lparr>s_tx := t1\<rparr>) = Inr (replicate (length ds) 0, s')"
      "queued_all channel port opts ds mss (s\<lparr>s_tx := t1\<rparr>) s'" by blast
  have "queued_all channel port opts (d # ds) (xs # mss) s s'"
    by (rule queued_all_Cons [OF Cons.prems(1) t1(2) _ t1(5) _ t1(6) s'(2)]) (use t1 in simp_all)
  with t1(1) s'(1) show ?case by auto
qed

lemma packets_for_length: "packets_for sq port channel opts ds mss \<Longrightarrow>
    length mss = length ds \<and> length (concat mss) \<le> 2 * length ds"
  by (induction sq port channel opts ds mss rule: packets_for.induct) auto

lemma packets_for_last:
  "packets_for sq port channel opts ds mss \<Longrightarrow> concat mss \<noteq> [] \<Longrightarrow> moreFragments (p_header (last (concat mss))) = 0"
proof (induction sq port channel opts ds mss rule: packets_for.induct)
  case (2 sq port channel opts d ds ms mss)
  have "whole_message xs \<Longrightarrow> moreFragments (p_header (last xs)) = 0 \<and> xs \<noteq> []" for xs
    by (induction xs rule: whole_message.induct) auto
  with 2 show ?case by (auto simp: message_packets_def last_append)
qed auto

section \<open>The same packets on the other side\<close>

text \<open>Packets that differ at most in the stamped global sequence number and in the options member.\<close>

definition same_wire :: "S3TP_PACKET \<Rightarrow> S3TP_PACKET \<Rightarrow> bool" where
  "same_wire x y \<longleftrightarrow> stamp 0 (x\<lparr>p_options := 0\<rparr>) = stamp 0 (y\<lparr>p_options := 0\<rparr>)"

lemma same_wireD:
  assumes "same_wire x y"
  shows "seq_of y = seq_of x" "getPort (p_header y) = getPort (p_header x)"
    "getSubSequence (p_header y) = getSubSequence (p_header x)"
    "moreFragments (p_header y) = moreFragments (p_header x)"
    "getPduLength (p_header y) = getPduLength (p_header x)" "p_payload y = p_payload x"
    "getMessageType (p_header y) = getMessageType (p_header x)" "h_crc (p_header y) = h_crc (p_header x)"
proof -
  have field: "f (stamp 0 (x\<lparr>p_options := 0\<rparr>)) = f (stamp 0 (y\<lparr>p_options := 0\<rparr>))" for f :: "S3TP_PACKET \<Rightarrow> 'a"
    using assms by (simp add: same_wire_def)
  show "seq_of y = seq_of x" using field [of seq_of] by simp
  show "getPort (p_header y) = getPort (p_header x)" using field [of "getPort \<circ> p_header"] by simp
  show "getSubSequence (p_header y) = getSubSequence (p_header x)" using field [of "getSubSequence \<circ> p_header"] by simp
  show "moreFragments (p_header y) = moreFragments (p_header x)" using field [of "moreFragments \<circ> p_header"] by simp
  show "getPduLength (p_header y) = getPduLength (p_header x)" using field [of "getPduLength \<circ> p_header"] by simp
  show "p_payload y = p_payload x" using field [of p_payload] by simp
  show "getMessageType (p_header y) = getMessageType (p_header x)" using field [of "getMessageType \<circ> p_header"] by simp
  show "h_crc (p_header y) = h_crc (p_header x)" using field [of "\<lambda>x. h_crc (p_header x)"] by simp
qed

lemma same_wire_fits: "same_wire x y \<Longrightarrow> pkt_wf x \<Longrightarrow> fits y \<and> body y = p_payload x"
  using same_wireD(5,6) [of x y] by (simp add: pkt_wf_def fits_def body_def)

lemma whole_message_same: "list_all2 same_wire xs ys \<Longrightarrow> whole_message ys = whole_message xs"
proof (induction xs arbitrary: ys rule: whole_message.induct)
  case (3 x y zs)
  from 3(2) obtain x' y' zs' where ys: "ys = x' # y' # zs'" "same_wire x x'" "list_all2 same_wire (y # zs) (y' # zs')"
    by (auto simp: list_all2_Cons1)
  from 3(1) [OF ys(3)] same_wireD(4) [OF ys(2)] show ?case by (simp add: ys(1))
qed (auto simp: list_all2_Cons1 same_wireD)

lemma numbered_same: "list_all2 same_wire xs ys \<Longrightarrow> numbered s xs \<Longrightarrow> numbered s ys"
proof -
  assume a: "list_all2 same_wire xs ys" and n: "numbered s xs"
  have len: "length ys = length xs" using a by (simp add: list_all2_lengthD)
  have "map seq_of ys = map seq_of xs"
    using a by (induction rule: list_all2_induct) (simp_all add: same_wireD)
  moreover have "getSubSequence (p_header (ys ! i)) = getSubSequence (p_header (xs ! i))" if "i < length xs" for i
    using a that by (metis list_all2_nthD same_wireD(3))
  ultimately show ?thesis using n len by (simp add: numbered_def)
qed

lemma list_all2_concatD:
  "list_all2 P (concat xss) zs \<Longrightarrow> \<exists>zss. zs = concat zss \<and> list_all2 (list_all2 P) xss zss"
proof (induction xss arbitrary: zs)
  case (Cons xs xss)
  then obtain us vs where "zs = us @ vs" "list_all2 P xs us" "list_all2 P (concat xss) vs"
    by (auto simp: list_all2_append1)
  with Cons.IH [of vs] obtain vss where "vs = concat vss" "list_all2 (list_all2 P) xss vss" by blast
  with \<open>zs = us @ vs\<close> \<open>list_all2 P xs us\<close> show ?case by (intro exI [of _ "us # vss"]) simp
qed simp

text \<open>What the receiver makes of one message of the sender.\<close>

lemma message_packets_received:
  assumes "message_packets sq port channel opts d xs" "list_all2 same_wire xs ys"
  shows "whole_message ys" "numbered sq ys" "concat (map body ys) = d"
    "(\<Sum>y\<leftarrow>ys. getPduLength (p_header y)) = of_nat (length d)"
    "\<forall>y \<in> set ys. fits y \<and> h_crc (p_header y) = crc16 (body y) \<and> getMessageType (p_header y) = 0 \<and> getPort (p_header y) = port"
proof -
  from assms(1) have m: "whole_message xs" "numbered sq xs" "concat (map p_payload xs) = d"
    "\<forall>x \<in> set xs. pkt_wf x \<and> getPort (p_header x) = port \<and> getMessageType (p_header x) = 0 \<and> h_crc (p_header x) = crc16 (p_payload x)"
    by (simp_all add: message_packets_def)
  show "whole_message ys" "numbered sq ys" using m(1,2) whole_message_same [OF assms(2)] numbered_same [OF assms(2)] by simp_all
  have "map body ys = map p_payload xs \<and> map (\<lambda>y. getPduLength (p_header y)) ys = map (\<lambda>x. of_nat (length (p_payload x))) xs \<and>
    (\<forall>y \<in> set ys. fits y \<and> h_crc (p_header y) = crc16 (body y) \<and> getMessageType (p_header y) = 0 \<and> getPort (p_header y) = port)"
    using assms(2) m(4)
  proof (induction rule: list_all2_induct)
    case (Cons x xs y ys)
    have "getPduLength (p_header x) = of_nat (length (p_payload x))"
    proof -
      have "unat (getPduLength (p_header x)) = length (p_payload x)" using Cons.prems by (simp add: pkt_wf_def)
      then have "of_nat (unat (getPduLength (p_header x))) = (of_nat (length (p_payload x)) :: u16)" by simp
      then show ?thesis by simp
    qed
    with Cons same_wireD [OF Cons.hyps(1)] same_wire_fits [OF Cons.hyps(1)] show ?case by simp
  qed simp
  moreover have "(\<Sum>x\<leftarrow>xs. of_nat (length (p_payload x)) :: u16) = of_nat (length (concat (map p_payload xs)))"
    by (induction xs) simp_all
  ultimately show "concat (map body ys) = d" "(\<Sum>y\<leftarrow>ys. getPduLength (p_header y)) = of_nat (length d)"
    "\<forall>y \<in> set ys. fits y \<and> h_crc (p_header y) = crc16 (body y) \<and> getMessageType (p_header y) = 0 \<and> getPort (p_header y) = port"
    using m(3) by simp_all
qed

lemma packets_for_received:
  assumes "packets_for sq port channel opts ds mss" "list_all2 (list_all2 same_wire) mss zss"
    and "unat sq + length (concat mss) \<le> 256"
  shows "messages_from sq zss" "map (\<lambda>ms. msg_data (message_of port ms)) zss = map Some ds"
    "map (\<lambda>ms. msg_len (message_of port ms)) zss = map (\<lambda>d. of_nat (length d)) ds"
    "\<forall>y \<in> set (concat zss). fits y \<and> h_crc (p_header y) = crc16 (body y) \<and> getMessageType (p_header y) = 0 \<and> getPort (p_header y) = port"
proof -
  have "messages_from sq zss \<and> map (\<lambda>ms. msg_data (message_of port ms)) zss = map Some ds \<and>
    map (\<lambda>ms. msg_len (message_of port ms)) zss = map (\<lambda>d. of_nat (length d)) ds \<and>
    (\<forall>y \<in> set (concat zss). fits y \<and> h_crc (p_header y) = crc16 (body y) \<and> getMessageType (p_header y) = 0 \<and> getPort (p_header y) = port)"
    using assms
  proof (induction sq port channel opts ds mss arbitrary: zss rule: packets_for.induct)
    case (2 sq port channel opts d ds ms mss)
    from 2(3) obtain ys yss where z: "zss = ys # yss" "list_all2 same_wire ms ys" "list_all2 (list_all2 same_wire) mss yss"
      by (auto simp: list_all2_Cons1)
    have p: "message_packets sq port channel opts d ms" "packets_for (sq + of_nat (length ms)) port channel opts ds mss"
      using 2(2) by simp_all
    have len: "length ys = length ms" using z(2) by (simp add: list_all2_lengthD)
    note r = message_packets_received [OF p(1) z(2)]
    show ?case
    proof (cases "mss = []")
      case True
      then have "ds = []" "yss = []" using p(2) z(3) by (cases ds; simp)+
      then show ?thesis using r 2(4) len True by (simp add: z(1) message_of_def)
    next
      case False
      then have "concat mss \<noteq> []" using p(2) by (cases ds; cases mss) (auto simp: message_packets_def)
      then have "unat (sq + of_nat (length ms)) = unat sq + length ms"
        using 2(4) by (intro unat_add_of_nat_u8) (cases "concat mss"; simp)
      with 2(1) [OF p(2) z(3)] 2(4) r len show ?thesis by (simp add: z(1) message_of_def ball_Un)
    qed
  qed auto
  then show "messages_from sq zss" "map (\<lambda>ms. msg_data (message_of port ms)) zss = map Some ds"
    "map (\<lambda>ms. msg_len (message_of port ms)) zss = map (\<lambda>d. of_nat (length d)) ds"
    "\<forall>y \<in> set (concat zss). fits y \<and> h_crc (p_header y) = crc16 (body y) \<and> getMessageType (p_header y) = 0 \<and> getPort (p_header y) = port"
    by blast+
qed

section \<open>Sender, link and receiver\<close>

lemma of_port_all:
  assumes "\<forall>q. q \<noteq> p \<longrightarrow> of_port q xs = []"
  shows "of_port p xs = xs"
proof -
  have "getPort (p_header x) = p" if "x \<in> set xs" for x
  proof (rule ccontr)
    assume "getPort (p_header x) \<noteq> p"
    with assms have "of_port (getPort (p_header x)) xs = []" by blast
    with that show False by (auto simp: of_port_def filter_empty_conv)
  qed
  then show ?thesis by (simp add: of_port_def)
qed

text \<open>The transmission thread sends the packets of the only port in use, in order.\<close>

lemma tx_iterations_one_port:
  assumes "tx_ok t" "clear_way link t" "\<not> sendingFragments t" "tx_view t = (\<lambda>_. [])(p := xs)"
    and "xs \<noteq> [] \<longrightarrow> moreFragments (p_header (last xs)) = 0"
  shows "\<exists>sent t'. tx_iterations link (waiting t) t = Inr (sent, t') \<and> map (stamp 0) sent = map (stamp 0) xs \<and>
    (\<forall>x \<in> set sent. \<exists>k < length xs. getGlobalSequence (p_header x) = global_seq_num t + of_nat k)"
proof -
  have w: "waiting t = length xs"
    by (simp add: waiting_def assms(4) if_distrib [of length] sum.If_cases cong: if_cong)
  have "tx_whole t" using assms(3,5) by (simp add: tx_whole_def assms(4))
  from tx_iterations_drain [OF assms(1) this assms(2) refl] obtain sent t' where
    s: "tx_iterations link (waiting t) t = Inr (sent, t')"
    "\<forall>p. map (stamp 0) (of_port p sent) = map (stamp 0) (tx_view t p)"
    "\<forall>x \<in> set sent. \<exists>k < waiting t. getGlobalSequence (p_header x) = global_seq_num t + of_nat k" by blast
  have "of_port q sent = []" if "q \<noteq> p" for q using s(2) [rule_format, of q] that by (simp add: assms(4))
  then have "of_port p sent = sent" by (intro of_port_all) blast
  with s(2) [rule_format, of p] have "map (stamp 0) sent = map (stamp 0) xs" by (simp add: assms(4))
  with s(1,3) w show ?thesis by auto
qed

text \<open>The packet as the receiver decodes it: the options member is whatever was in memory.\<close>

definition arrives :: "(S3TP_PACKET \<Rightarrow> u8) \<Rightarrow> S3TP_PACKET \<Rightarrow> S3TP_PACKET" where
  "arrives opt x = x\<lparr>p_options := opt x\<rparr>"

lemma rx_frame_arrives: "rx_frame (arrives opt x) = (opt x, f_channel (frame_for x), f_data (frame_for x))"
  by (simp add: rx_frame_def arrives_def frame_for_def)

lemma same_wire_arrives: "stamp 0 x = stamp 0 y \<Longrightarrow> same_wire y (arrives opt x)"
  by (simp add: same_wire_def arrives_def stamp_def) (cases x, cases y, simp)

lemma sent_same_wire:
  "map (stamp 0) sent = map (stamp 0) xs \<Longrightarrow> list_all2 same_wire xs (map (arrives opt) sent)"
  by (auto simp: list_all2_conv_all_nth same_wire_arrives dest: map_eq_imp_length_eq)
     (metis length_map nth_map same_wire_arrives)

section \<open>The two sides of the transfer\<close>

text \<open>
  What the transmission thread sends for the fragments \<open>mss\<close>: the same packets, numbered from \<open>g\<close> on.
\<close>

definition sent_copies :: "u8 \<Rightarrow> S3TP_PACKET list list \<Rightarrow> S3TP_PACKET list \<Rightarrow> bool" where
  "sent_copies g mss sent \<longleftrightarrow> map (stamp 0) sent = map (stamp 0) (concat mss) \<and>
     (\<forall>x \<in> set sent. \<exists>k < length (concat mss). getGlobalSequence (p_header x) = g + of_nat k)"

lemma transmission_phase:
  assumes "queued_all channel p opts ds mss s s'" "\<forall>q. tx_view (s_tx s) q = []" "\<not> sendingFragments (s_tx s)"
    "clear_way link (s_tx s)"
  shows "\<exists>sent t'. tx_iterations link (waiting (s_tx s')) (s_tx s') = Inr (sent, t') \<and>
    sent_copies (global_seq_num (s_tx s)) mss sent"
proof -
  from assms(1) have s': "can_send channel p s'" "tx_frame (s_tx s) (s_tx s')"
    "tx_view (s_tx s') = (tx_view (s_tx s))(p := tx_view (s_tx s) p @ concat mss)"
    "packets_for (at0 (port_sequence (s_tx s)) p) p channel opts ds mss" by (simp_all add: queued_all_def)
  have view: "tx_view (s_tx s') = (\<lambda>_. [])(p := concat mss)" using assms(2) by (auto simp: s'(3))
  from tx_iterations_one_port [of "s_tx s'" link p "concat mss"] view packets_for_last [OF s'(4)] s'(1) assms(3,4)
    tx_frame_fields [OF s'(2)]
  show ?thesis by (auto simp: can_send_def clear_way_def sent_copies_def)
qed

lemma sender_phase:
  assumes "can_send channel p s" "\<forall>q. tx_view (s_tx s) q = []" "\<not> sendingFragments (s_tx s)"
    "clear_way link (s_tx s)" "\<forall>d \<in> set ds. length d \<le> 1984" "2 * length ds \<le> 256"
  shows "\<exists>s' mss sent t'. send_all g channel p opts ds s = Inr (replicate (length ds) 0, s') \<and>
    tx_iterations link (waiting (s_tx s')) (s_tx s') = Inr (sent, t') \<and>
    packets_for (at0 (port_sequence (s_tx s)) p) p channel opts ds mss \<and>
    sent_copies (global_seq_num (s_tx s)) mss sent"
proof -
  have "length (tx_view (s_tx s) p) + 2 * length ds \<le> 256" using assms(2,6) by simp
  from send_all_ok [OF assms(1,5) this, of g opts] obtain s' mss where
    s': "send_all g channel p opts ds s = Inr (replicate (length ds) 0, s')" "queued_all channel p opts ds mss s s'" by blast
  with transmission_phase [OF s'(2) assms(2-4)] show ?thesis unfolding queued_all_def by blast
qed

lemma sent_copies_in_window:
  assumes "sent_copies (to_consume_global_seq r) mss sent" "length (concat mss) < 128" "x \<in> set sent"
  shows "in_window r (arrives opt x)"
proof -
  from assms(1,3) obtain k where
    k: "k < length (concat mss)" "getGlobalSequence (p_header x) = to_consume_global_seq r + of_nat k"
    unfolding sent_copies_def by blast
  have "k < 128" using k(1) assms(2) by linarith
  then have "uint (of_nat k :: u8) \<le> 128" using uint_nat [of "of_nat k :: u8"] by (simp add: unat_of_nat_u8)
  with k(2) show ?thesis by (simp add: in_window_def arrives_def)
qed

lemma receiver_phase:
  assumes receiver: "rx_ok r" "rx_active r" "open_ports r p \<noteq> None" "rx_view r p = []" "available_messages r = Map.empty"
    and sent: "packets_for (at0 (current_port_sequence r) p) p channel opts ds mss"
      "sent_copies (to_consume_global_seq r) mss sent"
    and room: "unat (at0 (current_port_sequence r) p) + 2 * length ds \<le> 256"
      "unat (receiving_window r) + 2 * length ds < 128"
    and ys: "mset ys = mset sent"
  shows "\<exists>r1 msgs r2. rx_feed (map (\<lambda>x. (opt x, f_channel (frame_for x), f_data (frame_for x))) ys) r = Inr r1 \<and>
    rx_consume (length ds) r1 = Some (Inr (msgs, r2)) \<and> rx_ok r2 \<and> map msg_data msgs = map Some ds \<and>
    map msg_len msgs = map (\<lambda>d. of_nat (length d)) ds \<and> (\<forall>m \<in> set msgs. msg_error m = 0 \<and> msg_port m = p)"
proof -
  have copies: "map (stamp 0) sent = map (stamp 0) (concat mss)" using sent(2) by (simp add: sent_copies_def)
  have len: "length (concat mss) \<le> 2 * length ds" "length mss = length ds" using packets_for_length [OF sent(1)] by simp_all
  from list_all2_concatD [OF sent_same_wire [OF copies, of opt]] obtain zss where
    zss: "map (arrives opt) sent = concat zss" "list_all2 (list_all2 same_wire) mss zss" by blast
  have "unat (at0 (current_port_sequence r) p) + length (concat mss) \<le> 256" using room(1) len by simp
  note rc = packets_for_received [OF sent(1) zss(2) this]
  have n: "length zss = length ds" using zss(2) len(2) by (simp add: list_all2_lengthD)
  have nz: "length (concat zss) \<le> 2 * length ds" using len(1) map_eq_imp_length_eq [OF copies] zss(1) by (metis length_map)
  have "in_window r z" if "z \<in> set (concat zss)" for z
    using that sent_copies_in_window [OF sent(2), of _ opt] len(1) room(2) unfolding zss(1) [symmetric] by auto
  then have "\<forall>x \<in> set (concat zss). valid_data r x \<and> getPort (p_header x) = p \<and> in_window r x"
    using rc(4) receiver(3) by (auto simp: valid_data_def)
  moreover have "mset (map (arrives opt) ys) = mset (concat zss)" using ys zss(1) by (metis mset_map)
  moreover have "unat (receiving_window r) + length (concat zss) < 128" using nz room(2) by linarith
  ultimately have "\<exists>r1 r2. rx_feed (map rx_frame (map (arrives opt) ys)) r = Inr r1 \<and>
      rx_consume (length zss) r1 = Some (Inr (map (message_of p) zss, r2)) \<and> rx_ok r2"
    using rx_in_order [OF receiver(1,2,4,5)] rc(1) by blast
  moreover have feed: "map rx_frame (map (arrives opt) ys) = map (\<lambda>x. (opt x, f_channel (frame_for x), f_data (frame_for x))) ys"
    by (simp add: rx_frame_arrives)
  ultimately show ?thesis unfolding n feed using rc(2,3) by (fastforce simp: message_of_def comp_def)
qed

end
