(* ===== verification/Daemon.thy ===== *)
theory Daemon
  imports S3tp_Main
begin

text \<open>
  The daemon, \<^verbatim>\<open>core/TransportDaemon.cpp\<close>: it opens its socket, starts the protocol object and then
  accepts applications one by one, each on its own port. Results of the socket calls are arguments,
  what the daemon does with the new socket is listed. The second half composes the accept loop with the
  threads of the clients and the assembly thread into one step relation on the protocol object.
\<close>

section \<open>The accept loop\<close>

text \<open>\<open>sock\<close> and \<open>bnd\<close> are the results of \<^verbatim>\<open>socket\<close> and \<^verbatim>\<open>bind\<close>; the result of the protocol's own
  initialisation is not looked at.\<close>

definition daemon_init :: "int \<Rightarrow> int \<Rightarrow> S3TP \<Rightarrow> (int \<times> S3TP) result" where
  "daemon_init sock bnd s =
     (if sock < 0 then Inr (CODE_ERROR_SOCKET_CREATE, s)
      else if bnd \<noteq> 0 then Inr (CODE_ERROR_SOCKET_BIND, s)
      else bind_res (s3tp_init s) (\<lambda>(_, s'). Inr (CODE_SUCCESS, s')))"

record AcceptInput =
  ac_socket :: int
  ac_rd :: int
  ac_config :: S3TP_CONFIG
  ac_wr :: int

datatype DaemonOp = WriteCode int | CloseNewSocket | StartClient Client

text \<open>The calls a client makes to its listener, the protocol object.\<close>

primrec listener_calls :: "ListenerCall list \<Rightarrow> Client \<Rightarrow> S3TP \<Rightarrow> S3TP result" where
  "listener_calls [] cli s = Inr s"
| "listener_calls (call # calls) cli s =
     bind_res (case call of OnConnected \<Rightarrow> onConnected cli s | OnDisconnected \<Rightarrow> onDisconnected cli s) (\<lambda>s'.
       listener_calls calls cli s')"

text \<open>One pass of the accept loop.\<close>

definition daemon_pass :: "AcceptInput \<Rightarrow> S3TP \<Rightarrow> (DaemonOp list \<times> S3TP) result" where
  "daemon_pass inp s =
     (if ac_socket inp < 0 then Inr ([], s)
      else
        bind_res (cleanupClients s) (\<lambda>s1.
        if ac_rd inp \<le> 0 then Inr ([CloseNewSocket], s1)
        else if getClientConnectedToPort (cfg_port (ac_config inp)) s1 \<noteq> None then
          Inr (WriteCode CODE_SERVER_PORT_BUSY # (if ac_wr inp \<noteq> 0 then [CloseNewSocket] else []), s1)
        else if ac_wr inp = 0 then Inr ([WriteCode CODE_SERVER_ACCEPT], s1)
        else if ac_wr inp < 0 then Inr ([WriteCode CODE_SERVER_ACCEPT, CloseNewSocket], s1)
        else
          case client_new (ac_config inp) of (cli, calls) \<Rightarrow>
            bind_res (listener_calls calls cli s1) (\<lambda>s2.
            Inr ([WriteCode CODE_SERVER_ACCEPT, StartClient cli], s2))))"

text \<open>The daemon over a sequence of connections; it never returns by itself.\<close>

primrec startDaemon :: "AcceptInput list \<Rightarrow> S3TP \<Rightarrow> (DaemonOp list list \<times> S3TP) result" where
  "startDaemon [] s = Inr ([], s)"
| "startDaemon (inp # inps) s =
     bind_res (daemon_pass inp s) (\<lambda>(ops, s1). bind_res (startDaemon inps s1) (\<lambda>(opss, s2). Inr (ops # opss, s2)))"

lemma new_client_listed:
  "(case client_new cfg of (cli, calls) \<Rightarrow> bind_res (listener_calls calls cli s) (f cli)) =
    bind_res (onConnected (fst (client_new cfg)) s) (f (fst (client_new cfg)))"
  by (cases "onConnected (fst (client_new cfg)) s") (simp_all add: client_new_def)

section \<open>The running daemon\<close>

text \<open>
  The steps of the running daemon: a pass of the accept loop, a pass of the thread of a connected
  client, a pass of the assembly thread, a frame from the link.
\<close>

inductive daemon_step :: "S3TP \<Rightarrow> S3TP \<Rightarrow> bool" where
  accept: "daemon_pass inp s = Inr (ops, s') \<Longrightarrow> daemon_step s s'"
| client: "clients s p = Some (Some cli) \<Longrightarrow> connected cli \<Longrightarrow>
    client_iteration (onApplicationMessage g cli) inp cli s = Inr (e, ops, calls, cli', s1) \<Longrightarrow>
    listener_calls calls cli' (s1\<lparr>clients := (clients s1)(p \<mapsto> Some cli')\<rparr>) = Inr s' \<Longrightarrow> daemon_step s s'"
| assembly: "assembly_iteration w1 w2 w3 s = Some (Inr (e, s')) \<Longrightarrow> daemon_step s s'"
| frame: "s3tp_handleFrame w opt ch fr s = Inr (rc, s') \<Longrightarrow> daemon_step s s'"

inductive_cases daemon_stepE: "daemon_step s s'"

inductive daemon_reach :: "S3TP \<Rightarrow> bool" where
  start: "s3tp_new g si a a' = Inr s \<Longrightarrow> daemon_init sock bnd s = Inr (0, s') \<Longrightarrow> daemon_reach s'"
| step: "daemon_reach s \<Longrightarrow> daemon_step s s' \<Longrightarrow> daemon_reach s'"

text \<open>
  The bookkeeping of ports: a client is listed under its own port and has its listener; a port is open
  for reception exactly while its client is connected; the reports name exactly the clients that are
  listed but no longer connected, once each.
\<close>

definition ports_ok :: "S3TP \<Rightarrow> bool" where
  "ports_ok s \<longleftrightarrow> rx_active (s_rx s) \<and> distinct (disconnectedClients s) \<and>
     (\<forall>p c. clients s p = Some (Some c) \<longrightarrow> app_port c = p \<and> client_if c) \<and>
     (\<forall>p. open_ports (s_rx s) p \<noteq> None \<longleftrightarrow> (\<exists>c. clients s p = Some (Some c) \<and> connected c)) \<and>
     (\<forall>p. p \<in> set (disconnectedClients s) \<longleftrightarrow> (\<exists>c. clients s p = Some (Some c) \<and> \<not> connected c))"

section \<open>What the operations leave alone\<close>

definition tx_only :: "S3TP \<Rightarrow> S3TP \<Rightarrow> bool" where
  "tx_only s s' \<longleftrightarrow> s_rx s' = s_rx s \<and> clients s' = clients s \<and> disconnectedClients s' = disconnectedClients s"

lemma tx_only_refl [simp]: "tx_only s s"
  by (simp add: tx_only_def)

lemma tx_only_upd [simp]: "tx_only s (s\<lparr>s_tx := t\<rparr>)"
  by (simp add: tx_only_def)

lemma tx_only_trans: "tx_only s s1 \<Longrightarrow> tx_only s1 s2 \<Longrightarrow> tx_only s s2"
  by (simp add: tx_only_def)

lemma ports_ok_tx_only: "tx_only s s' \<Longrightarrow> ports_ok s' \<longleftrightarrow> ports_ok s"
  by (simp add: tx_only_def ports_ok_def)

lemma checkTransmissionAvailability_tx_only:
  "checkTransmissionAvailability port channel n s = (rc, s') \<Longrightarrow> tx_only s s'"
  by (auto simp: checkTransmissionAvailability_def Let_def split: if_splits prod.splits)

lemma onApplicationMessage_tx_only:
  assumes "onApplicationMessage g cli data len s = Inr (rc, s')"
  shows "tx_only s s'"
proof -
  obtain rc1 s1 where c: "checkTransmissionAvailability (getAppPort cli) (getVirtualChannel cli) (of_nat len) s = (rc1, s1)"
    by fastforce
  have "tx_only s1 s'" if "s_active s" using assms c that
    by (auto simp: onApplicationMessage_def sendToLinkLayer_def split: if_splits)
  with assms checkTransmissionAvailability_tx_only [OF c] show ?thesis
    by (cases "s_active s") (auto simp: onApplicationMessage_def sendToLinkLayer_def intro: tx_only_trans)
qed

lemma s3tp_synchronizeStatus_tx_only: "s3tp_synchronizeStatus i s = Inr s' \<Longrightarrow> tx_only s s'"
  by (auto simp: s3tp_synchronizeStatus_def split: if_splits)

lemma s3tp_status_tx_only: "s3tp_status w ev s = Inr (out, s') \<Longrightarrow> tx_only s s'"
  by (cases ev)
     (auto simp: s3tp_status_def onLinkStatusChanged_def onChannelStatusChanged_def onSynchronization_def Let_def
       intro: s3tp_synchronizeStatus_tx_only split: if_splits)

lemma s3tp_statuses_tx_only: "s3tp_statuses w evs s = Inr s' \<Longrightarrow> tx_only s s'"
  by (induction evs arbitrary: s) (auto dest!: s3tp_status_tx_only intro: tx_only_trans)

text \<open>Receiving and consuming leave the open ports alone.\<close>

definition same_ports :: "RxModule \<Rightarrow> RxModule \<Rightarrow> bool" where
  "same_ports r r' \<longleftrightarrow> open_ports r' = open_ports r \<and> rx_active r' = rx_active r"

lemma ports_ok_same_ports: "same_ports (s_rx s) r \<Longrightarrow> ports_ok (s\<lparr>s_rx := r\<rparr>) \<longleftrightarrow> ports_ok s"
  by (simp add: same_ports_def ports_ok_def)

lemma isComplete_same_ports: "same_ports r (snd (isCompleteMessageForPortAvailable p r))"
  by (simp add: same_ports_def isCompleteMessageForPortAvailable_def split: prod.splits)

lemma same_ports_trans: "same_ports r r1 \<Longrightarrow> same_ports r1 r2 \<Longrightarrow> same_ports r r2"
  by (simp add: same_ports_def)

lemma rx_announce_same_ports: "same_ports r (rx_announce p r)"
  using isComplete_same_ports [of r p]
  by (auto simp: rx_announce_def same_ports_def split: prod.splits)

lemma rx_after_message_same_ports: "same_ports r (rx_after_message p r)"
  using isComplete_same_ports [of r p]
  by (auto simp: rx_after_message_def same_ports_def split: prod.splits)

lemma rx_window_same_ports: "rx_window q r = Inr r' \<Longrightarrow> same_ports r r'"
  by (auto simp: rx_window_def same_ports_def flushQueues_def Let_def split: if_splits)

lemma handleReceivedPacket_same_ports: "handleReceivedPacket x r = Inr (rc, ev, r') \<Longrightarrow> same_ports r r'"
  using rx_announce_same_ports
  by (auto simp: handleReceivedPacket_def rx_synchronizeStatus_def rx_locked_def Let_def same_ports_def
      dest!: rx_window_same_ports split: if_splits)

lemma handleFrame_same_ports: "handleFrame opt ch fr r = Inr (rc, ev, r') \<Longrightarrow> same_ports r r'"
  by (auto simp: handleFrame_def same_ports_def dest!: handleReceivedPacket_same_ports split: if_splits)

lemma getNextCompleteMessage_same_ports: "getNextCompleteMessage r = Some (Inr (m, r')) \<Longrightarrow> same_ports r r'"
  using rx_after_message_same_ports
  by (auto simp: getNextCompleteMessage_def same_ports_def Let_def split: if_splits option.splits sum.splits prod.splits)

section \<open>The bookkeeping is kept\<close>

lemma client_iteration_end:
  assumes "client_iteration app inp cli s = Inr (e, ops, calls, cli', s1)" "connected cli" "client_if cli"
    and "\<And>data len rc s'. app data len s = Inr (rc, s') \<Longrightarrow> tx_only s s'"
  shows "tx_only s s1 \<and> (calls = [] \<and> cli' = cli \<or> calls = [OnDisconnected] \<and> cli' = cli\<lparr>connected := False\<rparr>)"
  using assms
  by (auto simp: client_iteration_def isConnected_def client_closing sendControlMessage_def Let_def
      split: if_splits option.splits prod.splits)

lemma cleanupClients_ports:
  assumes "ports_ok s"
  shows "cleanupClients s =
    Inr (s\<lparr>clients := (\<lambda>q. if q \<in> set (disconnectedClients s) then None else clients s q), disconnectedClients := []\<rparr>)"
    and "ports_ok (s\<lparr>clients := (\<lambda>q. if q \<in> set (disconnectedClients s) then None else clients s q), disconnectedClients := []\<rparr>)"
proof -
  have "\<forall>p \<in> set (disconnectedClients s). \<exists>c. clients s p = Some (Some c) \<and> \<not> connected c \<and> app_port c = p"
    using assms by (auto simp: ports_ok_def)
  moreover have "distinct (disconnectedClients s)" using assms by (simp add: ports_ok_def)
  ultimately show "cleanupClients s =
    Inr (s\<lparr>clients := (\<lambda>q. if q \<in> set (disconnectedClients s) then None else clients s q), disconnectedClients := []\<rparr>)"
    by (simp add: cleanupClients_def cleanup_loop_ok)
  show "ports_ok (s\<lparr>clients := (\<lambda>q. if q \<in> set (disconnectedClients s) then None else clients s q), disconnectedClients := []\<rparr>)"
    using assms by (auto simp: ports_ok_def)
qed

lemma onConnected_ports:
  assumes "ports_ok s" "getClientConnectedToPort (cfg_port cfg) s = None" "onConnected (fst (client_new cfg)) s = Inr s'"
  shows "ports_ok s'" "clients s' = (clients s)(cfg_port cfg \<mapsto> Some (fst (client_new cfg)))"
    "open_ports (s_rx s') (cfg_port cfg) \<noteq> None"
proof -
  let ?p = "cfg_port cfg" and ?c = "fst (client_new cfg)"
  have c: "app_port ?c = ?p" "connected ?c" "client_if ?c" by (simp_all add: client_new_def)
  have none: "\<not> (\<exists>c. clients s ?p = Some (Some c))"
    using assms(2) by (auto simp: getClientConnectedToPort_def split: option.splits)
  then have "open_ports (s_rx s) ?p = None" using assms(1) by (auto simp: ports_ok_def)
  with assms(1,3) c obtain r where
    r: "r = (s_rx s)\<lparr>open_ports := (open_ports (s_rx s))(?p \<mapsto> 1)\<rparr>"
    "s3tp_synchronizeStatus 0 (s\<lparr>clients := (clients s)(?p \<mapsto> Some ?c), s_rx := r\<rparr>) = Inr s'"
    by (auto simp: onConnected_def openPort_def rx_locked_def getAppPort_def ports_ok_def split: if_splits)
  note t = s3tp_synchronizeStatus_tx_only [OF r(2)]
  have "ports_ok (s\<lparr>clients := (clients s)(?p \<mapsto> Some ?c), s_rx := r\<rparr>)"
    using assms(1) none c r(1) by (auto simp: ports_ok_def)
  then show "ports_ok s'" using ports_ok_tx_only [OF t] by simp
  show "clients s' = (clients s)(?p \<mapsto> Some ?c)" "open_ports (s_rx s') ?p \<noteq> None"
    using t r(1) by (simp_all add: tx_only_def)
qed

lemma daemon_pass_ports:
  assumes "ports_ok s" "daemon_pass inp s = Inr (ops, s')"
  shows "ports_ok s'"
  using assms cleanupClients_ports [OF assms(1)] onConnected_ports(1)
  by (fastforce simp: daemon_pass_def new_client_listed split: if_splits)

lemma onDisconnected_ports:
  assumes "ports_ok s" "clients s p = Some (Some cli)" "connected cli"
    and "onDisconnected (cli\<lparr>connected := False\<rparr>) (s\<lparr>clients := (clients s)(p \<mapsto> Some (cli\<lparr>connected := False\<rparr>))\<rparr>) = Inr s'"
  shows "ports_ok s'"
proof -
  let ?c = "cli\<lparr>connected := False\<rparr>"
  have p: "app_port cli = p" "client_if cli" "open_ports (s_rx s) p \<noteq> None" "rx_active (s_rx s)" "p \<notin> set (disconnectedClients s)"
    using assms(1-3) by (auto simp: ports_ok_def)
  then have "s' = s\<lparr>clients := (clients s)(p \<mapsto> Some ?c), disconnectedClients := disconnectedClients s @ [p],
      s_rx := (s_rx s)\<lparr>open_ports := (open_ports (s_rx s))(p := None)\<rparr>\<rparr>"
    using assms(4) by (auto simp: onDisconnected_def closePort_def rx_locked_def getAppPort_def split: if_splits)
  then show ?thesis using assms(1,2) p by (auto simp: ports_ok_def)
qed

lemma client_pass_ports:
  assumes "ports_ok s" "clients s p = Some (Some cli)" "connected cli"
    and "client_iteration (onApplicationMessage g cli) inp cli s = Inr (e, ops, calls, cli', s1)"
    and "listener_calls calls cli' (s1\<lparr>clients := (clients s1)(p \<mapsto> Some cli')\<rparr>) = Inr s'"
  shows "ports_ok s'"
proof -
  have "client_if cli" using assms(1,2) by (simp add: ports_ok_def)
  then have "tx_only s s1 \<and> (calls = [] \<and> cli' = cli \<or> calls = [OnDisconnected] \<and> cli' = cli\<lparr>connected := False\<rparr>)"
    by (rule client_iteration_end [OF assms(4,3)]) (rule onApplicationMessage_tx_only)
  then have t: "tx_only s s1" and e: "calls = [] \<and> cli' = cli \<or> calls = [OnDisconnected] \<and> cli' = cli\<lparr>connected := False\<rparr>"
    by blast+
  have ok: "ports_ok s1" and c: "clients s1 p = Some (Some cli)"
    using assms(1,2) ports_ok_tx_only [OF t] t by (simp_all add: tx_only_def)
  from e show ?thesis
  proof
    assume "calls = [] \<and> cli' = cli"
    then show ?thesis using assms(5) c ok by (simp add: fun_upd_idem)
  next
    assume "calls = [OnDisconnected] \<and> cli' = cli\<lparr>connected := False\<rparr>"
    then show ?thesis using assms(5) onDisconnected_ports [OF ok c assms(3)] by simp
  qed
qed

lemma client_send_unchanged: "client_send w1 w2 w3 d n cli = (rc, ops, [], cli') \<Longrightarrow> client_if cli \<Longrightarrow> cli' = cli"
  by (auto simp: client_send_def client_closing Let_def split: if_splits prod.splits)

lemma assembly_ports:
  assumes "ports_ok s" "assembly_iteration w1 w2 w3 s = Some (Inr (e, s'))"
  shows "ports_ok s'"
proof -
  have null: "ports_ok (t\<lparr>clients := (clients t)(p \<mapsto> None)\<rparr>)" if "ports_ok t" "clients t p = None" for t p
    using that by (auto simp: ports_ok_def)
  have deliver: "ports_ok (t\<lparr>clients := (clients t)(p \<mapsto> Some cli')\<rparr>)"
    if "ports_ok t" "clients t p = Some (Some cli)" "client_send w1 w2 w3 d n cli = (rc, ops, [], cli')" for t p cli d n rc ops cli'
  proof -
    have "cli' = cli" using that client_send_unchanged by (auto simp: ports_ok_def)
    then show ?thesis using that(1,2) by (simp add: fun_upd_idem)
  qed
  have "ports_ok (s\<lparr>s_rx := r\<rparr>)" if "getNextCompleteMessage (s_rx s) = Some (Inr (m, r))" for m r
    using ports_ok_same_ports [OF getNextCompleteMessage_same_ports [OF that]] assms(1) by simp
  then show ?thesis
    using assms null [of "s\<lparr>s_rx := r\<rparr>" for r] deliver [of "s\<lparr>s_rx := r\<rparr>" for r]
    by (auto simp: assembly_iteration_def under_clients_mutex_def Let_def
        split: if_splits sum.splits option.splits prod.splits)
qed

lemma frame_ports:
  assumes "ports_ok s" "s3tp_handleFrame w opt ch fr s = Inr (rc, s')"
  shows "ports_ok s'"
  using assms ports_ok_same_ports [OF handleFrame_same_ports] ports_ok_tx_only [OF s3tp_statuses_tx_only]
  by (fastforce simp: s3tp_handleFrame_def)

lemma daemon_start_ports:
  assumes "s3tp_new g si a a' = Inr s" "daemon_init sock bnd s = Inr (0, s')"
  shows "ports_ok s'"
  using assms
  by (auto simp: s3tp_new_def s3tp_reset_def rx_reset_def rx_locked_def daemon_init_def s3tp_init_def
      rx_setStatusInterface_def startModule_def ports_ok_def split: if_splits)

text \<open>The accept loop alone runs through states of the running daemon.\<close>

lemma startDaemon_reach:
  assumes "daemon_reach s" "startDaemon inps s = Inr (opss, s')"
  shows "daemon_reach s'"
  using assms
proof (induction inps arbitrary: s opss)
  case (Cons inp inps)
  from Cons.prems(2) obtain ops s1 opss' where
    "daemon_pass inp s = Inr (ops, s1)" "startDaemon inps s1 = Inr (opss', s')"
    by (auto simp: bind_res_def split: sum.splits)
  with Cons.IH [of s1] Cons.prems(1) show ?case by (blast intro: daemon_reach.step daemon_step.accept)
qed simp

lemma daemon_reach_ports: "daemon_reach s \<Longrightarrow> ports_ok s"
proof (induction rule: daemon_reach.induct)
  case (start g a a' s sock bnd s')
  then show ?case by (rule daemon_start_ports)
next
  case (step s s')
  from step.hyps(2) step.IH show ?case
    by (auto elim!: daemon_stepE dest: daemon_pass_ports client_pass_ports assembly_ports frame_ports)
qed

lemma daemon_pass_outcome:
  assumes "ports_ok s" "\<not> rx_mutex_held (s_rx s)" "tx_ok (s_tx s)" "0 \<le> ac_socket inp" "0 < ac_rd inp" "0 < ac_wr inp"
  defines "p \<equiv> cfg_port (ac_config inp)"
  shows "\<exists>code ops s'. daemon_pass inp s = Inr (WriteCode code # ops, s') \<and> ports_ok s' \<and>
    (\<forall>q c. q \<noteq> p \<longrightarrow> clients s q = Some (Some c) \<longrightarrow> connected c \<longrightarrow> clients s' q = Some (Some c)) \<and>
    (if open_ports (s_rx s) p \<noteq> None then code = -11 \<and> ops = [CloseNewSocket] \<and> clients s' p = clients s p
     else code = 0 \<and> ops = [StartClient (fst (client_new (ac_config inp)))] \<and>
       clients s' p = Some (Some (fst (client_new (ac_config inp)))) \<and> open_ports (s_rx s') p \<noteq> None)"
proof -
  let ?cl = "\<lambda>q. if q \<in> set (disconnectedClients s) then None else clients s q"
  let ?s1 = "s\<lparr>clients := ?cl, disconnectedClients := []\<rparr>" and ?c = "fst (client_new (ac_config inp))"
  note cleaned = cleanupClients_ports [OF assms(1)]
  have kept: "?cl q = Some (Some c)" if "clients s q = Some (Some c)" "connected c" for q c
    using assms(1) that by (auto simp: ports_ok_def)
  have op: "open_ports (s_rx s) p \<noteq> None \<longleftrightarrow> (\<exists>c. clients s p = Some (Some c) \<and> connected c)"
    "p \<in> set (disconnectedClients s) \<longleftrightarrow> (\<exists>c. clients s p = Some (Some c) \<and> \<not> connected c)"
    using assms(1) unfolding ports_ok_def by blast+
  have busy: "getClientConnectedToPort p ?s1 \<noteq> None \<longleftrightarrow> open_ports (s_rx s) p \<noteq> None"
    unfolding op(1) using op(2) by (auto simp: getClientConnectedToPort_def split: option.splits)
  show ?thesis
  proof (cases "open_ports (s_rx s) p = None")
    case False
    then obtain c where c: "clients s p = Some (Some c)" "connected c" using assms(1) by (auto simp: ports_ok_def)
    have "daemon_pass inp s = Inr ([WriteCode (-11), CloseNewSocket], ?s1)"
      using cleaned(1) assms(4-6) busy False by (simp add: daemon_pass_def p_def)
    with False cleaned(2) kept c show ?thesis
      by (intro exI [of _ "-11"] exI [of _ "[CloseNewSocket]"] exI [of _ ?s1] conjI) simp_all
  next
    case True
    have none: "getClientConnectedToPort (cfg_port (ac_config inp)) ?s1 = None" using busy True by (simp add: p_def)
    have "\<exists>s2. onConnected ?c ?s1 = Inr s2"
      using assms(2,3)
      by (cases "p_payload (syncPacket (s_tx s))")
         (auto simp: onConnected_def openPort_def rx_locked_def s3tp_synchronizeStatus_def scheduleSync_def
           tx_ok_def sync_packet_ok_def)
    then obtain s2 where s2: "onConnected ?c ?s1 = Inr s2" by blast
    note con = onConnected_ports [OF cleaned(2) none s2]
    have "daemon_pass inp s = Inr ([WriteCode 0, StartClient ?c], s2)"
      using cleaned(1) assms(4-6) none s2 by (simp add: daemon_pass_def new_client_listed)
    with True con kept show ?thesis
      unfolding p_def by (intro exI [of _ 0] exI [of _ "[StartClient ?c]"] exI [of _ s2] conjI) simp_all
  qed
qed

section \<open>Properties\<close>


text \<open>A daemon that has just started.\<close>

lemma example_daemon:
  "\<exists>s. daemon_reach s \<and> tx_ok (s_tx s) \<and> \<not> rx_mutex_held (s_rx s) \<and> open_ports (s_rx s) = Map.empty"
proof -
  from tx_new_ok [of "example_packet []" False] obtain t where t: "tx_new (example_packet []) False = Inr t" "tx_ok t"
    "\<forall>p. tx_view t p = []" "port_sequence t = Map.empty" "to_consume_port_seq t = Map.empty" by blast
  obtain s where s: "s3tp_new (example_packet []) False False False = Inr s" "s_tx s = tx_reset t"
    "\<not> rx_mutex_held (s_rx s)" "open_ports (s_rx s) = Map.empty"
    using t(1) by (simp add: s3tp_new_def s3tp_reset_def rx_reset_def rx_locked_def rx_new_def)
  obtain s' where s': "daemon_init 3 0 s = Inr (0, s')" "s_tx s' = startRoutine (tx_reset t)"
    "\<not> rx_mutex_held (s_rx s')" "open_ports (s_rx s') = Map.empty"
    using s by (simp add: daemon_init_def s3tp_init_def rx_setStatusInterface_def startModule_def rx_locked_def)
  have "tx_ok (startRoutine (tx_reset t))"
    using t(2-5) by (auto simp: tx_ok_def tx_port_ok_def startRoutine_def tx_reset_def)
  with daemon_reach.start [OF s(1) s'(1)] s' show ?thesis by auto
qed


text \<open>C9. Connecting an application: in every reachable state the daemon answers without a fault, and the
  connector's initialisation ends as the daemon decided. A port whose client is connected is refused
  with the code for a busy port, the connector ends disconnected and the client in place is kept;
  otherwise the connector ends connected and the daemon lists a new client for the port, which is
  open. Connected clients of other ports are not affected.\<close>

theorem connection_handshake:
  assumes "daemon_reach s" "\<not> rx_mutex_held (s_rx s)" "tx_ok (s_tx s)"
    and "0 \<le> ac_socket inp" "0 < ac_rd inp" "0 < ac_wr inp"
    and "in_socket cin \<noteq> -1" "in_connect cin \<noteq> -1" "0 < in_wr cin" "0 < in_rd cin"
  shows "\<exists>code ops s'. daemon_pass inp s = Inr (WriteCode code # ops, s') \<and>
    (case cn_init (cin\<lparr>in_commCode := code\<rparr>) (ac_config inp) cb (cn_new cfg0 cb0) of (rc, cops, c) \<Rightarrow>
      if open_ports (s_rx s) (cfg_port (ac_config inp)) \<noteq> None
      then rc = -11 \<and> \<not> cn_connected c \<and> clients s' (cfg_port (ac_config inp)) = clients s (cfg_port (ac_config inp))
      else rc = 0 \<and> cn_connected c \<and> (StartListener \<in> set cops \<longleftrightarrow> cb) \<and>
        clients s' (cfg_port (ac_config inp)) = Some (Some (fst (client_new (ac_config inp)))) \<and>
        open_ports (s_rx s') (cfg_port (ac_config inp)) \<noteq> None) \<and>
    (\<forall>q c. q \<noteq> cfg_port (ac_config inp) \<longrightarrow> clients s q = Some (Some c) \<longrightarrow> connected c \<longrightarrow>
      clients s' q = Some (Some c))"
proof -
  let ?p = "cfg_port (ac_config inp)"
  from daemon_pass_outcome [OF daemon_reach_ports [OF assms(1)] assms(2-6)] obtain code ops s' where
    d: "daemon_pass inp s = Inr (WriteCode code # ops, s')"
    "\<forall>q c. q \<noteq> ?p \<longrightarrow> clients s q = Some (Some c) \<longrightarrow> connected c \<longrightarrow> clients s' q = Some (Some c)"
    "if open_ports (s_rx s) ?p \<noteq> None then code = -11 \<and> ops = [CloseNewSocket] \<and> clients s' ?p = clients s ?p
     else code = 0 \<and> ops = [StartClient (fst (client_new (ac_config inp)))] \<and>
       clients s' ?p = Some (Some (fst (client_new (ac_config inp)))) \<and> open_ports (s_rx s') ?p \<noteq> None" by blast
  have "cn_init (cin\<lparr>in_commCode := -11\<rparr>) (ac_config inp) cb (cn_new cfg0 cb0) =
      (-11, [CreateSocket, Connect, WriteConfig (ac_config inp), Sock Shutdown, Sock CloseSocket, NotifyAll],
       (cn_new cfg0 cb0)\<lparr>cn_config := ac_config inp, cn_callback := cb, cn_connected := False\<rparr>)"
    "cn_init (cin\<lparr>in_commCode := 0\<rparr>) (ac_config inp) cb (cn_new cfg0 cb0) =
      (0, [CreateSocket, Connect, WriteConfig (ac_config inp)] @ (if cb then [StartListener] else []),
       (cn_new cfg0 cb0)\<lparr>cn_config := ac_config inp, cn_callback := cb, cn_connected := True\<rparr>)"
    using assms(7-10) by (simp_all add: cn_init_def Let_def cn_abort_def cn_closeConnection_def cn_new_def)
  with d show ?thesis by (intro exI [of _ code] exI [of _ ops] exI [of _ s'] conjI) (auto split: if_splits)
qed

theorem connection_handshake_witness:
  "\<exists>s code ops s'. daemon_pass \<lparr>ac_socket = 4, ac_rd = 3, ac_config = \<lparr>cfg_port = 5, cfg_channel = 3, cfg_options = 0\<rparr>, ac_wr = 4\<rparr> s =
      Inr (WriteCode code # ops, s') \<and>
    (case cn_init \<lparr>in_socket = 7, in_connect = 0, in_wr = 3, in_rd = 4, in_commCode = code\<rparr>
        \<lparr>cfg_port = 5, cfg_channel = 3, cfg_options = 0\<rparr> True (cn_new \<lparr>cfg_port = 0, cfg_channel = 0, cfg_options = 0\<rparr> False) of
      (rc, cops, c) \<Rightarrow> rc = 0 \<and> cn_connected c) \<and> open_ports (s_rx s') 5 \<noteq> None"
proof -
  let ?inp = "\<lparr>ac_socket = 4, ac_rd = 3, ac_config = \<lparr>cfg_port = 5, cfg_channel = 3, cfg_options = 0\<rparr>, ac_wr = 4\<rparr>"
  from example_daemon obtain s where s: "daemon_reach s" "tx_ok (s_tx s)" "\<not> rx_mutex_held (s_rx s)"
    "open_ports (s_rx s) = Map.empty" by blast
  from connection_handshake [OF s(1,3,2), of ?inp "\<lparr>in_socket = 7, in_connect = 0, in_wr = 3, in_rd = 4, in_commCode = 0\<rparr>"
      True "\<lparr>cfg_port = 0, cfg_channel = 0, cfg_options = 0\<rparr>" False] s(4)
  show ?thesis by (fastforce split: prod.splits)
qed

end
