(* ===== verification/Applications.thy ===== *)
theory Applications
  imports End_To_End Daemon
begin

text \<open>
  From one application to another: connector, client thread and protocol object of the sending side, the
  link, and protocol object, assembly thread, client socket and connector of the receiving side, composed
  into runs of whole sequences of messages.
\<close>

section \<open>The runs of the threads\<close>

text \<open>The client thread of a daemon serves the inputs one after the other, as long as the connection lasts.\<close>

primrec client_serves :: "(nat \<Rightarrow> S3TP_PACKET) \<Rightarrow> ClientInput list \<Rightarrow> Client \<Rightarrow> S3TP \<Rightarrow> (SocketOp list list \<times> Client \<times> S3TP) result" where
  "client_serves g [] cli s = Inr ([], cli, s)"
| "client_serves g (inp # inps) cli s =
     bind_res (client_iteration (onApplicationMessage g cli) inp cli s) (\<lambda>(e, ops, calls, cli', s1).
     bind_res (listener_calls calls cli' (s1\<lparr>clients := (clients s1)(getAppPort cli \<mapsto> Some cli')\<rparr>)) (\<lambda>s2.
     if e \<noteq> Continues then Inr ([ops], cli', s2)
     else bind_res (client_serves g inps cli' s2) (\<lambda>(opss, cli'', s3). Inr (ops # opss, cli'', s3))))"

text \<open>Frames arrive at the protocol object.\<close>

primrec s3tp_feed :: "(u8 \<Rightarrow> int \<times> int) \<Rightarrow> (u8 \<times> u8 \<times> u8 list) list \<Rightarrow> S3TP \<Rightarrow> S3TP result" where
  "s3tp_feed w [] s = Inr s"
| "s3tp_feed w (f # fs) s =
     bind_res (case f of (opt, ch, frame) \<Rightarrow> s3tp_handleFrame w opt ch frame s) (\<lambda>(rc, s'). s3tp_feed w fs s')"

text \<open>Passes of the assembly thread, as long as it does not wait or stop; what each of them writes to the client.\<close>

primrec assembly_passes :: "int \<Rightarrow> int \<Rightarrow> int \<Rightarrow> nat \<Rightarrow> S3TP \<Rightarrow> (SocketOp list list \<times> S3TP) result option" where
  "assembly_passes w1 w2 w3 0 s = Some (Inr ([], s))"
| "assembly_passes w1 w2 w3 (Suc n) s =
     (case assembly_iteration w1 w2 w3 s of
        None \<Rightarrow> None
      | Some (Inl e) \<Rightarrow> Some (Inl e)
      | Some (Inr (AssemblyDone ops, s1)) \<Rightarrow>
          (case assembly_passes w1 w2 w3 n s1 of
             None \<Rightarrow> None
           | Some (Inl e) \<Rightarrow> Some (Inl e)
           | Some (Inr (opss, s2)) \<Rightarrow> Some (Inr (ops # opss, s2)))
      | Some (Inr (_, s1)) \<Rightarrow> Some (Inr ([], s1)))"

section \<open>The sending side\<close>

text \<open>What the connector wrote for the message \<open>d\<close> is what the client thread reads, in some pieces.\<close>

definition read_from :: "int \<Rightarrow> int \<Rightarrow> int \<Rightarrow> S3tpConnector \<Rightarrow> u8 list \<Rightarrow> ClientInput \<Rightarrow> bool" where
  "read_from w1 w2 w3 c d inp \<longleftrightarrow> 0 \<le> in_w1 inp \<and> 0 < in_w2 inp \<and>
     (\<exists>bss. daemon_reads (snd (cn_send_start w1 w2 w3 d (length d) c)) bss inp)"

lemma client_serves_ok:
  assumes cn: "cn_connected c" "\<not> s3tpBufferFull c" "0 < w1" "0 < w2" "0 < w3"
    and cli: "connected cli" "client_if cli"
    and "can_send (virtual_channel cli) (app_port cli) s" "clients s (app_port cli) = Some (Some cli)"
    and "\<forall>d \<in> set ds. length d \<le> 1984" "length (tx_view (s_tx s) (app_port cli)) + 2 * length ds \<le> 256"
    and "list_all2 (read_from w1 w2 w3 c) ds inps"
  shows "\<exists>opss s' mss. client_serves g inps cli s = Inr (opss, cli, s') \<and>
    queued_all (virtual_channel cli) (app_port cli) (options cli) ds mss s s'"
  using assms(8-)
proof (induction ds arbitrary: s inps)
  case Nil
  then show ?case using queued_all_Nil [OF Nil(1), of "options cli"] by (intro exI [of _ "[]"] exI [of _ s]) auto
next
  case (Cons d ds)
  let ?p = "app_port cli" and ?ch = "virtual_channel cli"
  from Cons.prems(5) obtain inp inps' bss where inp: "inps = inp # inps'" "list_all2 (read_from w1 w2 w3 c) ds inps'"
    "0 \<le> in_w1 inp" "0 < in_w2 inp" "daemon_reads (snd (cn_send_start w1 w2 w3 d (length d) c)) bss inp"
    unfolding list_all2_Cons1 by (auto simp: read_from_def [of _ _ _ _ d])
  have "length d < 2 ^ 64" "listener_ready cli (length d) s"
    using Cons.prems(1,3,4) by (simp_all add: listener_ready_def)
  with s3tp_listener.connector_send_taken [OF cn(1,2) cli cn(3-5) _ _ inp(5,3,4), of cli s g] obtain s1 ops where
    s1: "listener_took cli d s s1" "client_iteration (onApplicationMessage g cli) inp cli s = Inr (Continues, ops, [], cli, s1)"
    by blast
  from s1(1) obtain t' xs where t': "s1 = s\<lparr>s_tx := t'\<rparr>" "can_send ?ch ?p s1" "tx_frame (s_tx s) (s_tx s1)" "length xs \<le> 2"
    "tx_view (s_tx s1) = (tx_view (s_tx s))(?p := tx_view (s_tx s) ?p @ xs)"
    "message_packets (at0 (port_sequence (s_tx s)) ?p) ?p ?ch (options cli) d xs"
    unfolding listener_took_def by auto
  have c1: "clients s1 ?p = Some (Some cli)" using t'(1) Cons.prems(2) by simp
  then have idle: "s1\<lparr>clients := (clients s1)(?p \<mapsto> Some cli)\<rparr> = s1" by (simp add: fun_upd_idem)
  have "\<forall>d \<in> set ds. length d \<le> 1984" "length (tx_view (s_tx s1) ?p) + 2 * length ds \<le> 256"
    using Cons.prems(3,4) t'(4,5) by simp_all
  from Cons.IH [OF t'(2) c1 this inp(2)] obtain opss s' mss where
    s': "client_serves g inps' cli s1 = Inr (opss, cli, s')" "queued_all ?ch ?p (options cli) ds mss s1 s'" by blast
  have "client_serves g inps cli s = Inr (ops # opss, cli, s')"
    by (simp add: inp(1) s1(2) getAppPort_def idle s'(1))
  with queued_all_Cons [OF Cons.prems(1) t'(2-6) s'(2)] show ?case by blast
qed

section \<open>The receiving side\<close>

lemma data_packet_events:
  "handleReceivedPacket x r = Inr (rc, ev, r') \<Longrightarrow> getMessageType (p_header x) \<noteq> 3 \<Longrightarrow> ev = []"
  by (auto simp: handleReceivedPacket_def Let_def split: if_splits)

lemma s3tp_feed_data:
  assumes "\<forall>x \<in> set ys. getMessageType (p_header x) = 0"
    and "rx_feed (map (\<lambda>x. (opt x, f_channel (frame_for x), f_data (frame_for x))) ys) (s_rx s) = Inr r1"
  shows "s3tp_feed w (map (\<lambda>x. (opt x, f_channel (frame_for x), f_data (frame_for x))) ys) s = Inr (s\<lparr>s_rx := r1\<rparr>)"
  using assms
proof (induction ys arbitrary: s)
  case (Cons y ys)
  from Cons.prems(2) obtain rc ev r where
    r: "handleFrame (opt y) (f_channel (frame_for y)) (f_data (frame_for y)) (s_rx s) = Inr (rc, ev, r)"
    "rx_feed (map (\<lambda>x. (opt x, f_channel (frame_for x), f_data (frame_for x))) ys) r = Inr r1" by auto
  have "ev = []" using r(1) Cons.prems(1)
    by (auto simp: handleFrame_def packet_of_frame_for split: if_splits dest: data_packet_events)
  with r(1) have "s3tp_handleFrame w (opt y) (f_channel (frame_for y)) (f_data (frame_for y)) s = Inr (rc, s\<lparr>s_rx := r\<rparr>)"
    by (simp add: s3tp_handleFrame_def)
  with Cons.IH [of "s\<lparr>s_rx := r\<rparr>"] Cons.prems(1) r(2) show ?case by simp
qed simp

lemma message_consumed:
  assumes "getNextCompleteMessage r = Some (Inr (m, r'))" "msg_error m = 0"
  shows "isNewMessageAvailable r = Inr True" "rx_isActive r = Inr True"
proof -
  have "\<not> rx_mutex_held r" "rx_active r" "map_begin (available_messages r) \<noteq> None"
    using assms by (auto simp: getNextCompleteMessage_def split: if_splits option.splits)
  then show "isNewMessageAvailable r = Inr True" "rx_isActive r = Inr True"
    using map_begin_SomeD by (fastforce simp: isNewMessageAvailable_def rx_isActive_def rx_locked_def map_empty_iff)+
qed

text \<open>What the client writes to its socket for a message.\<close>

abbreviation client_writes :: "int \<Rightarrow> int \<Rightarrow> int \<Rightarrow> Client \<Rightarrow> RxMessage \<Rightarrow> SocketOp list" where
  "client_writes w1 w2 w3 cli m \<equiv> fst (snd (client_send w1 w2 w3 (msg_data m) (unat (msg_len m)) cli))"

lemma client_send_succeeds:
  assumes "0 \<le> w1" "0 < w2" "0 < w3"
  shows "client_send w1 w2 w3 data n cli = (0, fst (snd (client_send w1 w2 w3 data n cli)), [], cli)"
  using assms by (simp add: client_send_def Let_def write_length_safe_def)

lemma assembly_passes_deliver:
  assumes w: "0 \<le> w1" "0 < w2" "0 < w3"
    and "rx_consume n (s_rx s) = Some (Inr (msgs, r2))" "\<forall>m \<in> set msgs. msg_error m = 0 \<and> msg_port m = p"
    and "s_active s" "clients s p = Some (Some cli)"
  shows "assembly_passes w1 w2 w3 n s = Some (Inr (map (client_writes w1 w2 w3 cli) msgs, s\<lparr>s_rx := r2\<rparr>))"
  using assms(4-)
proof (induction n arbitrary: s msgs)
  case (Suc n)
  from Suc.prems(1) obtain m r1 ms where m: "getNextCompleteMessage (s_rx s) = Some (Inr (m, r1))"
    "rx_consume n r1 = Some (Inr (ms, r2))" "msgs = m # ms"
    by (auto split: option.splits sum.splits)
  have p: "msg_port m = p" "msg_error m = 0" using Suc.prems(2) m(3) by simp_all
  have same: "s\<lparr>s_rx := r1, clients := (clients s)(p \<mapsto> Some cli)\<rparr> = s\<lparr>s_rx := r1\<rparr>" using Suc.prems(4) by (simp add: fun_upd_idem)
  from client_send_succeeds [OF w, of "msg_data m" "unat (msg_len m)" cli] obtain ops where
    ops: "client_send w1 w2 w3 (msg_data m) (unat (msg_len m)) cli = (0, ops, [], cli)" by blast
  then have "assembly_iteration w1 w2 w3 s = Some (Inr (AssemblyDone (client_writes w1 w2 w3 cli m), s\<lparr>s_rx := r1\<rparr>))"
    using message_consumed [OF m(1) p(2)] Suc.prems(3,4) m(1) p(1) same
    by (simp add: assembly_iteration_def under_clients_mutex_def Let_def)
  moreover have "assembly_passes w1 w2 w3 n (s\<lparr>s_rx := r1\<rparr>) = Some (Inr (map (client_writes w1 w2 w3 cli) ms, s\<lparr>s_rx := r2\<rparr>))"
    using Suc.IH [of "s\<lparr>s_rx := r1\<rparr>" ms] Suc.prems m by simp
  ultimately show ?case using m(3) by simp
qed auto

lemma sent_are_data:
  assumes "packets_for sq p channel opts ds mss" "sent_copies gs mss sent" "x \<in> set sent"
  shows "getMessageType (p_header x) = 0"
proof -
  have "\<forall>y \<in> set (concat mss). getMessageType (p_header y) = 0"
    using assms(1) by (induction sq p channel opts ds mss rule: packets_for.induct) (auto simp: message_packets_def)
  moreover have "stamp 0 x \<in> stamp 0 ` set (concat mss)"
    using assms(2,3) unfolding sent_copies_def by (metis image_eqI set_map)
  ultimately show ?thesis by auto (metis stamp_fields)
qed

section \<open>From application to application\<close>

text \<open>The receiving application is called back with the message \<open>d\<close>, in whatever pieces the writes \<open>ops\<close> arrive.\<close>

definition calls_back_with :: "S3tpConnector \<Rightarrow> u8 list \<Rightarrow> SocketOp list \<Rightarrow> bool" where
  "calls_back_with c d ops \<longleftrightarrow> (\<forall>bss inp. listener_reads ops bss inp \<longrightarrow>
     asyncListener_pass inp c = (Continues, [OnNewMessage (d @ [0]) (length d)], c))"

lemma messages_called_back:
  assumes "cn_connected c" "0 \<le> w1" "0 < w2" "0 < w3" "\<forall>d \<in> set ds. length d \<le> 1984"
    and "map msg_data msgs = map Some ds" "map msg_len msgs = map (\<lambda>d. of_nat (length d)) ds"
  shows "list_all2 (calls_back_with c) ds (map (client_writes w1 w2 w3 cli) msgs)"
  using assms(5-)
proof (induction ds arbitrary: msgs)
  case (Cons d ds)
  from Cons.prems(2) obtain m ms where m: "msgs = m # ms" "msg_data m = Some d" "map msg_data ms = map Some ds" by auto
  have "unat (msg_len m) = length d" using Cons.prems(1,3) m(1) by (simp add: unat_of_nat_u16)
  with m(2) have "calls_back_with c d (client_writes w1 w2 w3 cli m)"
    using client_send_received [OF assms(1-4)] Cons.prems(1) by (simp add: calls_back_with_def)
  with Cons m show ?case by simp
qed simp

text \<open>The listener thread reads what was written for the messages, one after the other, in some pieces.\<close>

definition reads_all :: "SocketOp list list \<Rightarrow> ListenerInput list \<Rightarrow> bool" where
  "reads_all opss inps \<longleftrightarrow> list_all2 (\<lambda>ops inp. \<exists>bss. listener_reads ops bss inp) opss inps"

lemma listener_calls_back:
  assumes "list_all2 (calls_back_with c) ds opss" "reads_all opss inps"
  shows "asyncListener inps c = (map (\<lambda>d. OnNewMessage (d @ [0]) (length d)) ds, c)"
  using assms
proof (induction arbitrary: inps rule: list_all2_induct)
  case Nil
  then show ?case by (simp add: reads_all_def)
next
  case (Cons d ds ops opss)
  from Cons.prems obtain inp inps' bss where i: "inps = inp # inps'" "listener_reads ops bss inp" "reads_all opss inps'"
    by (auto simp: reads_all_def list_all2_Cons1)
  have "asyncListener_pass inp c = (Continues, [OnNewMessage (d @ [0]) (length d)], c)"
    using Cons.hyps(1) i(2) by (auto simp: calls_back_with_def)
  with Cons.IH [OF i(3)] i(1) show ?case by simp
qed


definition example_read :: "u8 list \<Rightarrow> ClientInput" where
  "example_read d = \<lparr>in_type_rd = 1, in_len_rd = 24, in_len = [of_nat (length d), of_nat (length d), of_nat (length d)],
     in_reads = [ReadBytes d], in_w1 = 1, in_w2 = 2\<rparr>"

lemma example_read_ok: "d \<noteq> [] \<Longrightarrow> read_from 1 24 3 example_connector d (example_read d)"
  unfolding read_from_def
  by (intro conjI exI [of _ "[d]"]) (simp_all add: example_read_def cn_send_start_def send_attempt_ok in_pieces_def)


end
