(* ===== verification/Port_Streams.thy ===== *)
theory Port_Streams
  imports End_To_End
begin

text \<open>
  Several ports at once. The reception module keeps one queue per port; frames of different ports that
  arrive mixed are kept apart, and the consumer serves the ports in ascending order. Everything is
  stated over the projection of the received packets to a port.
\<close>

section \<open>Projection to a port\<close>

abbreviation pkt_port :: "S3TP_PACKET \<Rightarrow> u8" where
  "pkt_port x \<equiv> getPort (p_header x)"

lemma length_of_port: "length (of_port p xs) \<le> length xs"
  by (simp add: of_port_def)

section \<open>Receiving\<close>

text \<open>The queues of all ports are in order and within the window.\<close>

definition rx_sorted :: "RxModule \<Rightarrow> bool" where
  "rx_sorted r \<longleftrightarrow> (\<forall>p. sorted (map (rx_key r p) (rx_view r p)) \<and> (\<forall>x \<in> set (rx_view r p). in_window r x))"

lemma rx_feed_ports:
  assumes "rx_ok r" "rx_active r" "rx_sorted r"
    and "\<forall>x \<in> set xs. valid_data r x \<and> in_window r x"
    and "\<forall>p. length (rx_view r p) + length xs < 65535" "unat (receiving_window r) + length xs < 128"
  shows "\<exists>r'. rx_feed (map rx_frame xs) r = Inr r' \<and> rx_ok r' \<and> rx_active r' \<and>
    (\<forall>p. rx_view r' p = fold (insort_key (rx_key r p)) (of_port p xs) (rx_view r p)) \<and>
    current_port_sequence r' = current_port_sequence r \<and>
    dom (available_messages r') \<subseteq> dom (available_messages r) \<union> pkt_port ` set xs \<and>
    dom (available_messages r) \<subseteq> dom (available_messages r') \<and>
    (\<forall>p \<in> pkt_port ` set xs. complete r' p \<longrightarrow> p \<in> dom (available_messages r'))"
  using assms
proof (induction xs arbitrary: r)
  case Nil
  then show ?case by auto
next
  case (Cons x xs)
  let ?p = "pkt_port x"
  have x: "valid_data r x" "in_window r x" using Cons.prems(4) by auto
  have "length (rx_view r ?p) < 65535" using spec [OF Cons.prems(5), of ?p] by simp
  moreover have "receiving_window r < 127" using Cons.prems(6) by (simp add: word_less_nat_alt)
  ultimately obtain r1 where r1: "handleReceivedPacket x r = Inr (0, [], r1)" "rx_ok r1" "rx_took x r r1"
    using handleReceivedPacket_stores [OF Cons.prems(1,2) x(1)] by blast
  have ports: "\<forall>y \<in> set (rx_view r ?p). pkt_port y = ?p"
    using Cons.prems(1) by (simp add: rx_ok_def buf_ok_def)
  note fr = rx_took_frame [OF r1(3)]
  have view: "rx_view r1 = (rx_view r)(?p := insort_key (rx_key r ?p) x (rx_view r ?p))"
    using r1(3) x rx_stored_insort [OF ports] Cons.prems(3) by (simp add: rx_took_def Let_def rx_sorted_def)
  have t: "rx_active r1" "receiving_window r1 = receiving_window r + 1"
    "current_port_sequence r1 = current_port_sequence r"
    "available_messages r1 = (if complete r1 ?p then (available_messages r)(?p \<mapsto> 1) else available_messages r)"
    using r1(3) Cons.prems(2) by (simp_all add: rx_took_def Let_def)
  have w: "unat (receiving_window r1) = unat (receiving_window r) + 1"
    using unat_add_of_nat_u8 [of "receiving_window r" 1] Cons.prems(6) by (simp add: t(2))
  have sorted1: "rx_sorted r1"
    using Cons.prems(3) x(2) by (auto simp: rx_sorted_def view fr sorted_insort_key set_insort_key)
  have valid1: "\<forall>y \<in> set xs. valid_data r1 y \<and> in_window r1 y" using Cons.prems(4) by (simp add: fr)
  have "length (rx_view r1 p) + length xs < 65535" for p using spec [OF Cons.prems(5), of p] by (auto simp: view)
  then have room1: "\<forall>p. length (rx_view r1 p) + length xs < 65535" ..
  from Cons.IH [OF r1(2) t(1) sorted1 valid1 room1] w Cons.prems(6) obtain r' where
    r': "rx_feed (map rx_frame xs) r1 = Inr r'" "rx_ok r'" "rx_active r'"
      "\<forall>p. rx_view r' p = fold (insort_key (rx_key r1 p)) (of_port p xs) (rx_view r1 p)"
      "current_port_sequence r' = current_port_sequence r1"
      "dom (available_messages r') \<subseteq> dom (available_messages r1) \<union> pkt_port ` set xs"
      "dom (available_messages r1) \<subseteq> dom (available_messages r')"
      "\<forall>p \<in> pkt_port ` set xs. complete r' p \<longrightarrow> p \<in> dom (available_messages r')" by auto
  have feed: "rx_feed (map rx_frame (x # xs)) r = Inr r'"
    using handleFrame_eq [OF Cons.prems(1,2), of x] r1(1) r'(1) by simp
  have mono: "dom (available_messages r) \<subseteq> dom (available_messages r1)"
    and grow: "dom (available_messages r1) \<subseteq> insert ?p (dom (available_messages r))" by (auto simp: t(4))
  have own: "?p \<in> dom (available_messages r')" if c: "complete r' ?p"
  proof (cases "?p \<in> pkt_port ` set xs")
    case False
    then have "of_port ?p xs = []" unfolding of_port_def filter_empty_conv by (metis image_eqI)
    then have "rx_view r' ?p = rx_view r1 ?p" using r'(4) by simp
    with c r'(5) have "complete r1 ?p" by (simp add: complete_def)
    then show ?thesis using t(4) r'(7) by auto
  qed (use c r'(8) in blast)
  have views: "\<forall>p. rx_view r' p = fold (insort_key (rx_key r p)) (of_port p (x # xs)) (rx_view r p)"
    using r'(4) by (simp add: view fr)
  have dom: "dom (available_messages r') \<subseteq> dom (available_messages r) \<union> pkt_port ` set (x # xs)"
    using r'(6) grow by auto
  show ?case
    using feed r'(2,3) views r'(5) t(3) dom mono r'(7,8) own
    by (intro exI [of _ r'] conjI) auto
qed

text \<open>Consecutively numbered packets of each port, received in any order and mixed, end up in order.\<close>

lemma rx_feed_ports_permuted:
  assumes "rx_ok r" "rx_active r" "\<forall>p. rx_view r p = []" "available_messages r = Map.empty"
    and "\<forall>p. map seq_of (zs p) = seqs_from (at0 (current_port_sequence r) p) (length (zs p))"
    and "\<forall>x \<in> set xs. valid_data r x \<and> in_window r x"
    and "unat (receiving_window r) + length xs < 128" "\<forall>p. mset (of_port p xs) = mset (zs p)"
  shows "\<exists>r'. rx_feed (map rx_frame xs) r = Inr r' \<and> rx_ok r' \<and> rx_active r' \<and> rx_view r' = zs \<and>
    current_port_sequence r' = current_port_sequence r \<and>
    dom (available_messages r') \<subseteq> {p. zs p \<noteq> []} \<and>
    (\<forall>p. zs p \<noteq> [] \<and> complete r' p \<longrightarrow> p \<in> dom (available_messages r'))"
proof -
  have sorted: "rx_sorted r" using assms(3) by (simp add: rx_sorted_def)
  have room: "\<forall>p. length (rx_view r p) + length xs < 65535" using assms(3,7) by simp
  from rx_feed_ports [OF assms(1,2) sorted assms(6) room assms(7)] obtain r' where
    r': "rx_feed (map rx_frame xs) r = Inr r'" "rx_ok r'" "rx_active r'"
      "\<forall>p. rx_view r' p = fold (insort_key (rx_key r p)) (of_port p xs) (rx_view r p)"
      "current_port_sequence r' = current_port_sequence r"
      "dom (available_messages r') \<subseteq> dom (available_messages r) \<union> pkt_port ` set xs"
      "\<forall>p \<in> pkt_port ` set xs. complete r' p \<longrightarrow> p \<in> dom (available_messages r')" by blast
  have "fold (insort_key (rx_key r p)) (of_port p xs) [] = zs p" for p
  proof -
    have m: "mset (of_port p xs) = mset (zs p)" using assms(8) by blast
    then have "length (zs p) = length (of_port p xs)" by (metis size_mset)
    then have len: "length (zs p) \<le> 256" using length_of_port [of p xs] assms(7) by simp
    have "sort_key (rx_key r p) (rev (of_port p xs)) = zs p"
      using rx_keys_ascending [OF spec [OF assms(5)] len] m
      by (intro sort_key_inj_key_eq) (auto simp flip: set_mset_mset)
    then show ?thesis by (simp add: sort_key_def foldr_conv_fold)
  qed
  then have view: "rx_view r' = zs" using r'(4) assms(3) by (simp add: fun_eq_iff)
  have "pkt_port ` set xs = {p. zs p \<noteq> []}"
  proof -
    have "p \<in> pkt_port ` set xs \<longleftrightarrow> of_port p xs \<noteq> []" for p
      by (auto simp: of_port_def filter_empty_conv)
    moreover have "of_port p xs = [] \<longleftrightarrow> zs p = []" for p using assms(8) by (metis mset_zero_iff)
    ultimately show ?thesis by auto
  qed
  with r' view assms(4) show ?thesis by (intro exI [of _ r']) auto
qed

section \<open>Consuming\<close>

lemma map_begin_least:
  assumes "k \<in> dom m" "\<forall>j \<in> dom m. k \<le> j"
  shows "map_begin m = Some k"
proof (cases "map_begin m")
  case None
  with assms(1) map_begin_None_iff [of m] show ?thesis by auto
next
  case (Some j)
  then have "j \<in> dom m \<and> (\<forall>i<j. i \<notin> dom m)"
    using find_all_u8_SomeD [of "\<lambda>k. m k \<noteq> None" j] by (auto simp: map_begin_def)
  with assms have "j = k" by (meson leI order.antisym)
  with Some show ?thesis by simp
qed

lemma sorted_all_u8: "sorted all_u8"
  by (auto simp: all_u8_def sorted_iff_nth_mono word_le_nat_alt unat_of_nat_u8)

lemma rx_consume_append:
  "rx_consume (m + n) r =
     (case rx_consume m r of
        Some (Inr (xs, r1)) \<Rightarrow>
          (case rx_consume n r1 of Some (Inr (ys, r2)) \<Rightarrow> Some (Inr (xs @ ys, r2)) | res \<Rightarrow> res)
      | res \<Rightarrow> res)"
  by (induction m arbitrary: r) (auto split: option.splits sum.splits)

text \<open>The consumer takes all messages of the lowest announced port and leaves the other ports alone.\<close>

lemma rx_consume_port:
  assumes "rx_ok r" "rx_active r" "messages_from (at0 (current_port_sequence r) p) mss"
    and "rx_view r p = concat mss" "p \<in> dom (available_messages r) \<longleftrightarrow> mss \<noteq> []"
    and "\<forall>q \<in> dom (available_messages r). p \<le> q"
  shows "\<exists>r'. rx_consume (length mss) r = Some (Inr (map (message_of p) mss, r')) \<and> rx_ok r' \<and> rx_active r' \<and>
    rx_view r' = (rx_view r)(p := []) \<and> available_messages r' = (available_messages r)(p := None) \<and>
    (\<forall>q. at0 (current_port_sequence r') q =
      (if q = p then at0 (current_port_sequence r) p + of_nat (length (concat mss)) else at0 (current_port_sequence r) q))"
  using assms
proof (induction mss arbitrary: r)
  case Nil
  then have "available_messages r p = None" by auto
  with Nil show ?case by (intro exI [of _ r]) (simp add: fun_upd_idem)
next
  case (Cons ms mss)
  let ?s = "at0 (current_port_sequence r) p"
  have m: "whole_message ms" "map seq_of ms = seqs_from ?s (length ms)" "messages_from (?s + of_nat (length ms)) mss"
    using Cons.prems(3) by (simp_all add: numbered_def)
  have view: "rx_view r p = ms @ concat mss" using Cons.prems(4) by simp
  have b: "map_begin (available_messages r) = Some p"
    using map_begin_least Cons.prems(5,6) by simp
  from getNextCompleteMessage_ok [OF Cons.prems(1,2) b view m(1,2)] obtain r1 where
    r1: "getNextCompleteMessage r = Some (Inr (message_of p ms, r1))" "rx_ok r1" "rx_active r1"
      "rx_view r1 = (rx_view r)(p := concat mss)"
      "\<forall>k. at0 (current_port_sequence r1) k = (if k = p then ?s + of_nat (length ms) else at0 (current_port_sequence r) k)"
      "available_messages r1 = (if complete r1 p then (available_messages r)(p \<mapsto> 1) else (available_messages r)(p := None))"
    unfolding message_of_def by auto
  have "complete r1 p \<longleftrightarrow> mss \<noteq> []" using complete_messages [of r1 p mss] m(3) r1(4,5) by simp
  then have d: "p \<in> dom (available_messages r1) \<longleftrightarrow> mss \<noteq> []" "\<forall>q \<in> dom (available_messages r1). p \<le> q"
    using r1(6) Cons.prems(6) by auto
  have "messages_from (at0 (current_port_sequence r1) p) mss" "rx_view r1 p = concat mss"
    using m(3) r1(4,5) by simp_all
  from Cons.IH [OF r1(2,3) this d] obtain r' where
    "rx_consume (length mss) r1 = Some (Inr (map (message_of p) mss, r'))" "rx_ok r'" "rx_active r'"
    "rx_view r' = (rx_view r1)(p := [])" "available_messages r' = (available_messages r1)(p := None)"
    "\<forall>q. at0 (current_port_sequence r') q =
      (if q = p then at0 (current_port_sequence r1) p + of_nat (length (concat mss)) else at0 (current_port_sequence r1) q)"
    by blast
  with r1 show ?case by (intro exI [of _ r']) (auto simp: add.assoc)
qed

lemma rx_consume_ports:
  assumes "rx_ok r" "rx_active r" "\<forall>p. messages_from (at0 (current_port_sequence r) p) (mss p)"
    and "\<forall>p. rx_view r p = concat (mss p)" "dom (available_messages r) = {p. mss p \<noteq> []}"
    and "sorted ps" "distinct ps" "{p. mss p \<noteq> []} \<subseteq> set ps"
  shows "\<exists>r'. rx_consume (\<Sum>p\<leftarrow>ps. length (mss p)) r =
      Some (Inr (concat (map (\<lambda>p. map (message_of p) (mss p)) ps), r')) \<and> rx_ok r' \<and> rx_active r' \<and>
    (\<forall>p. rx_view r' p = []) \<and> available_messages r' = Map.empty \<and>
    (\<forall>p. at0 (current_port_sequence r') p = at0 (current_port_sequence r) p + of_nat (length (concat (mss p))))"
  using assms
proof (induction ps arbitrary: r mss)
  case Nil
  then have "\<forall>p. mss p = []" by auto
  with Nil show ?case by (intro exI [of _ r]) auto
next
  case (Cons p ps)
  have low: "p \<in> dom (available_messages r) \<longleftrightarrow> mss p \<noteq> []" "\<forall>q \<in> dom (available_messages r). p \<le> q"
    using Cons.prems(5,6,8) by auto
  from rx_consume_port [OF Cons.prems(1,2) _ _ low] Cons.prems(3,4) obtain r1 where
    r1: "rx_consume (length (mss p)) r = Some (Inr (map (message_of p) (mss p), r1))" "rx_ok r1" "rx_active r1"
      "rx_view r1 = (rx_view r)(p := [])" "available_messages r1 = (available_messages r)(p := None)"
      "\<forall>q. at0 (current_port_sequence r1) q = (if q = p then at0 (current_port_sequence r) p + of_nat (length (concat (mss p)))
        else at0 (current_port_sequence r) q)" by blast
  let ?mss = "mss(p := [])"
  have rest: "\<exists>r'. rx_consume (\<Sum>q\<leftarrow>ps. length (?mss q)) r1 =
      Some (Inr (concat (map (\<lambda>q. map (message_of q) (?mss q)) ps), r')) \<and> rx_ok r' \<and> rx_active r' \<and>
    (\<forall>q. rx_view r' q = []) \<and> available_messages r' = Map.empty \<and>
    (\<forall>q. at0 (current_port_sequence r') q = at0 (current_port_sequence r1) q + of_nat (length (concat (?mss q))))"
  proof (rule Cons.IH [OF r1(2,3)])
    show "dom (available_messages r1) = {q. ?mss q \<noteq> []}" using Cons.prems(5) r1(5) by (simp only: dom_fun_upd) auto
  qed (use Cons.prems(3,4,6-8) r1(4,6) in auto)
  have eqs: "map (\<lambda>q. length (?mss q)) ps = map (\<lambda>q. length (mss q)) ps"
    "map (\<lambda>q. map (message_of q) (?mss q)) ps = map (\<lambda>q. map (message_of q) (mss q)) ps"
    using Cons.prems(7) by auto
  from rest [unfolded eqs] obtain r' where
    r': "rx_consume (\<Sum>q\<leftarrow>ps. length (mss q)) r1 = Some (Inr (concat (map (\<lambda>q. map (message_of q) (mss q)) ps), r'))"
      "rx_ok r'" "rx_active r'" "\<forall>q. rx_view r' q = []" "available_messages r' = Map.empty"
      "\<forall>q. at0 (current_port_sequence r') q = at0 (current_port_sequence r1) q + of_nat (length (concat (?mss q)))"
    by blast
  have "rx_consume (\<Sum>q\<leftarrow>p # ps. length (mss q)) r =
      Some (Inr (concat (map (\<lambda>q. map (message_of q) (mss q)) (p # ps)), r'))"
    using r1(1) r'(1) by (simp add: rx_consume_append)
  with r'(2-6) r1(6) show ?case by (intro exI [of _ r']) auto
qed

lemma ports_in_order:
  assumes "rx_ok r" "rx_active r" "\<forall>p. rx_view r p = []" "available_messages r = Map.empty"
    and "\<forall>p. messages_from (at0 (current_port_sequence r) p) (mss p)"
    and "\<forall>x \<in> set xs. valid_data r x \<and> in_window r x"
    and "unat (receiving_window r) + length xs < 128" "\<forall>p. mset (of_port p xs) = mset (concat (mss p))"
  shows "\<exists>r1 r2. rx_feed (map rx_frame xs) r = Inr r1 \<and>
    rx_consume (\<Sum>p\<leftarrow>all_u8. length (mss p)) r1 =
      Some (Inr (concat (map (\<lambda>p. map (message_of p) (mss p)) all_u8), r2)) \<and>
    rx_ok r2 \<and> (\<forall>p. rx_view r2 p = []) \<and> available_messages r2 = Map.empty \<and>
    (\<forall>p. at0 (current_port_sequence r2) p = at0 (current_port_sequence r) p + of_nat (length (concat (mss p))))"
proof -
  have seq: "\<forall>p. map seq_of (concat (mss p)) = seqs_from (at0 (current_port_sequence r) p) (length (concat (mss p)))"
    using assms(5) messages_from_seq by blast
  from rx_feed_ports_permuted [OF assms(1-4) seq assms(6-8)] obtain r1 where
    r1: "rx_feed (map rx_frame xs) r = Inr r1" "rx_ok r1" "rx_active r1" "rx_view r1 = (\<lambda>p. concat (mss p))"
      "current_port_sequence r1 = current_port_sequence r" "dom (available_messages r1) \<subseteq> {p. concat (mss p) \<noteq> []}"
      "\<forall>p. concat (mss p) \<noteq> [] \<and> complete r1 p \<longrightarrow> p \<in> dom (available_messages r1)" by blast
  have m: "\<forall>p. messages_from (at0 (current_port_sequence r1) p) (mss p)" using assms(5) r1(5) by simp
  have ne: "concat (mss p) \<noteq> [] \<longleftrightarrow> mss p \<noteq> []" for p
    using spec [OF assms(5), of p] by (cases "mss p") auto
  have "complete r1 p \<longleftrightarrow> mss p \<noteq> []" for p
    using complete_messages [of r1 p "mss p"] m r1(4) by simp
  then have dom: "dom (available_messages r1) = {p. mss p \<noteq> []}" using r1(6,7) ne by auto
  from rx_consume_ports [OF r1(2,3) m _ dom sorted_all_u8 distinct_all_u8] r1(1,4,5) show ?thesis by auto
qed

section \<open>Several applications on one sender\<close>

text \<open>
  Requests of several ports in the order in which the applications make them; a port has the channel and
  the options of its client.
\<close>

primrec send_mixed ::
  "(nat \<Rightarrow> S3TP_PACKET) \<Rightarrow> (u8 \<Rightarrow> u8) \<Rightarrow> (u8 \<Rightarrow> u8) \<Rightarrow> (u8 \<times> u8 list) list \<Rightarrow> S3TP \<Rightarrow> (int list \<times> S3TP) result" where
  "send_mixed g chan opts [] s = Inr ([], s)"
| "send_mixed g chan opts (req # reqs) s =
     bind_res (case req of (port, d) \<Rightarrow> sendToLinkLayer g (chan port) port d (length d) (opts port) s) (\<lambda>(rc, s1).
     bind_res (send_mixed g chan opts reqs s1) (\<lambda>(rcs, s2). Inr (rc # rcs, s2)))"

definition requests_of :: "u8 \<Rightarrow> (u8 \<times> u8 list) list \<Rightarrow> u8 list list" where
  "requests_of p reqs = map snd (filter (\<lambda>req. fst req = p) reqs)"

lemma requests_of_simps [simp]:
  "requests_of p [] = []"
  "requests_of p ((q, d) # reqs) = (if q = p then d # requests_of p reqs else requests_of p reqs)"
  by (simp_all add: requests_of_def)

lemma can_send_frame:
  "can_send channel port s \<Longrightarrow> tx_ok t' \<Longrightarrow> tx_frame (s_tx s) t' \<Longrightarrow> can_send channel port (s\<lparr>s_tx := t'\<rparr>)"
  using tx_frame_fields [of "s_tx s" t'] by (simp add: can_send_def)

text \<open>What is queued per port, behind what was there.\<close>

definition queued_mixed ::
  "(u8 \<Rightarrow> u8) \<Rightarrow> (u8 \<Rightarrow> u8) \<Rightarrow> (u8 \<times> u8 list) list \<Rightarrow> (u8 \<Rightarrow> S3TP_PACKET list list) \<Rightarrow> TxModule \<Rightarrow> TxModule \<Rightarrow> bool" where
  "queued_mixed chan opts reqs mss t t' \<longleftrightarrow> tx_ok t' \<and> tx_frame t t' \<and>
     (\<forall>p. tx_view t' p = tx_view t p @ concat (mss p) \<and>
        packets_for (at0 (port_sequence t) p) p (chan p) (opts p) (requests_of p reqs) (mss p))"

lemma queued_mixed_Cons:
  assumes "tx_ok t" "tx_ok t1" "tx_frame t t1" "length xs \<le> 2" "tx_view t1 = (tx_view t)(p := tx_view t p @ xs)"
    and "message_packets (at0 (port_sequence t) p) p (chan p) (opts p) d xs"
    and "queued_mixed chan opts reqs mss t1 t2"
  shows "queued_mixed chan opts ((p, d) # reqs) (mss(p := xs # mss p)) t t2"
proof -
  have seq: "at0 (port_sequence t1) q = at0 (port_sequence t) q + of_nat (length (if q = p then xs else []))" for q
    using assms(5) by (intro tx_port_sequence_advance [OF assms(1-3)]) simp
  show ?thesis
    unfolding queued_mixed_def
  proof (intro conjI allI)
    show "tx_ok t2" "tx_frame t t2"
      using assms(3,7) tx_frame_trans [of t t1 t2] by (simp_all add: queued_mixed_def)
    fix q
    have "tx_view t2 q = tx_view t1 q @ concat (mss q)"
      "packets_for (at0 (port_sequence t1) q) q (chan q) (opts q) (requests_of q reqs) (mss q)"
      using assms(7) by (simp_all add: queued_mixed_def)
    then show "tx_view t2 q = tx_view t q @ concat ((mss(p := xs # mss p)) q)"
      "packets_for (at0 (port_sequence t) q) q (chan q) (opts q) (requests_of q ((p, d) # reqs)) ((mss(p := xs # mss p)) q)"
      using assms(4-6) by (simp_all add: seq split: if_splits)
  qed
qed

lemma send_mixed_ok:
  assumes "tx_ok (s_tx s)" "\<forall>(p, d) \<in> set reqs. can_send (chan p) p s \<and> length d \<le> 1984"
    and "\<forall>p. length (tx_view (s_tx s) p) + 2 * length reqs \<le> 256"
  shows "\<exists>t' mss. send_mixed g chan opts reqs s = Inr (replicate (length reqs) 0, s\<lparr>s_tx := t'\<rparr>) \<and>
    queued_mixed chan opts reqs mss (s_tx s) t'"
  using assms
proof (induction reqs arbitrary: s)
  case Nil
  then show ?case by (intro exI [of _ "s_tx s"] exI [of _ "\<lambda>_. []"]) (simp add: queued_mixed_def)
next
  case (Cons req reqs)
  obtain p d where req: "req = (p, d)" by (cases req)
  have c: "can_send (chan p) p s" "length d \<le> 1984" using Cons.prems(2) req by auto
  have "length (tx_view (s_tx s) p) + 2 \<le> 256" using spec [OF Cons.prems(3), of p] by simp
  from sendToLinkLayer_queues [OF c(1) this c(2) order.refl, of g "opts p"] obtain t1 xs where
    t1: "sendToLinkLayer g (chan p) p d (length d) (opts p) s = Inr (0, s\<lparr>s_tx := t1\<rparr>)"
      "can_send (chan p) p (s\<lparr>s_tx := t1\<rparr>)" "tx_frame (s_tx s) t1"
      "tx_view t1 = (tx_view (s_tx s))(p := tx_view (s_tx s) p @ xs)" "length xs \<le> 2"
      "message_packets (at0 (port_sequence (s_tx s)) p) p (chan p) (opts p) d xs"
    by (auto split: if_splits)
  have ok1: "tx_ok t1" using t1(2) by (simp add: can_send_def)
  have "\<forall>(q, e) \<in> set reqs. can_send (chan q) q (s\<lparr>s_tx := t1\<rparr>) \<and> length e \<le> 1984"
    using Cons.prems(2) can_send_frame [OF _ ok1 t1(3)] by auto
  moreover have "length (tx_view t1 q) + 2 * length reqs \<le> 256" for q
    using spec [OF Cons.prems(3), of q] t1(5) by (auto simp: t1(4))
  ultimately obtain t' mss where
    t': "send_mixed g chan opts reqs (s\<lparr>s_tx := t1\<rparr>) = Inr (replicate (length reqs) 0, s\<lparr>s_tx := t'\<rparr>)"
      "queued_mixed chan opts reqs mss t1 t'"
    using Cons.IH [of "s\<lparr>s_tx := t1\<rparr>"] ok1 by auto
  from queued_mixed_Cons [OF Cons.prems(1) ok1 t1(3,5,4,6) t'(2)] t1(1) t'(1) show ?case
    by (auto simp: req)
qed

lemma sum_requests: "(\<Sum>p\<in>UNIV. length (requests_of p reqs)) = length reqs"
proof (induction reqs)
  case (Cons req reqs)
  obtain q d where "req = (q, d)" by (cases req)
  then have "(\<Sum>p\<in>UNIV. length (requests_of p (req # reqs))) = (\<Sum>p\<in>UNIV. length (requests_of p reqs) + (if p = q then 1 else 0))"
    by (intro sum.cong) auto
  also have "\<dots> = Suc (length reqs)" using Cons by (simp add: sum.distrib)
  finally show ?case by simp
qed simp

lemma sum_all_u8: "(\<Sum>p\<leftarrow>all_u8. f p) = (\<Sum>p\<in>UNIV. f p)" for f :: "u8 \<Rightarrow> nat"
  by (simp add: sum_list_distinct_conv_sum_set distinct_all_u8)

text \<open>The transmission thread hands over every port's packets in order, mixed with those of other ports.\<close>

lemma transmission_of_ports:
  assumes "queued_mixed chan opts reqs mss t t'" "\<forall>q. tx_view t q = []" "\<not> sendingFragments t" "clear_way link t"
  shows "\<exists>sent t2. tx_iterations link (waiting t') t' = Inr (sent, t2) \<and> length sent \<le> 2 * length reqs \<and>
    (\<forall>p. map (stamp 0) (of_port p sent) = map (stamp 0) (concat (mss p))) \<and>
    (\<forall>x \<in> set sent. \<exists>k < 2 * length reqs. getGlobalSequence (p_header x) = global_seq_num t + of_nat k)"
proof -
  from assms(1) have ok: "tx_ok t'" and fr: "tx_frame t t'" and view: "\<And>p. tx_view t' p = concat (mss p)"
    and pk: "\<And>p. packets_for (at0 (port_sequence t) p) p (chan p) (opts p) (requests_of p reqs) (mss p)"
    using assms(2) by (simp_all add: queued_mixed_def)
  note f = tx_frame_fields [OF fr]
  have "tx_whole t'" using packets_for_last [OF pk] f(4) assms(3) by (simp add: tx_whole_def view)
  moreover have "clear_way link t'" using assms(4) f(3) by (simp add: clear_way_def)
  ultimately obtain sent t2 where s: "tx_iterations link (waiting t') t' = Inr (sent, t2)" "length sent = waiting t'"
    "\<forall>p. map (stamp 0) (of_port p sent) = map (stamp 0) (concat (mss p))"
    "\<forall>x \<in> set sent. \<exists>k < waiting t'. getGlobalSequence (p_header x) = global_seq_num t + of_nat k"
    using tx_iterations_drain [OF ok _ _ refl, of link] f(5) by (auto simp: view)
  have "waiting t' \<le> (\<Sum>p\<in>UNIV. 2 * length (requests_of p reqs))"
    unfolding waiting_def view using packets_for_length [OF pk] by (intro sum_mono) blast
  also have "\<dots> = 2 * length reqs" by (simp add: sum_distrib_left [symmetric] sum_requests)
  finally have w: "waiting t' \<le> 2 * length reqs" .
  have "\<exists>k < 2 * length reqs. getGlobalSequence (p_header x) = global_seq_num t + of_nat k" if "x \<in> set sent" for x
    using s(4) that w by (meson order.strict_trans2)
  with s w show ?thesis by auto
qed

lemma of_port_arrives: "of_port p (map (arrives opt) xs) = map (arrives opt) (of_port p xs)"
  by (induction xs) (simp_all add: arrives_def)

lemma mset_of_port: "mset xs = mset ys \<Longrightarrow> mset (of_port p xs) = mset (of_port p ys)"
  by (simp add: of_port_def)

lemma port_messages:
  "filter (\<lambda>m. msg_port m = p) (concat (map (\<lambda>q. map (message_of q) (zss q)) ps)) =
     concat (map (\<lambda>q. if q = p then map (message_of q) (zss q) else []) ps)"
  by (induction ps) (auto simp: message_of_def filter_empty_conv)

lemma concat_single: "distinct ps \<Longrightarrow> p \<in> set ps \<Longrightarrow> concat (map (\<lambda>q. if q = p then f q else []) ps) = f p"
proof (induction ps)
  case (Cons q ps)
  have "concat (map (\<lambda>q. if q = p then f q else []) ps) = []" if "p \<notin> set ps" using that by auto
  with Cons show ?case by auto
qed simp

lemma sorted_port_messages:
  "sorted ps \<Longrightarrow> sorted (map msg_port (concat (map (\<lambda>q. map (message_of q) (zss q)) ps)))"
  by (induction ps) (auto simp: sorted_append message_of_def comp_def map_replicate_const)

section \<open>Sender, link and receiver\<close>

text \<open>What the receiver makes of the packets of one port.\<close>

lemma port_received:
  assumes "packets_for sq p (chan p) (opts p) (requests_of p reqs) mss" "unat sq + 2 * length (requests_of p reqs) \<le> 256"
    and "map (stamp 0) xs = map (stamp 0) (concat mss)"
  shows "\<exists>zss. map (arrives opt) xs = concat zss \<and> messages_from sq zss \<and>
    map (\<lambda>ms. msg_data (message_of p ms)) zss = map Some (requests_of p reqs) \<and>
    (\<forall>y \<in> set (concat zss). fits y \<and> h_crc (p_header y) = crc16 (body y) \<and> getMessageType (p_header y) = 0 \<and> pkt_port y = p)"
proof -
  from list_all2_concatD [OF sent_same_wire [OF assms(3), of opt]] obtain zss where
    z: "map (arrives opt) xs = concat zss" "list_all2 (list_all2 same_wire) mss zss" by blast
  have "unat sq + length (concat mss) \<le> 256" using packets_for_length [OF assms(1)] assms(2) by simp
  from packets_for_received [OF assms(1) z(2) this] z(1) show ?thesis by blast
qed

lemma ports_received:
  assumes receiver: "rx_ok r" "rx_active r" "\<forall>req \<in> set reqs. open_ports r (fst req) \<noteq> None"
      "\<forall>p. rx_view r p = []" "available_messages r = Map.empty"
    and pk: "\<forall>p. packets_for (at0 (current_port_sequence r) p) p (chan p) (opts p) (requests_of p reqs) (mss p)"
    and room: "\<forall>p. unat (at0 (current_port_sequence r) p) + 2 * length (requests_of p reqs) \<le> 256"
      "unat (receiving_window r) + 2 * length reqs < 128"
    and sent: "length sent \<le> 2 * length reqs" "\<forall>p. map (stamp 0) (of_port p sent) = map (stamp 0) (concat (mss p))"
      "\<forall>x \<in> set sent. \<exists>k < 2 * length reqs. getGlobalSequence (p_header x) = to_consume_global_seq r + of_nat k"
    and ys: "mset ys = mset sent"
  shows "\<exists>r1 msgs r2. rx_feed (map (\<lambda>x. (opt x, f_channel (frame_for x), f_data (frame_for x))) ys) r = Inr r1 \<and>
    rx_consume (length reqs) r1 = Some (Inr (msgs, r2)) \<and> rx_ok r2 \<and> sorted (map msg_port msgs) \<and>
    (\<forall>p. map msg_data (filter (\<lambda>m. msg_port m = p) msgs) = map Some (requests_of p reqs)) \<and>
    (\<forall>m \<in> set msgs. msg_error m = 0)"
proof -
  have "\<forall>p. \<exists>zss. map (arrives opt) (of_port p sent) = concat zss \<and> messages_from (at0 (current_port_sequence r) p) zss \<and>
    map (\<lambda>ms. msg_data (message_of p ms)) zss = map Some (requests_of p reqs) \<and>
    (\<forall>y \<in> set (concat zss). fits y \<and> h_crc (p_header y) = crc16 (body y) \<and> getMessageType (p_header y) = 0 \<and> pkt_port y = p)"
    using port_received pk room(1) sent(2) by blast
  then obtain zss where zss: "\<And>p. map (arrives opt) (of_port p sent) = concat (zss p)"
      "\<forall>p. messages_from (at0 (current_port_sequence r) p) (zss p)"
      "\<And>p. map (\<lambda>ms. msg_data (message_of p ms)) (zss p) = map Some (requests_of p reqs)"
      "\<And>p y. y \<in> set (concat (zss p)) \<Longrightarrow> fits y \<and> h_crc (p_header y) = crc16 (body y) \<and> getMessageType (p_header y) = 0 \<and> pkt_port y = p"
    by metis
  have len: "length (zss p) = length (requests_of p reqs)" for p using zss(3) [of p] by (metis length_map)
  have valid: "valid_data r (arrives opt x) \<and> in_window r (arrives opt x)" if x: "x \<in> set ys" for x
  proof -
    let ?p = "pkt_port x"
    have xs: "x \<in> set sent" using x ys by (metis set_mset_mset)
    then have "arrives opt x \<in> set (map (arrives opt) (of_port ?p sent))" by (simp add: of_port_def)
    then have c: "arrives opt x \<in> set (concat (zss ?p))" by (simp only: zss(1))
    then have "requests_of ?p reqs \<noteq> []" using len [of ?p] by auto
    then have "open_ports r ?p \<noteq> None" using receiver(3) by (auto simp: requests_of_def filter_empty_conv)
    with zss(4) [OF c] have "valid_data r (arrives opt x)" by (simp add: valid_data_def)
    moreover from sent(3) xs obtain k where
      k: "k < 2 * length reqs" "getGlobalSequence (p_header x) = to_consume_global_seq r + of_nat k" by blast
    have "k < 128" using k(1) room(2) by linarith
    then have "uint (of_nat k :: u8) \<le> 128" using uint_nat [of "of_nat k :: u8"] by (simp add: unat_of_nat_u8)
    with k(2) have "in_window r (arrives opt x)" by (simp add: in_window_def arrives_def)
    ultimately show ?thesis ..
  qed
  have "length ys = length sent" using ys by (metis size_mset)
  then have win: "unat (receiving_window r) + length (map (arrives opt) ys) < 128" using room(2) sent(1) by simp
  have ms: "\<forall>p. mset (of_port p (map (arrives opt) ys)) = mset (concat (zss p))"
    using mset_of_port [OF ys] by (simp add: of_port_arrives flip: zss(1))
  have frames: "map rx_frame (map (arrives opt) ys) = map (\<lambda>x. (opt x, f_channel (frame_for x), f_data (frame_for x))) ys"
    by (simp add: rx_frame_arrives)
  have total: "(\<Sum>p\<leftarrow>all_u8. length (zss p)) = length reqs" by (simp add: sum_all_u8 len sum_requests)
  let ?msgs = "concat (map (\<lambda>p. map (message_of p) (zss p)) all_u8)"
  from ports_in_order [OF receiver(1,2,4,5) zss(2) _ win ms] valid obtain r1 r2 where
    r: "rx_feed (map rx_frame (map (arrives opt) ys)) r = Inr r1" "rx_consume (length reqs) r1 = Some (Inr (?msgs, r2))" "rx_ok r2"
    unfolding total by auto
  moreover have "map msg_data (filter (\<lambda>m. msg_port m = p) ?msgs) = map Some (requests_of p reqs)" for p
    using zss(3) [of p] by (simp add: port_messages concat_single distinct_all_u8 comp_def)
  moreover have "\<forall>m \<in> set ?msgs. msg_error m = 0" by (auto simp: message_of_def)
  ultimately show ?thesis using sorted_port_messages [OF sorted_all_u8, of zss] unfolding frames by blast
qed

section \<open>Properties\<close>



end
