(* ===== verification/Lossy_Link.thy ===== *)
theory Lossy_Link
  imports End_To_End
begin

text \<open>
  A link that loses frames. The receiver delivers exactly the messages before the first one that lacks
  a fragment, and then waits.
\<close>

section \<open>An incomplete queue\<close>

lemma whole_message_append: "whole_message xs \<Longrightarrow> whole_message (xs @ us) \<Longrightarrow> us = []"
proof (induction xs rule: whole_message.induct)
  case (2 x)
  then show ?case by (cases us) auto
qed auto

lemma whole_message_prefix_unique:
  assumes "whole_message xs" "whole_message ys" "prefix xs zs" "prefix ys zs"
  shows "xs = ys"
  using prefix_same_cases [OF assms(3,4)] assms(1,2) by (auto simp: prefix_def dest: whole_message_append)

lemma seqs_from_inj:
  assumes "map seq_of zs = seqs_from s (length zs)" "length zs \<le> 256"
  shows "inj_on seq_of (set zs) \<and> distinct zs"
proof -
  have "distinct (map of_nat [0..<length zs] :: u8 list)"
    using assms(2) by (auto simp: distinct_map inj_on_def of_nat_u8_inject)
  then have "distinct (seqs_from s (length zs))" by (auto simp: seqs_from_def distinct_map inj_on_def)
  with assms(1) show ?thesis by (metis distinct_map)
qed

text \<open>A message that lacks a fragment is not taken for complete.\<close>

lemma incomplete_message:
  assumes "map seq_of (ms @ zs) = seqs_from s (length (ms @ zs))" "length (ms @ zs) \<le> 256"
    and "whole_message ms" "whole_message ms'" "map seq_of ms' = seqs_from s (length ms')"
    and "filter P (ms @ zs) = ms' @ rest"
  shows "\<forall>x \<in> set ms. P x"
proof -
  let ?zs = "ms @ zs"
  note inj = seqs_from_inj [OF assms(1,2)]
  have len: "length ms' \<le> length ?zs" using assms(6) length_filter_le [of P ?zs] by simp
  have "set (ms' @ rest) \<subseteq> set ?zs" unfolding assms(6) [symmetric] by (rule filter_is_subset)
  then have sub: "x \<in> set ?zs" if "x \<in> set ms'" for x using that by auto
  have "ms' ! i = ?zs ! i" if i: "i < length ms'" for i
  proof -
    have "seq_of (ms' ! i) = s + of_nat i" "seq_of (?zs ! i) = s + of_nat i"
      using i len arg_cong [OF assms(5), of "\<lambda>l. l ! i"] arg_cong [OF assms(1), of "\<lambda>l. l ! i"]
      by (simp_all add: seqs_from_def del: map_append)
    moreover have "ms' ! i \<in> set ?zs" "?zs ! i \<in> set ?zs"
      by (rule sub [OF nth_mem [OF i]], rule nth_mem) (use i len in simp)
    ultimately show ?thesis using inj by (simp add: inj_on_def)
  qed
  then have "ms' = take (length ms') ?zs" using len by (intro nth_equalityI) (simp_all del: take_append)
  then have "prefix ms' ?zs" by (metis take_is_prefix)
  then have "ms' = ms" using whole_message_prefix_unique [OF assms(4,3)] by simp
  then show ?thesis using arg_cong [OF assms(6), of set] by auto
qed

section \<open>Receiving some of the frames\<close>

text \<open>The messages before the first one that lacks a fragment.\<close>

definition received_whole :: "S3TP_PACKET set \<Rightarrow> S3TP_PACKET list list \<Rightarrow> S3TP_PACKET list list" where
  "received_whole X mss = takeWhile (\<lambda>ms. set ms \<subseteq> X) mss"

lemma complete_partial:
  assumes "messages_from (at0 (current_port_sequence r) p) (ms # mss)" "length (concat (ms # mss)) \<le> 256"
    and "rx_view r p = filter (\<lambda>z. z \<in> X) (concat (ms # mss))"
  shows "complete r p \<longleftrightarrow> set ms \<subseteq> X"
proof
  let ?s = "at0 (current_port_sequence r) p"
  have m: "whole_message ms" "numbered ?s ms" "unat ?s + length ms \<le> 256" using assms(1) by simp_all
  assume "complete r p"
  then obtain ms' rest where ms': "rx_view r p = ms' @ rest" "whole_message ms'" "map seq_of ms' = seqs_from ?s (length ms')"
    using complete_loop_message [of ?s 0 "rx_view r p"] by (auto simp: complete_def)
  have "filter (\<lambda>z. z \<in> X) (ms @ concat mss) = ms' @ rest" using assms(3) ms'(1) by simp
  from incomplete_message [OF _ _ m(1) ms'(2,3) this] messages_from_seq [OF assms(1)] assms(2)
  show "set ms \<subseteq> X" by (simp only: concat.simps) blast
next
  let ?s = "at0 (current_port_sequence r) p"
  have m: "whole_message ms" "numbered ?s ms" "unat ?s + length ms \<le> 256" using assms(1) by simp_all
  assume "set ms \<subseteq> X"
  then have "filter (\<lambda>z. z \<in> X) ms = ms" by (intro filter_True) auto
  with assms(3) have "rx_view r p = ms @ filter (\<lambda>z. z \<in> X) (concat mss)" by simp
  with complete_numbered [OF m(1,2)] m(3) show "complete r p" by (simp add: complete_def)
qed

lemma rx_consume_partial:
  assumes "rx_ok r" "rx_active r" "messages_from (at0 (current_port_sequence r) p) mss" "length (concat mss) \<le> 256"
    and "rx_view r p = filter (\<lambda>z. z \<in> X) (concat mss)" "dom (available_messages r) = (if complete r p then {p} else {})"
  shows "\<exists>r'. rx_consume (length (received_whole X mss)) r = Some (Inr (map (message_of p) (received_whole X mss), r')) \<and>
    rx_ok r' \<and> available_messages r' = Map.empty"
  using assms
proof (induction mss arbitrary: r)
  case Nil
  then show ?case by (simp add: received_whole_def complete_def)
next
  case (Cons ms mss)
  let ?s = "at0 (current_port_sequence r) p"
  note part = complete_partial [OF Cons.prems(3-5)]
  show ?case
  proof (cases "set ms \<subseteq> X")
    case False
    with part Cons.prems(1,6) show ?thesis by (simp add: received_whole_def)
  next
    case True
    have m: "whole_message ms" "map seq_of ms = seqs_from ?s (length ms)" "messages_from (?s + of_nat (length ms)) mss"
      using Cons.prems(3) by (simp_all add: numbered_def)
    have "filter (\<lambda>z. z \<in> X) ms = ms" using True by (intro filter_True) auto
    then have view: "rx_view r p = ms @ filter (\<lambda>z. z \<in> X) (concat mss)" using Cons.prems(5) by simp
    have b: "map_begin (available_messages r) = Some p" using map_begin_single [of _ p] Cons.prems(6) part True by simp
    from getNextCompleteMessage_ok [OF Cons.prems(1,2) b view m(1,2)] obtain r1 where
      r1: "getNextCompleteMessage r = Some (Inr (message_of p ms, r1))" "rx_ok r1" "rx_active r1"
        "rx_view r1 = (rx_view r)(p := filter (\<lambda>z. z \<in> X) (concat mss))"
        "at0 (current_port_sequence r1) p = ?s + of_nat (length ms)"
        "available_messages r1 = (if complete r1 p then (available_messages r)(p \<mapsto> 1) else (available_messages r)(p := None))"
      unfolding message_of_def by auto
    have "dom (available_messages r1) = (if complete r1 p then {p} else {})"
      using r1(6) Cons.prems(6) part True by auto
    moreover have "messages_from (at0 (current_port_sequence r1) p) mss" "rx_view r1 p = filter (\<lambda>z. z \<in> X) (concat mss)"
      "length (concat mss) \<le> 256" using m(3) r1(4,5) Cons.prems(4) by simp_all
    ultimately obtain r' where "rx_consume (length (received_whole X mss)) r1 = Some (Inr (map (message_of p) (received_whole X mss), r'))"
      "rx_ok r'" "available_messages r' = Map.empty" using Cons.IH [OF r1(2,3)] by blast
    with r1(1) True show ?thesis by (simp add: received_whole_def)
  qed
qed

lemma sorted_part:
  assumes seq: "map seq_of zs = seqs_from (at0 (current_port_sequence r) p) (length zs)" and len: "length zs \<le> 256"
    and sub: "mset xs \<subseteq># mset zs"
  shows "fold (insort_key (rx_key r p)) xs [] = filter (\<lambda>z. z \<in> set xs) zs"
proof -
  have set: "set xs \<subseteq> set zs" using sub by (metis set_mset_mset set_mset_mono)
  have d: "distinct zs" using seqs_from_inj [OF seq len] by simp
  have "count (mset xs) a \<le> 1" for a
    using mset_subset_eq_count [OF sub, of a] d [unfolded distinct_count_atmost_1, rule_format, of a]
    by (metis le_trans less_one linorder_not_less zero_le_one nle_le)
  then have "count (mset xs) a = (if a \<in> set xs then 1 else 0)" for a
    by (metis One_nat_def count_mset_0_iff le_SucE le_zero_eq)
  then have "distinct xs" by (simp add: distinct_count_atmost_1)
  with d set have "mset (rev xs) = mset (filter (\<lambda>z. z \<in> set xs) zs)"
    by (intro set_eq_iff_mset_eq_distinct [THEN iffD1]) auto
  then have "sort_key (rx_key r p) (rev xs) = filter (\<lambda>z. z \<in> set xs) zs"
    using rx_keys_ascending [OF seq len] set sorted_filter [of "rx_key r p" zs]
    by (intro sort_key_inj_key_eq) (auto intro: inj_on_subset)
  then show ?thesis by (simp add: sort_key_def foldr_conv_fold)
qed

text \<open>Some frames of the messages \<open>mss\<close> arrive: the port is announced exactly when its first message is there.\<close>

lemma rx_feed_partial:
  assumes "rx_ok r" "rx_active r" "rx_view r p = []" "available_messages r = Map.empty"
    and mss: "messages_from (at0 (current_port_sequence r) p) mss"
    and zs: "\<forall>x \<in> set (concat mss). valid_data r x \<and> getPort (p_header x) = p \<and> in_window r x"
    and win: "unat (receiving_window r) + length (concat mss) < 128" and sub: "mset xs \<subseteq># mset (concat mss)"
  shows "\<exists>r'. rx_feed (map rx_frame xs) r = Inr r' \<and> rx_ok r' \<and> rx_active r' \<and>
    rx_view r' p = filter (\<lambda>z. z \<in> set xs) (concat mss) \<and> current_port_sequence r' = current_port_sequence r \<and>
    dom (available_messages r') = (if complete r' p then {p} else {})"
proof -
  note seq = messages_from_seq [OF mss]
  have len: "length xs \<le> length (concat mss)" using sub by (metis size_mset size_mset_mono)
  have "\<forall>x \<in> set xs. valid_data r x \<and> getPort (p_header x) = p \<and> in_window r x"
    using zs sub by (metis set_mset_mset set_mset_mono subsetD)
  then obtain r' where r': "rx_feed (map rx_frame xs) r = Inr r'" "rx_ok r'" "rx_active r'"
    "rx_view r' = (rx_view r)(p := fold (insort_key (rx_key r p)) xs [])"
    "current_port_sequence r' = current_port_sequence r" "dom (available_messages r') \<subseteq> {p}"
    "xs \<noteq> [] \<and> complete r' p \<longrightarrow> p \<in> dom (available_messages r')"
    "p \<in> dom (available_messages r') \<longrightarrow>
      (\<exists>ys us. xs = ys @ us \<and> rx_complete_loop (at0 (current_port_sequence r) p) 0 (fold (insort_key (rx_key r p)) ys []))"
    using rx_feed_insert [OF assms(1,2), of p xs] assms(3,4) win len by auto
  have view: "rx_view r' p = filter (\<lambda>z. z \<in> set xs) (concat mss)" using sorted_part [OF seq _ sub] win r'(4) by simp
  have "complete r' p" if p: "p \<in> dom (available_messages r')"
  proof -
    from r'(8) p obtain ys us where ys: "xs = ys @ us" "rx_complete_loop (at0 (current_port_sequence r) p) 0 (fold (insort_key (rx_key r p)) ys [])"
      by blast
    have "mset ys \<subseteq># mset (concat mss)" using sub ys(1) by (metis mset_append mset_subset_eq_add_left subset_mset.order_trans)
    then have part: "fold (insort_key (rx_key r p)) ys [] = filter (\<lambda>z. z \<in> set ys) (concat mss)"
      using win by (intro sorted_part [OF seq]) simp_all
    from complete_loop_message [OF ys(2) [unfolded part]] obtain ms' rest where
      m': "filter (\<lambda>z. z \<in> set ys) (concat mss) = ms' @ rest" "whole_message ms'"
        "map seq_of ms' = seqs_from (at0 (current_port_sequence r) p) (length ms')" by auto
    then obtain ms mss' where ms: "mss = ms # mss'" by (cases mss) auto
    have "\<forall>x \<in> set ms. x \<in> set ys"
      by (rule incomplete_message [OF _ _ _ m'(2,3)]) (use seq win mss m'(1) ms in auto)
    then have "set ms \<subseteq> set xs" using ys(1) by auto
    with complete_partial [of r' p ms mss' "set xs"] mss view win ms r'(5) show ?thesis by simp
  qed
  moreover have "xs = [] \<Longrightarrow> \<not> complete r' p" using view by (simp add: complete_def)
  ultimately have "dom (available_messages r') = (if complete r' p then {p} else {})" using r'(6,7) by auto
  with r' view show ?thesis by blast
qed

section \<open>Sender, link and receiver\<close>

text \<open>The frames \<open>sent\<close>, grouped by message.\<close>

lemma sent_groups:
  assumes "sent_copies gs mss sent"
  shows "\<exists>sss. sent = concat sss \<and> list_all2 (list_all2 same_wire) mss (map (map (arrives opt)) sss)"
proof -
  have "list_all2 (\<lambda>y x. stamp 0 x = stamp 0 y) (concat mss) sent"
    using assms unfolding sent_copies_def
    by (auto simp: list_all2_conv_all_nth dest: map_eq_imp_length_eq) (metis length_map nth_map)
  from list_all2_concatD [OF this] obtain sss where
    sss: "sent = concat sss" "list_all2 (list_all2 (\<lambda>y x. stamp 0 x = stamp 0 y)) mss sss" by blast
  have "list_all2 (list_all2 same_wire) mss (map (map (arrives opt)) sss)"
    using sss(2) by (auto simp: list_all2_map2 intro!: same_wire_arrives elim!: list_all2_mono)
  with sss(1) show ?thesis by blast
qed

lemma arrives_subset:
  assumes "inj_on seq_of (set sent)" "set ys \<subseteq> set sent" "set ms \<subseteq> set sent"
  shows "set (map (arrives opt) ms) \<subseteq> set (map (arrives opt) ys) \<longleftrightarrow> set ms \<subseteq> set ys"
proof -
  have "x \<in> set ys" if x: "arrives opt x \<in> arrives opt ` set ys" "x \<in> set ms" for x
  proof -
    from x(1) obtain y where y: "y \<in> set ys" "arrives opt x = arrives opt y" by blast
    have "seq_of x = seq_of y" using arg_cong [OF y(2), of p_header] by (simp add: arrives_def)
    then have "x = y" using inj_onD [OF assms(1)] y(1) x(2) assms(2,3) by blast
    with y(1) show ?thesis by simp
  qed
  then show ?thesis unfolding set_map by blast
qed

lemma receiver_gets_part:
  assumes receiver: "rx_ok r" "rx_active r" "open_ports r p \<noteq> None" "rx_view r p = []" "available_messages r = Map.empty"
    and sent: "packets_for (at0 (current_port_sequence r) p) p channel opts ds mss"
      "sent_copies (to_consume_global_seq r) mss sent"
    and room: "unat (at0 (current_port_sequence r) p) + 2 * length ds \<le> 256"
      "unat (receiving_window r) + 2 * length ds < 128"
    and ys: "mset ys \<subseteq># mset sent"
  shows "\<exists>sss r1 msgs r2. sent = concat sss \<and> map (\<lambda>ms. concat (map body ms)) sss = ds \<and>
    rx_feed (map (\<lambda>x. (opt x, f_channel (frame_for x), f_data (frame_for x))) ys) r = Inr r1 \<and>
    rx_consume (length (received_whole (set ys) sss)) r1 = Some (Inr (msgs, r2)) \<and>
    map msg_data msgs = map Some (take (length (received_whole (set ys) sss)) ds) \<and>
    (\<forall>m \<in> set msgs. msg_error m = 0 \<and> msg_port m = p) \<and> rx_ok r2 \<and> available_messages r2 = Map.empty"
proof -
  have len: "length (concat mss) \<le> 2 * length ds" using packets_for_length [OF sent(1)] by simp
  from sent_groups [OF sent(2), of opt] obtain sss where
    sss: "sent = concat sss" "list_all2 (list_all2 same_wire) mss (map (map (arrives opt)) sss)" by blast
  let ?zss = "map (map (arrives opt)) sss"
  have zs: "concat ?zss = map (arrives opt) sent" by (simp add: sss(1) map_concat)
  have "unat (at0 (current_port_sequence r) p) + length (concat mss) \<le> 256" using room(1) len by simp
  note rc = packets_for_received [OF sent(1) sss(2) this]
  have n: "length sent \<le> 2 * length ds" using sent(2) len unfolding sent_copies_def by (metis length_map)
  have "in_window r z" if "z \<in> set (concat ?zss)" for z
    using that sent_copies_in_window [OF sent(2), of _ opt] len room(2) unfolding zs by auto
  then have v: "\<forall>x \<in> set (concat ?zss). valid_data r x \<and> getPort (p_header x) = p \<and> in_window r x"
    using rc(4) receiver(3) by (auto simp: valid_data_def)
  have w: "unat (receiving_window r) + length (concat ?zss) < 128" using n room(2) by (simp only: zs length_map)
  have sub: "mset (map (arrives opt) ys) \<subseteq># mset (concat ?zss)" using ys by (simp only: zs mset_map image_mset_subseteq_mono)
  from rx_feed_partial [OF receiver(1,2,4,5) rc(1) v w sub] obtain r1 where
    r1: "rx_feed (map rx_frame (map (arrives opt) ys)) r = Inr r1" "rx_ok r1" "rx_active r1"
      "rx_view r1 p = filter (\<lambda>z. z \<in> set (map (arrives opt) ys)) (concat ?zss)" "current_port_sequence r1 = current_port_sequence r"
      "dom (available_messages r1) = (if complete r1 p then {p} else {})" by blast
  have m1: "messages_from (at0 (current_port_sequence r1) p) ?zss" "length (concat ?zss) \<le> 256" using rc(1) r1(5) w by simp_all
  from rx_consume_partial [OF r1(2,3) m1 r1(4,6)] obtain r2 where
    r2: "rx_consume (length (received_whole (set (map (arrives opt) ys)) ?zss)) r1 =
        Some (Inr (map (message_of p) (received_whole (set (map (arrives opt) ys)) ?zss), r2))"
      "rx_ok r2" "available_messages r2 = Map.empty" by blast
  have keep: "body (arrives opt x) = body x" "seq_of (arrives opt x) = seq_of x" for x by (simp_all add: body_def arrives_def)
  have data: "map (\<lambda>ms. concat (map body ms)) sss = ds"
  proof -
    have "map (\<lambda>ms. msg_data (message_of p ms)) ?zss = map (\<lambda>ms. Some (concat (map body ms))) sss"
      by (simp add: message_of_def comp_def keep(1))
    with rc(2) have "map Some (map (\<lambda>ms. concat (map body ms)) sss) = map Some ds" by (simp add: comp_def)
    then show ?thesis by (simp only: map_injective inj_Some)
  qed
  have "map seq_of sent = seqs_from (at0 (current_port_sequence r) p) (length sent)"
    using messages_from_seq [OF rc(1)] unfolding zs by (simp add: comp_def keep(2))
  then have "inj_on seq_of (set sent)" using seqs_from_inj [of sent] n room(1) by auto
  moreover have "set ys \<subseteq> set sent" using ys by (metis set_mset_mset set_mset_mono)
  ultimately have "takeWhile (\<lambda>ms. set (map (arrives opt) ms) \<subseteq> set (map (arrives opt) ys)) sss = takeWhile (\<lambda>ms. set ms \<subseteq> set ys) sss"
    by (intro takeWhile_cong refl arrives_subset [of sent]) (auto simp: sss(1))
  then have part: "received_whole (set (map (arrives opt) ys)) ?zss = map (map (arrives opt)) (received_whole (set ys) sss)"
    unfolding received_whole_def takeWhile_map comp_def by simp
  define k where "k = length (received_whole (set ys) sss)"
  have pre: "received_whole (set ys) sss = take k sss"
    unfolding received_whole_def k_def by (rule takeWhile_eq_take)
  have "map (\<lambda>ms. msg_data (message_of p (map (arrives opt) ms))) (take k sss) = map Some (take k ds)"
    by (simp add: message_of_def comp_def keep(1) data [symmetric] take_map)
  then have d: "map msg_data (map (\<lambda>ms. message_of p (map (arrives opt) ms)) (take k sss)) = map Some (take k ds)"
    by (simp add: comp_def)
  have k: "length (take k sss) = k" using k_def pre by simp
  have c: "rx_consume k r1 = Some (Inr (map (\<lambda>ms. message_of p (map (arrives opt) ms)) (take k sss), r2))"
    using r2(1) unfolding part pre by (simp only: length_map k map_map comp_def)
  have feed: "map rx_frame (map (arrives opt) ys) = map (\<lambda>x. (opt x, f_channel (frame_for x), f_data (frame_for x))) ys"
    by (simp add: rx_frame_arrives)
  have ok: "\<forall>m \<in> set (map (\<lambda>ms. message_of p (map (arrives opt) ms)) (take k sss)). msg_error m = 0 \<and> msg_port m = p"
    by (auto simp: message_of_def)
  show ?thesis
    by (rule exI [of _ sss], rule exI [of _ r1], rule exI, rule exI [of _ r2])
       (use sss(1) data r1(1) [unfolded feed] c [unfolded k_def] d [unfolded k_def] ok [unfolded k_def] r2(2,3) in blast)
qed

section \<open>Properties\<close>



end
