(* ===== verification/Linked_Queue.thy ===== *)
theory Linked_Queue
  imports Priority_Queue
begin

text \<open>
  The priority queue of \<^verbatim>\<open>core/PriorityQueue.h\<close> with its doubly linked nodes on a heap: every
  pointer the code follows, writes or frees. The representation invariant says that the chain of
  \<^verbatim>\<open>next\<close> pointers from \<^verbatim>\<open>head\<close> and the chain of \<^verbatim>\<open>prev\<close> pointers from \<^verbatim>\<open>tail\<close> visit the same
  nodes, and that these are all the nodes allocated. The interpretation at the end shows that the
  linked queue honours the contract of \<^verbatim>\<open>Priority_Queue.thy\<close>.
\<close>

section \<open>Nodes and the queue\<close>

record 'a PriorityQueue_node =
  nd_element :: 'a
  nd_next :: "nat option"
  nd_prev :: "nat option"

record 'a LinkedQueue =
  lq_heap :: "nat \<rightharpoonup> 'a PriorityQueue_node"
  lq_head :: "nat option"
  lq_tail :: "nat option"
  lq_size :: u16
  lq_fresh :: nat

definition lq_new :: "'a LinkedQueue" where
  "lq_new = \<lparr>lq_heap = Map.empty, lq_head = None, lq_tail = None, lq_size = 0, lq_fresh = 0\<rparr>"

definition lq_deref :: "'a LinkedQueue \<Rightarrow> nat option \<Rightarrow> 'a PriorityQueue_node result" where
  "lq_deref q p =
     (case p of None \<Rightarrow> Inl NullDeref
      | Some a \<Rightarrow> (case lq_heap q a of None \<Rightarrow> Inl Dangling | Some nd \<Rightarrow> Inr nd))"

definition lq_write ::
  "nat option \<Rightarrow> ('a PriorityQueue_node \<Rightarrow> 'a PriorityQueue_node) \<Rightarrow> 'a LinkedQueue \<Rightarrow>
   'a LinkedQueue result" where
  "lq_write p f q =
     bind_res (lq_deref q p) (\<lambda>nd. Inr (q\<lparr>lq_heap := (lq_heap q)(the p \<mapsto> f nd)\<rparr>))"

definition lq_isEmpty :: "'a LinkedQueue \<Rightarrow> bool" where
  "lq_isEmpty q \<longleftrightarrow> lq_size q = 0"

definition lq_peek :: "'a LinkedQueue \<Rightarrow> 'a result" where
  "lq_peek q =
     (if lq_isEmpty q then Inl AssertFail
      else bind_res (lq_deref q (lq_head q)) (\<lambda>nd. Inr (nd_element nd)))"

definition lq_pop :: "'a LinkedQueue \<Rightarrow> ('a \<times> 'a LinkedQueue) result" where
  "lq_pop q =
     (if lq_isEmpty q then Inl AssertFail
      else let ref = lq_head q in
        bind_res (lq_deref q ref) (\<lambda>nd.
        bind_res (if nd_next nd = None then Inr (q\<lparr>lq_tail := None, lq_head := None\<rparr>)
                  else lq_write (nd_next nd) (\<lambda>m. m\<lparr>nd_prev := None\<rparr>) (q\<lparr>lq_head := nd_next nd\<rparr>))
        (\<lambda>q'. Inr (nd_element nd,
                q'\<lparr>lq_heap := (lq_heap q')(the ref := None), lq_size := lq_size q' - 1\<rparr>))))"

text \<open>The two ways the search of \<^verbatim>\<open>push\<close> links the new node \<open>n\<close> in.\<close>

definition lq_link_after :: "nat \<Rightarrow> nat \<Rightarrow> nat option \<Rightarrow> 'a LinkedQueue \<Rightarrow> 'a LinkedQueue result" where
  "lq_link_after n r swap q =
     bind_res (lq_write (Some r) (\<lambda>m. m\<lparr>nd_next := Some n\<rparr>) q) (\<lambda>q.
     bind_res (lq_write (Some n) (\<lambda>m. m\<lparr>nd_prev := Some r\<rparr>) q) (\<lambda>q.
     bind_res (lq_write (Some n) (\<lambda>m. m\<lparr>nd_next := swap\<rparr>) q) (\<lambda>q.
       if swap \<noteq> None then lq_write swap (\<lambda>m. m\<lparr>nd_prev := Some n\<rparr>) q
       else Inr (q\<lparr>lq_tail := Some n\<rparr>))))"

definition lq_link_head :: "nat \<Rightarrow> nat \<Rightarrow> 'a LinkedQueue \<Rightarrow> 'a LinkedQueue result" where
  "lq_link_head n r q =
     bind_res (lq_write (Some r) (\<lambda>m. m\<lparr>nd_prev := Some n\<rparr>) q) (\<lambda>q.
     bind_res (lq_write (Some n) (\<lambda>m. m\<lparr>nd_next := Some r\<rparr>) q) (\<lambda>q.
       Inr (q\<lparr>lq_head := Some n\<rparr>)))"

partial_function (option) lq_push_loop ::
  "('a \<Rightarrow> 'a \<Rightarrow> int) \<Rightarrow> 'a \<Rightarrow> nat \<Rightarrow> 'a LinkedQueue \<Rightarrow> nat option \<Rightarrow> 'a LinkedQueue result option" where
  "lq_push_loop cmp x n q ref =
     (if ref = None then Some (Inr (q\<lparr>lq_head := Some n, lq_tail := Some n\<rparr>))
      else case lq_deref q ref of Inl e \<Rightarrow> Some (Inl e)
      | Inr nd \<Rightarrow>
          if cmp (nd_element nd) x < 0 then Some (lq_link_after n (the ref) (nd_next nd) q)
          else if nd_prev nd = None then Some (lq_link_head n (the ref) q)
          else lq_push_loop cmp x n q (nd_prev nd))"

definition lq_push ::
  "'a \<Rightarrow> 'a PolicyActor \<Rightarrow> 'a LinkedQueue \<Rightarrow> (int \<times> 'a LinkedQueue) result option" where
  "lq_push x comparator q =
     (if unat (lq_size q) \<ge> MAX_QUEUE_CAPACITY then Some (Inr (QUEUE_FULL, q))
      else let n = lq_fresh q;
               q1 = q\<lparr>lq_heap := (lq_heap q)(n \<mapsto> \<lparr>nd_element = x, nd_next = None, nd_prev = None\<rparr>),
                      lq_fresh := Suc n\<rparr>
           in case lq_push_loop (comparePriority comparator) x n q1 (lq_tail q1) of
                None \<Rightarrow> None
              | Some (Inl e) \<Rightarrow> Some (Inl e)
              | Some (Inr q2) \<Rightarrow> Some (Inr (0, q2\<lparr>lq_size := lq_size q2 + 1\<rparr>)))"

definition lq_getSize :: "'a LinkedQueue \<Rightarrow> u16" where
  "lq_getSize q = lq_size q"

partial_function (option) lq_clear_loop :: "'a LinkedQueue \<Rightarrow> nat option \<Rightarrow> 'a LinkedQueue result option" where
  "lq_clear_loop q ref =
     (if ref = None then Some (Inr q)
      else case lq_deref q ref of Inl e \<Rightarrow> Some (Inl e)
      | Inr nd \<Rightarrow> lq_clear_loop (q\<lparr>lq_head := nd_next nd, lq_heap := (lq_heap q)(the ref := None)\<rparr>)
                     (nd_next nd))"

definition lq_clear :: "'a LinkedQueue \<Rightarrow> 'a LinkedQueue result option" where
  "lq_clear q =
     (case lq_clear_loop q (lq_head q) of
        Some (Inr q') \<Rightarrow> Some (Inr (q'\<lparr>lq_tail := lq_head q', lq_size := 0\<rparr>))
      | r \<Rightarrow> r)"

primrec lq_walk :: "nat \<Rightarrow> (nat \<rightharpoonup> 'a PriorityQueue_node) \<Rightarrow> nat option \<Rightarrow> 'a list" where
  "lq_walk 0 h p = []"
| "lq_walk (Suc k) h p =
     (case p of None \<Rightarrow> []
      | Some a \<Rightarrow> (case h a of None \<Rightarrow> [] | Some nd \<Rightarrow> nd_element nd # lq_walk k h (nd_next nd)))"

definition lq_contents :: "'a LinkedQueue \<Rightarrow> 'a list" where
  "lq_contents q = lq_walk (lq_fresh q) (lq_heap q) (lq_head q)"

section \<open>Doubly linked segments\<close>

text \<open>
  \<open>seg h pv st ps lst nx\<close>: from \<open>st\<close> the heap holds the nodes \<open>ps\<close> (addresses with
  elements) in order, the first one points back to \<open>pv\<close>, the last one is \<open>lst\<close> and points on
  to \<open>nx\<close>.
\<close>

fun seg :: "(nat \<rightharpoonup> 'a PriorityQueue_node) \<Rightarrow> nat option \<Rightarrow> nat option \<Rightarrow> (nat \<times> 'a) list \<Rightarrow>
    nat option \<Rightarrow> nat option \<Rightarrow> bool" where
  "seg h pv st [] lst nx \<longleftrightarrow> st = nx \<and> lst = pv"
| "seg h pv st ((a, x) # ps) lst nx \<longleftrightarrow>
     st = Some a \<and> (\<exists>k. h a = Some \<lparr>nd_element = x, nd_next = k, nd_prev = pv\<rparr> \<and>
                        seg h (Some a) k ps lst nx)"

lemma seg_append:
  "seg h pv st (ps @ qs) lst nx \<longleftrightarrow> (\<exists>m k. seg h pv st ps m k \<and> seg h m k qs lst nx)"
  by (induction ps arbitrary: pv st) (auto, blast+)

lemma seg_frame [simp]: "a \<notin> fst ` set ps \<Longrightarrow> seg (h(a := v)) pv st ps lst nx = seg h pv st ps lst nx"
  by (induction ps arbitrary: pv st) auto

lemma seg_walk:
  "seg h pv st ps lst None \<Longrightarrow> length ps \<le> n \<Longrightarrow> lq_walk n h st = map snd ps"
proof (induction ps arbitrary: pv st n)
  case Nil
  then show ?case by (cases n) auto
next
  case (Cons p ps)
  then show ?case by (cases n; cases p) auto
qed

definition lq_rep :: "'a LinkedQueue \<Rightarrow> (nat \<times> 'a) list \<Rightarrow> bool" where
  "lq_rep q ps \<longleftrightarrow> seg (lq_heap q) None (lq_head q) ps (lq_tail q) None \<and>
     distinct (map fst ps) \<and> dom (lq_heap q) = fst ` set ps \<and>
     (\<forall>a \<in> fst ` set ps. a < lq_fresh q) \<and> lq_size q = of_nat (length ps)"

definition lq_ok :: "'a LinkedQueue \<Rightarrow> bool" where
  "lq_ok q \<longleftrightarrow> (\<exists>ps. lq_rep q ps)"

lemma lq_rep_contents:
  assumes "lq_rep q ps"
  shows "lq_contents q = map snd ps"
proof -
  have "fst ` set ps \<subseteq> {..<lq_fresh q}" "distinct (map fst ps)"
    using assms by (auto simp: lq_rep_def)
  then have "length ps \<le> lq_fresh q"
    by (metis card_lessThan card_mono distinct_card finite_lessThan image_set length_map)
  with assms show ?thesis by (auto simp: lq_contents_def lq_rep_def intro: seg_walk)
qed

section \<open>Linking a node in\<close>

text \<open>
  A queue whose chain \<open>ps\<close> is intact and whose heap also holds one loose node \<open>n\<close>: the state
  in which the search of \<^verbatim>\<open>push\<close> runs.
\<close>

definition lq_loose :: "'a LinkedQueue \<Rightarrow> (nat \<times> 'a) list \<Rightarrow> nat \<Rightarrow> 'a \<Rightarrow> bool" where
  "lq_loose q ps n x \<longleftrightarrow> seg (lq_heap q) None (lq_head q) ps (lq_tail q) None \<and>
     distinct (n # map fst ps) \<and> dom (lq_heap q) = insert n (fst ` set ps) \<and>
     lq_heap q n = Some \<lparr>nd_element = x, nd_next = None, nd_prev = None\<rparr>"

definition lq_linked :: "'a LinkedQueue \<Rightarrow> 'a LinkedQueue \<Rightarrow> (nat \<times> 'a) list \<Rightarrow> bool" where
  "lq_linked q q' ps \<longleftrightarrow> seg (lq_heap q') None (lq_head q') ps (lq_tail q') None \<and>
     dom (lq_heap q') = fst ` set ps \<and> lq_size q' = lq_size q \<and> lq_fresh q' = lq_fresh q"

lemma lq_link_after_ok:
  assumes "lq_loose q (bs @ (r, y) # cs) n x" and "lq_heap q r = Some nd"
  shows "\<exists>q'. lq_link_after n r (nd_next nd) q = Inr q' \<and> lq_linked q q' (bs @ (r, y) # (n, x) # cs)"
  using assms
  by (cases cs)
     (auto simp: lq_loose_def lq_linked_def lq_link_after_def lq_write_def lq_deref_def seg_append)

lemma lq_link_head_ok:
  assumes "lq_loose q ((r, y) # cs) n x"
  shows "\<exists>q'. lq_link_head n r q = Inr q' \<and> lq_linked q q' ((n, x) # (r, y) # cs)"
  using assms
  by (auto simp: lq_loose_def lq_linked_def lq_link_head_def lq_write_def lq_deref_def)

lemma lq_loose_node:
  assumes "lq_loose q (bs @ (r, y) # cs) n x"
  shows "\<exists>k. lq_heap q r = Some \<lparr>nd_element = y, nd_next = k,
    nd_prev = (if bs = [] then None else Some (fst (last bs)))\<rparr>"
  using assms
  by (cases bs rule: rev_cases) (auto simp: lq_loose_def seg_append split: prod.splits)

lemma lq_push_loop_ok:
  assumes "lq_loose q (bs @ (r, y) # cs) n x"
  shows "\<exists>q'. lq_push_loop cmp x n q (Some r) = Some (Inr q') \<and>
    lq_linked q q' (pq_push_loop (\<lambda>a b. cmp (snd a) (snd b)) (n, x) ((r, y) # rev bs) cs)"
  using assms
proof (induction bs arbitrary: r y cs rule: rev_induct)
  case Nil
  from lq_loose_node [OF Nil] obtain k where
    k: "lq_heap q r = Some \<lparr>nd_element = y, nd_next = k, nd_prev = None\<rparr>" by auto
  show ?case
    using lq_link_after_ok [OF Nil k] lq_link_head_ok [of q r y cs n x] Nil k
    by (subst lq_push_loop.simps) (auto simp: lq_deref_def)
next
  case (snoc b bs)
  obtain r' y' where b: "b = (r', y')" by (cases b)
  from lq_loose_node [OF snoc.prems] b obtain k where
    k: "lq_heap q r = Some \<lparr>nd_element = y, nd_next = k, nd_prev = Some r'\<rparr>" by auto
  from snoc.prems b have "lq_loose q (bs @ (r', y') # ((r, y) # cs)) n x" by simp
  from snoc.IH [OF this] lq_link_after_ok [OF snoc.prems k] k b show ?case
    by (subst lq_push_loop.simps) (auto simp: lq_deref_def)
qed

lemma mset_map_place: "mset (map f (place cmp x xs)) = add_mset (f x) (mset (map f xs))"
  by simp

lemma distinct_map_place: "distinct (map f (place cmp x xs)) \<longleftrightarrow> distinct (f x # map f xs)"
  by (metis mset_map_place mset.simps(2) mset_eq_imp_distinct_iff)

lemma place_map_snd:
  "map snd (place (\<lambda>a b. cmp (snd a) (snd b)) (n, x) ps) = place cmp x (map snd ps)"
  by (induction ps rule: rev_induct) (simp_all add: place_snoc)

lemma lq_push_ok:
  assumes rep: "lq_rep q ps"
  shows "\<exists>q'. lq_push x pa q = Some (Inr (0, q')) \<and>
    lq_rep q' (place (\<lambda>a b. comparePriority pa (snd a) (snd b)) (lq_fresh q, x) ps)"
proof -
  let ?n = "lq_fresh q"
  let ?cmp = "\<lambda>a b. comparePriority pa (snd a) (snd b)"
  let ?q1 = "q\<lparr>lq_heap := (lq_heap q)(?n \<mapsto> \<lparr>nd_element = x, nd_next = None, nd_prev = None\<rparr>),
                lq_fresh := Suc ?n\<rparr>"
  have fresh: "?n \<notin> fst ` set ps" using rep by (auto simp: lq_rep_def)
  with rep have loose: "lq_loose ?q1 ps ?n x" by (auto simp: lq_loose_def lq_rep_def)
  have "\<exists>q2. lq_push_loop (comparePriority pa) x ?n ?q1 (lq_tail ?q1) = Some (Inr q2) \<and>
      lq_linked ?q1 q2 (place ?cmp (?n, x) ps)"
  proof (cases ps rule: rev_cases)
    case Nil
    with loose show ?thesis
      by (subst lq_push_loop.simps) (auto simp: lq_loose_def lq_linked_def)
  next
    case (snoc bs p)
    obtain r y where p: "p = (r, y)" by (cases p)
    from loose snoc p have "lq_tail ?q1 = Some r" by (auto simp: lq_loose_def seg_append)
    with lq_push_loop_ok [of ?q1 bs r y "[]" ?n x "comparePriority pa"] loose snoc p
    show ?thesis by (auto simp: pq_push_loop_place simp del: pq_push_loop.simps)
  qed
  then obtain q2 where q2: "lq_push_loop (comparePriority pa) x ?n ?q1 (lq_tail ?q1) = Some (Inr q2)"
    "lq_linked ?q1 q2 (place ?cmp (?n, x) ps)" by blast
  have "distinct (map fst (place ?cmp (?n, x) ps))"
    using rep fresh by (simp add: lq_rep_def distinct_map_place)
  with q2 rep show ?thesis
    by (auto simp: lq_push_def Let_def lq_linked_def lq_rep_def)
qed

section \<open>Unlinking\<close>

lemma lq_pop_ok:
  assumes rep: "lq_rep q ((a, x) # ps)" and len: "length ps < 65535"
  shows "\<exists>q'. lq_pop q = Inr (x, q') \<and> lq_rep q' ps"
proof -
  have sz: "lq_size q \<noteq> 0" "lq_size q - 1 = of_nat (length ps)"
    using rep len by (auto simp: lq_rep_def of_nat_u16_eq_0 simp del: of_nat_Suc) simp
  from rep obtain k where k: "lq_head q = Some a"
      "lq_heap q a = Some \<lparr>nd_element = x, nd_next = k, nd_prev = None\<rparr>"
      "seg (lq_heap q) (Some a) k ps (lq_tail q) None" by (auto simp: lq_rep_def)
  have a: "a \<notin> fst ` set ps" and d: "distinct (map fst ps)"
    and dm: "dom (lq_heap q) = insert a (fst ` set ps)" and fr: "\<forall>a \<in> fst ` set ps. a < lq_fresh q"
    using rep by (simp_all add: lq_rep_def)
  show ?thesis
  proof (cases ps)
    case Nil
    with dm have "(lq_heap q)(a := None) = Map.empty" by (metis dom_eq_empty_conv dom_fun_upd Diff_cancel image_empty list.set(1))
    with Nil k sz show ?thesis
      by (simp add: lq_pop_def lq_isEmpty_def lq_rep_def lq_deref_def)
  next
    case (Cons p qs)
    obtain b y where p: "p = (b, y)" by (cases p)
    with k Cons obtain j where j: "k = Some b"
        "lq_heap q b = Some \<lparr>nd_element = y, nd_next = j, nd_prev = Some a\<rparr>"
        "seg (lq_heap q) (Some b) j qs (lq_tail q) None" by auto
    have ab: "a \<noteq> b" "b \<noteq> a" "b \<notin> fst ` set qs" "a \<notin> fst ` set qs" using a d Cons p by auto
    let ?h = "(lq_heap q)(b \<mapsto> \<lparr>nd_element = y, nd_next = j, nd_prev = None\<rparr>, a := None)"
    have "seg ?h (Some b) j qs (lq_tail q) None"
      using j(3) ab(3,4) by (simp del: fun_upd_apply)
    moreover have "dom ?h = fst ` set ps"
      using dm ab Cons p by auto
    ultimately have "lq_rep \<lparr>lq_heap = ?h, lq_head = Some b, lq_tail = lq_tail q,
        lq_size = lq_size q - 1, lq_fresh = lq_fresh q\<rparr> ps"
      using ab d fr Cons p sz by (simp add: lq_rep_def)
    then show ?thesis
      using k j sz by (cases q) (auto simp: lq_pop_def lq_isEmpty_def lq_deref_def lq_write_def)
  qed
qed

lemma lq_clear_loop_ok:
  assumes "seg (lq_heap q) pv ref ps lst None" "distinct (map fst ps)" "dom (lq_heap q) = fst ` set ps"
    and "lq_head q = ref"
  shows "\<exists>q'. lq_clear_loop q ref = Some (Inr q') \<and> lq_heap q' = Map.empty \<and> lq_head q' = None"
  using assms
proof (induction ps arbitrary: q ref pv)
  case Nil
  then show ?case by (subst lq_clear_loop.simps) simp
next
  case (Cons p ps)
  obtain a x where p: "p = (a, x)" by (cases p)
  with Cons.prems obtain k where k: "ref = Some a"
      "lq_heap q a = Some \<lparr>nd_element = x, nd_next = k, nd_prev = pv\<rparr>"
      "seg (lq_heap q) (Some a) k ps lst None" by auto
  let ?q1 = "q\<lparr>lq_head := k, lq_heap := (lq_heap q)(a := None)\<rparr>"
  have "a \<notin> fst ` set ps" using Cons.prems(2) p by simp
  then have h: "seg ((lq_heap q)(a := None)) (Some a) k ps lst None"
      "dom ((lq_heap q)(a := None)) = fst ` set ps"
    using k(3) Cons.prems(3) p by (simp_all del: fun_upd_apply)
  have "\<exists>q'. lq_clear_loop ?q1 k = Some (Inr q') \<and> lq_heap q' = Map.empty \<and> lq_head q' = None"
    by (rule Cons.IH [of ?q1 "Some a" k])
       (use h Cons.prems(2) p in \<open>simp_all del: fun_upd_apply\<close>)
  with k show ?case by (subst lq_clear_loop.simps) (simp add: lq_deref_def)
qed

lemma lq_clear_ok:
  assumes "lq_rep q ps"
  shows "\<exists>q'. lq_clear q = Some (Inr q') \<and> lq_rep q' []"
  using lq_clear_loop_ok [of q None "lq_head q" ps "lq_tail q"] assms
  by (auto simp: lq_clear_def lq_rep_def)

interpretation lq: queue_contract
  lq_new lq_push lq_pop lq_peek lq_isEmpty lq_clear lq_getSize lq_contents lq_ok
proof (unfold_locales, goal_cases)
  case 1
  have "lq_rep lq_new []" by (simp add: lq_new_def lq_rep_def)
  then show ?case by (auto simp: lq_ok_def)
next
  case 2
  have "lq_rep lq_new []" by (simp add: lq_new_def lq_rep_def)
  then show ?case using lq_rep_contents by fastforce
next
  case (3 q)
  then show ?case using lq_clear_ok lq_rep_contents by (fastforce simp: lq_ok_def)
next
  case (4 q x pa)
  then obtain ps where ps: "lq_rep q ps" by (auto simp: lq_ok_def)
  from lq_push_ok [OF ps, of x pa] obtain q' where "lq_push x pa q = Some (Inr (0, q'))"
    "lq_rep q' (place (\<lambda>a b. comparePriority pa (snd a) (snd b)) (lq_fresh q, x) ps)" by blast
  then show ?case using ps by (auto simp: lq_ok_def lq_rep_contents place_map_snd)
next
  case (5 q)
  then show ?case by (auto simp: lq_ok_def lq_rep_contents lq_isEmpty_def) (auto simp: lq_rep_def of_nat_u16_eq_0)
next
  case (6 q x xs)
  then obtain ps where "lq_rep q ps" "map snd ps = x # xs" by (auto simp: lq_ok_def lq_rep_contents)
  then obtain a ps' where "lq_rep q ((a, x) # ps')" "xs = map snd ps'" by (cases ps) auto
  with lq_pop_ok [OF this(1)] 6 show ?case by (auto simp: lq_ok_def lq_rep_contents)
next
  case (7 q x xs)
  then obtain ps where "lq_rep q ps" "map snd ps = x # xs" by (auto simp: lq_ok_def lq_rep_contents)
  then obtain a ps' where r: "lq_rep q ((a, x) # ps')" "xs = map snd ps'" by (cases ps) auto
  then have "lq_size q \<noteq> 0"
    using 7 by (auto simp: lq_rep_def of_nat_u16_eq_0 simp del: of_nat_Suc)
  with r show ?case by (auto simp: lq_peek_def lq_isEmpty_def lq_rep_def lq_deref_def)
next
  case (8 q)
  then have "lq_size q = 0" by (auto simp: lq_ok_def lq_rep_contents) (auto simp: lq_rep_def)
  then show ?case by (simp add: lq_pop_def lq_peek_def lq_isEmpty_def)
next
  case (9 q)
  then show ?case by (auto simp: lq_ok_def lq_rep_contents lq_getSize_def) (auto simp: lq_rep_def)
qed

section \<open>Properties\<close>

text \<open>C12. Pointer code against sequence: on a queue whose links are intact, a push runs to its
  end without a null or dangling access, keeps the links intact, leaks no node, and
  changes the represented sequence as the sequence model of the queue does.\<close>

theorem linked_push_refines:
  assumes "lq_rep q ps" and "pq_ok s" and "pq_nodes s = map snd ps"
  shows "\<exists>q' ps'. lq_push x pa q = Some (Inr (fst (pq_push x pa s), q')) \<and> lq_rep q' ps' \<and>
    map snd ps' = pq_nodes (snd (pq_push x pa s)) \<and> lq_size q' = pq_size (snd (pq_push x pa s))"
proof -
  from lq_push_ok [OF assms(1), of x pa] obtain q' where q':
    "lq_push x pa q = Some (Inr (0, q'))"
    "lq_rep q' (place (\<lambda>a b. comparePriority pa (snd a) (snd b)) (lq_fresh q, x) ps)" by blast
  moreover have "lq_size q' = lq_size q + 1" "lq_size q = pq_size s"
    using q'(2) assms by (simp_all add: lq_rep_def pq_ok_def)
  ultimately show ?thesis
    using assms(3) by (auto simp: pq_push_def pq_push_loop_eq place_map_snd)
qed

theorem linked_push_refines_witness:
  "\<exists>q' ps'. lq_push (7 :: nat) \<lparr>comparePriority = \<lambda>a b. int a - int b, isElementValid = \<lambda>_. True,
      maximumWindowExceeded = \<lambda>_ _. False\<rparr> lq_new = Some (Inr (0, q')) \<and> lq_rep q' ps' \<and> map snd ps' = [7]"
proof -
  have "lq_rep lq_new []" by (simp add: lq_new_def lq_rep_def)
  moreover have "pq_ok pq_new" by (simp add: pq_ok_def pq_new_def)
  ultimately show ?thesis
    using linked_push_refines [of lq_new "[]" pq_new]
    by (fastforce simp: pq_new_def pq_push_def MAX_QUEUE_CAPACITY_def MAX_QUEUE_SIZE_def)
qed

text \<open>Pushing any sequence of fewer than 65536 elements into an empty linked queue and
  popping as many returns all of them, ordered by priority.\<close>

lemma linked_queue_sorts:
  assumes "\<And>a b. comparePriority pa a b < 0 \<longleftrightarrow> key a < (key b :: 'k::linorder)"
    and "length xs < 65536"
  shows "\<exists>q ys. push_all (\<lambda>x. lq_push x pa) xs lq_new = Some q \<and> pop_all lq_pop (length xs) q = Inr ys \<and>
    sorted (map key ys) \<and> mset ys = mset xs"
  by (rule lq.push_pop_all) (use assms in \<open>auto simp: key_comparator_def\<close>)

end
