(* ===== verification/Linked_Reception.thy ===== *)
theory Linked_Reception
  imports Linked_Queue Rx_Module
begin

text \<open>
  The one place outside \<^verbatim>\<open>core/PriorityQueue.h\<close> that follows the pointers of its nodes: the search
  of \<^verbatim>\<open>RxModule::isCompleteMessageForPortAvailable\<close> in \<^verbatim>\<open>core/RxModule.cpp\<close>. On an intact queue
  it ends without a fault and answers what the search over the sequence of packets in
  \<^verbatim>\<open>Rx_Module.thy\<close> answers, also when the packets were inserted one by one with the policy of the
  reception module.
\<close>

definition lq_getHead :: "'a LinkedQueue \<Rightarrow> nat option" where
  "lq_getHead q = lq_head q"

partial_function (option) lq_complete_loop ::
  "u8 \<Rightarrow> S3TP_PACKET LinkedQueue \<Rightarrow> nat option \<Rightarrow> u8 \<Rightarrow> bool result option" where
  "lq_complete_loop cps q node fragment =
     (if node = None then Some (Inr False)
      else case lq_deref q node of Inl e \<Rightarrow> Some (Inl e)
      | Inr nd \<Rightarrow>
          (let hdr = p_header (nd_element nd) in
           if uint (h_seq_port hdr) \<noteq> uint cps + uint fragment then Some (Inr False)
           else if moreFragments hdr \<noteq> 0 \<and> getSubSequence hdr \<noteq> fragment then Some (Inr False)
           else if moreFragments hdr = 0 \<and> getSubSequence hdr = fragment then Some (Inr True)
           else lq_complete_loop cps q (nd_next nd) (fragment + 1)))"

definition lq_isCompleteMessage :: "u8 \<Rightarrow> S3TP_PACKET LinkedQueue \<Rightarrow> bool result option" where
  "lq_isCompleteMessage cps q = lq_complete_loop cps q (lq_getHead q) 0"

lemma lq_complete_loop_seg:
  assumes "seg (lq_heap q) pv node ps lst None"
  shows "lq_complete_loop cps q node fragment = Some (Inr (rx_complete_loop cps fragment (map snd ps)))"
  using assms
proof (induction ps arbitrary: pv node fragment)
  case Nil
  then show ?case by (subst lq_complete_loop.simps) simp
next
  case (Cons p ps)
  then obtain k where k: "node = Some (fst p)"
      "lq_heap q (fst p) = Some \<lparr>nd_element = snd p, nd_next = k, nd_prev = pv\<rparr>"
      "seg (lq_heap q) (Some (fst p)) k ps lst None" by (cases p) auto
  from Cons.IH [OF k(3)] k(1,2) show ?case
    by (subst lq_complete_loop.simps) (simp add: lq_deref_def Let_def)
qed

text \<open>Packets handed to the queue one after the other, as \<^verbatim>\<open>Buffer::write\<close> does.\<close>

primrec lq_push_all ::
  "'a PolicyActor \<Rightarrow> 'a list \<Rightarrow> 'a LinkedQueue \<Rightarrow> 'a LinkedQueue result option" where
  "lq_push_all pa [] q = Some (Inr q)"
| "lq_push_all pa (x # xs) q =
     (case lq_push x pa q of
        Some (Inr (_, q')) \<Rightarrow> lq_push_all pa xs q'
      | Some (Inl e) \<Rightarrow> Some (Inl e)
      | None \<Rightarrow> None)"

lemma lq_push_all_rep:
  assumes "lq_rep q ps"
  shows "\<exists>q' qs. lq_push_all pa xs q = Some (Inr q') \<and> lq_rep q' qs \<and>
    map snd qs = fold (place (comparePriority pa)) xs (map snd ps)"
  using assms
proof (induction xs arbitrary: q ps)
  case Nil
  then show ?case by auto
next
  case (Cons x xs)
  from lq_push_ok [OF Cons.prems, of x pa] obtain q' where
    "lq_push x pa q = Some (Inr (0, q'))"
    "lq_rep q' (place (\<lambda>a b. comparePriority pa (snd a) (snd b)) (lq_fresh q, x) ps)" by blast
  with Cons.IH [OF this(2)] show ?case by (simp add: place_map_snd)
qed

theorem linked_completeness_check:
  "\<exists>q. lq_push_all (rx_policy r) pkts lq_new = Some (Inr q) \<and>
     lq_contents q = fold (place (rx_comparePriority r)) pkts [] \<and>
     lq_isCompleteMessage cps q =
       Some (Inr (rx_complete_loop cps 0 (fold (place (rx_comparePriority r)) pkts [])))"
proof -
  have "lq_rep lq_new []" by (simp add: lq_rep_def lq_new_def)
  from lq_push_all_rep [OF this, of "rx_policy r" pkts] obtain q qs where
    q: "lq_push_all (rx_policy r) pkts lq_new = Some (Inr q)" and rep: "lq_rep q qs"
    and qs: "map snd qs = fold (place (rx_comparePriority r)) pkts []"
    by (auto simp: rx_policy_def)
  from rep have "seg (lq_heap q) None (lq_head q) qs (lq_tail q) None" by (simp add: lq_rep_def)
  from lq_complete_loop_seg [OF this, of cps 0] q qs lq_rep_contents [OF rep] show ?thesis
    by (auto simp: lq_isCompleteMessage_def lq_getHead_def)
qed

end
