(* ===== verification/Message_Sampler.thy ===== *)
theory Message_Sampler
  imports S3TP_Prelude
begin

text \<open>
  The stream sampler, \<^verbatim>\<open>core/MessageSampler.c\<close>: bytes are appended to a buffer, and messages are cut out
  of it with three functions the user supplies, which recognise the start of a message, give its
  length and decide its validity. These functions are not part of the code: they are arguments, and
  get the bytes between the pointer and the length they are called with. An overlapping
  \<^verbatim>\<open>memcpy\<close>, which the C standard leaves open, copies as \<^verbatim>\<open>memmove\<close> does.
\<close>

section \<open>State\<close>

abbreviation (input) SAMPLER_SUCCESS :: int where "SAMPLER_SUCCESS \<equiv> 0"
abbreviation (input) ERR_NULL_POINTER :: int where "ERR_NULL_POINTER \<equiv> -1"
abbreviation (input) ERR_INSUFFICIENT_MEMORY :: int where "ERR_INSUFFICIENT_MEMORY \<equiv> -4"
abbreviation (input) MSG_SAMPLER_BUFFER_SIZE :: u32 where "MSG_SAMPLER_BUFFER_SIZE \<equiv> 1024"

type_synonym FP_CHECKFUNC = "u8 list \<Rightarrow> int"

text \<open>
  \<open>ms_mem\<close> is the memory from \<^verbatim>\<open>pBufStart\<close> on, \<open>ms_end\<close> the offset of \<^verbatim>\<open>pBufEnd\<close>. The length function may be
  the null pointer.
\<close>

record MESSAGE_SAMPLER =
  ms_mem :: "u8 list"
  ms_end :: u32
  lenBuf :: u32
  isStartOfMessage :: FP_CHECKFUNC
  isMessageValid :: FP_CHECKFUNC
  getMessageLength :: "FP_CHECKFUNC option"

definition init_msg_sampler ::
  "bool \<Rightarrow> u8 list option \<Rightarrow> u32 \<Rightarrow> FP_CHECKFUNC option \<Rightarrow> FP_CHECKFUNC option \<Rightarrow> FP_CHECKFUNC option \<Rightarrow>
    int \<times> MESSAGE_SAMPLER option" where
  "init_msg_sampler pSampler pBuf len isStart isValid getLen =
     (case (pSampler, pBuf, isStart, isValid) of
        (True, Some mem, Some st, Some va) \<Rightarrow>
          (SAMPLER_SUCCESS, Some \<lparr>ms_mem = mem, ms_end = len, lenBuf = 0, isStartOfMessage = st,
             isMessageValid = va, getMessageLength = getLen\<rparr>)
      | _ \<Rightarrow> (ERR_NULL_POINTER, None))"

section \<open>Operations\<close>

text \<open>The bytes in use, which the supplied functions may look at.\<close>

definition ms_bytes :: "MESSAGE_SAMPLER \<Rightarrow> u8 list result" where
  "ms_bytes ms = (if unat (lenBuf ms) \<le> length (ms_mem ms) then Inr (take (unat (lenBuf ms)) (ms_mem ms)) else Inl OutOfBounds)"

definition mem_copy :: "nat \<Rightarrow> nat \<Rightarrow> nat \<Rightarrow> u8 list \<Rightarrow> u8 list result" where
  "mem_copy dst src n mem =
     (if dst + n \<le> length mem \<and> src + n \<le> length mem
      then Inr (take dst mem @ take n (drop src mem) @ drop (dst + n) mem) else Inl OutOfBounds)"

text \<open>The search for a start of a message: the number of bytes before it.\<close>

fun find_start :: "FP_CHECKFUNC \<Rightarrow> u8 list \<Rightarrow> nat" where
  "find_start f [] = 0"
| "find_start f (b # bs) = (if f (b # bs) \<noteq> 0 then 0 else Suc (find_start f bs))"

definition removeTail :: "MESSAGE_SAMPLER \<Rightarrow> MESSAGE_SAMPLER result" where
  "removeTail ms =
     bind_res (ms_bytes ms) (\<lambda>bytes.
     let trashBytes = find_start (isStartOfMessage ms) bytes in
     if trashBytes > 0 then
       bind_res (mem_copy 0 trashBytes (unat (lenBuf ms) - trashBytes) (ms_mem ms)) (\<lambda>mem.
       Inr (ms\<lparr>ms_mem := mem, lenBuf := lenBuf ms - of_nat trashBytes\<rparr>))
     else Inr ms)"

text \<open>\<open>data\<close> is the array at the pointer that is passed, \<open>None\<close> for null. The result is what is copied.\<close>

definition append_stream :: "u8 list option \<Rightarrow> u32 \<Rightarrow> MESSAGE_SAMPLER \<Rightarrow> (u32 \<times> MESSAGE_SAMPLER) result" where
  "append_stream data len ms =
     (case data of None \<Rightarrow> Inr (0, ms)
      | Some bs \<Rightarrow>
          if len > 0 then
            let bytesToCopy = (if lenBuf ms + len < MSG_SAMPLER_BUFFER_SIZE then len
                               else MSG_SAMPLER_BUFFER_SIZE - lenBuf ms);
                n = unat bytesToCopy; at = unat (lenBuf ms)
            in if n \<le> length bs \<and> at + n \<le> length (ms_mem ms) then
                 bind_res (removeTail (ms\<lparr>ms_mem := take at (ms_mem ms) @ take n bs @ drop (at + n) (ms_mem ms),
                                         lenBuf := lenBuf ms + bytesToCopy\<rparr>)) (\<lambda>ms'.
                 Inr (bytesToCopy, ms'))
               else Inl OutOfBounds
          else Inr (0, ms))"

lemma find_start_le: "find_start f bs \<le> length bs"
  by (induction bs) auto

lemma unat_u32_lt: "unat (x :: u32) < 2 ^ 32"
  using unsigned_less [of x, where 'a = nat] by simp

lemma unat_sub_of_nat:
  assumes "t \<le> unat (a :: u32)"
  shows "unat (a - of_nat t) = unat a - t"
proof -
  have t: "unat (of_nat t :: u32) = t"
    using assms unat_u32_lt [of a] by (simp add: unat_of_nat take_bit_nat_eq_self)
  then have "of_nat t \<le> a" using assms by (simp add: word_le_nat_alt)
  with t show ?thesis by (simp add: unat_sub)
qed

lemma removeTail_lenBuf:
  assumes "removeTail ms = Inr ms'"
  shows "unat (lenBuf ms') \<le> unat (lenBuf ms)"
proof -
  have "find_start (isStartOfMessage ms) (take (unat (lenBuf ms)) (ms_mem ms)) \<le> unat (lenBuf ms)"
    using find_start_le [of "isStartOfMessage ms" "take (unat (lenBuf ms)) (ms_mem ms)"] by simp
  with assms show ?thesis
    by (auto simp: removeTail_def ms_bytes_def Let_def unat_sub_of_nat split: if_splits)
qed

text \<open>
  Sampling. \<open>dest\<close> tells whether the destination pointer is not null. The result is the returned number,
  what was copied to the destination, and the sampler.
\<close>

function sample :: "bool \<Rightarrow> u32 \<Rightarrow> MESSAGE_SAMPLER \<Rightarrow> (u32 \<times> u8 list option \<times> MESSAGE_SAMPLER) result" where
  "sample dest len ms =
     (case ms_bytes ms of Inl e \<Rightarrow> Inl e
      | Inr bytes \<Rightarrow>
          let k = find_start (isStartOfMessage ms) bytes; msgMaxLen = unat (lenBuf ms) - k in
          if k \<ge> length bytes then Inr (0, None, ms)
          else case getMessageLength ms of None \<Rightarrow> Inl NullDeref
          | Some getLen \<Rightarrow>
              let msgLen = word_of_int (getLen (drop k bytes)) :: u32 in
              if \<not> (msgLen > 0 \<and> unat msgLen \<le> msgMaxLen) then Inr (0, None, ms)
              else if isMessageValid ms (take (unat msgLen) (drop k bytes)) \<noteq> 0 then
                if dest \<and> msgLen \<le> len then
                  (case mem_copy 0 (k + unat msgLen) (unat (lenBuf ms) - unat msgLen) (ms_mem ms) of
                     Inl e \<Rightarrow> Inl e
                   | Inr mem \<Rightarrow>
                       (case removeTail (ms\<lparr>ms_mem := mem, lenBuf := lenBuf ms - msgLen\<rparr>) of
                          Inl e \<Rightarrow> Inl e
                        | Inr ms' \<Rightarrow> Inr (msgLen, Some (take (unat msgLen) (drop k bytes)), ms')))
                else Inr (word_of_int ERR_INSUFFICIENT_MEMORY, None, ms)
              else
                (case mem_copy 0 (k + 1) (msgMaxLen - 1) (ms_mem ms) of
                   Inl e \<Rightarrow> Inl e
                 | Inr mem \<Rightarrow>
                     (case removeTail (ms\<lparr>ms_mem := mem, lenBuf := lenBuf ms - 1\<rparr>) of
                        Inl e \<Rightarrow> Inl e
                      | Inr ms' \<Rightarrow> sample dest len ms')))"
  by auto

termination sample
proof (relation "measure (\<lambda>(dest, len, ms). unat (lenBuf ms))", simp, goal_cases)
  case (1 dest len ms bytes k msgMaxLen getLen msgLen mem ms')
  have "length bytes \<le> unat (lenBuf ms)" using 1(1) by (auto simp: ms_bytes_def split: if_splits)
  then have "0 < unat (lenBuf ms)" using 1(4) by simp
  moreover have "unat (lenBuf ms') \<le> unat (lenBuf ms - of_nat 1)"
    using removeTail_lenBuf 1 by fastforce
  ultimately show ?case using unat_sub_of_nat [of 1 "lenBuf ms"] by simp
qed

declare sample.simps [simp del]

section \<open>Reference parser\<close>

text \<open>The same on the bytes in use alone: no memory, no lengths, no copies.\<close>

definition resync :: "FP_CHECKFUNC \<Rightarrow> u8 list \<Rightarrow> u8 list" where
  "resync st bs = drop (find_start st bs) bs"

definition claimed_length :: "FP_CHECKFUNC \<Rightarrow> u8 list \<Rightarrow> nat" where
  "claimed_length gl bs = unat (word_of_int (gl bs) :: u32)"

function stream_next :: "FP_CHECKFUNC \<Rightarrow> FP_CHECKFUNC \<Rightarrow> FP_CHECKFUNC \<Rightarrow> u8 list \<Rightarrow> u8 list option \<times> u8 list" where
  "stream_next st va gl bs =
     (let n = claimed_length gl bs in
      if bs = [] \<or> n = 0 \<or> length bs < n then (None, bs)
      else if va (take n bs) \<noteq> 0 then (Some (take n bs), resync st (drop n bs))
      else stream_next st va gl (resync st (tl bs)))"
  by auto
termination
  by (relation "measure (\<lambda>(st, va, gl, bs). length bs)") (auto simp: resync_def less_Suc_eq_le)

declare stream_next.simps [simp del]

definition ms_contents :: "MESSAGE_SAMPLER \<Rightarrow> u8 list" where
  "ms_contents ms = take (unat (lenBuf ms)) (ms_mem ms)"

text \<open>The buffer holds the 1024 bytes the code assumes, and what is in use starts with a message.\<close>

definition ms_ok :: "MESSAGE_SAMPLER \<Rightarrow> bool" where
  "ms_ok ms \<longleftrightarrow> 1024 \<le> length (ms_mem ms) \<and> unat (lenBuf ms) \<le> 1024 \<and>
     find_start (isStartOfMessage ms) (ms_contents ms) = 0"

definition same_functions :: "MESSAGE_SAMPLER \<Rightarrow> MESSAGE_SAMPLER \<Rightarrow> bool" where
  "same_functions ms ms' \<longleftrightarrow> isStartOfMessage ms' = isStartOfMessage ms \<and> isMessageValid ms' = isMessageValid ms \<and>
     getMessageLength ms' = getMessageLength ms \<and> length (ms_mem ms') = length (ms_mem ms)"

section \<open>Lemmas\<close>

lemma find_start_resync: "find_start st (resync st bs) = 0"
  by (induction bs) (auto simp: resync_def)

lemma resync_start: "find_start st bs = 0 \<Longrightarrow> resync st bs = bs"
  by (simp add: resync_def)

lemma find_start_0_iff: "find_start st bs = 0 \<longleftrightarrow> bs = [] \<or> st bs \<noteq> 0"
  by (cases bs) auto

lemma length_ms_contents: "unat (lenBuf ms) \<le> length (ms_mem ms) \<Longrightarrow> length (ms_contents ms) = unat (lenBuf ms)"
  by (simp add: ms_contents_def)

lemma mem_copy_to_start:
  assumes "src + n \<le> length mem"
  shows "\<exists>mem'. mem_copy 0 src n mem = Inr mem' \<and> length mem' = length mem \<and> take n mem' = take n (drop src mem)"
  using assms by (simp add: mem_copy_def)

lemma removeTail_ok:
  assumes "1024 \<le> length (ms_mem ms)" "unat (lenBuf ms) \<le> 1024"
  shows "\<exists>ms'. removeTail ms = Inr ms' \<and> ms_ok ms' \<and> same_functions ms ms' \<and>
    ms_contents ms' = resync (isStartOfMessage ms) (ms_contents ms)"
proof -
  let ?n = "unat (lenBuf ms)" and ?t = "find_start (isStartOfMessage ms) (ms_contents ms)"
  have le: "?n \<le> length (ms_mem ms)" using assms by simp
  have t: "?t \<le> ?n" using find_start_le [of "isStartOfMessage ms" "ms_contents ms"] length_ms_contents [OF le] by simp
  have b: "ms_bytes ms = Inr (ms_contents ms)" using le by (simp add: ms_bytes_def ms_contents_def)
  show ?thesis
  proof (cases "?t = 0")
    case True
    then have "removeTail ms = Inr ms" by (simp add: removeTail_def b)
    with True assms show ?thesis by (auto simp: ms_ok_def same_functions_def resync_def)
  next
    case False
    have "?t + (?n - ?t) \<le> length (ms_mem ms)" using t le by simp
    from mem_copy_to_start [OF this] obtain mem where
      m: "mem_copy 0 ?t (?n - ?t) (ms_mem ms) = Inr mem" "length mem = length (ms_mem ms)"
      "take (?n - ?t) mem = take (?n - ?t) (drop ?t (ms_mem ms))" by blast
    let ?ms = "ms\<lparr>ms_mem := mem, lenBuf := lenBuf ms - of_nat ?t\<rparr>"
    have l: "unat (lenBuf ?ms) = ?n - ?t" using t by (simp add: unat_sub_of_nat)
    then have c: "ms_contents ?ms = resync (isStartOfMessage ms) (ms_contents ms)"
      using m(3) by (simp add: ms_contents_def resync_def drop_take)
    have "removeTail ms = Inr ?ms" using False m(1) by (simp add: removeTail_def b)
    moreover have "ms_ok ?ms" using assms l m(2) c find_start_resync by (simp add: ms_ok_def)
    ultimately show ?thesis using c m(2) by (auto simp: same_functions_def)
  qed
qed

text \<open>Cutting \<open>d\<close> bytes off the front and searching the next start.\<close>

lemma cut_front:
  assumes "ms_ok ms" "d \<le> unat (lenBuf ms)"
  shows "\<exists>mem ms'. mem_copy 0 d (unat (lenBuf ms) - d) (ms_mem ms) = Inr mem \<and>
    removeTail (ms\<lparr>ms_mem := mem, lenBuf := lenBuf ms - of_nat d\<rparr>) = Inr ms' \<and> ms_ok ms' \<and> same_functions ms ms' \<and>
    ms_contents ms' = resync (isStartOfMessage ms) (drop d (ms_contents ms))"
proof -
  let ?n = "unat (lenBuf ms)"
  have ok: "1024 \<le> length (ms_mem ms)" "?n \<le> 1024" using assms(1) by (simp_all add: ms_ok_def)
  then have "d + (?n - d) \<le> length (ms_mem ms)" using assms(2) by simp
  from mem_copy_to_start [OF this] obtain mem where
    m: "mem_copy 0 d (?n - d) (ms_mem ms) = Inr mem" "length mem = length (ms_mem ms)"
    "take (?n - d) mem = take (?n - d) (drop d (ms_mem ms))" by blast
  let ?ms = "ms\<lparr>ms_mem := mem, lenBuf := lenBuf ms - of_nat d\<rparr>"
  have l: "unat (lenBuf ?ms) = ?n - d" using assms(2) by (simp add: unat_sub_of_nat)
  then have c: "ms_contents ?ms = drop d (ms_contents ms)" using m(3) by (simp add: ms_contents_def drop_take)
  have "1024 \<le> length (ms_mem ?ms)" "unat (lenBuf ?ms) \<le> 1024" using ok l m(2) by simp_all
  from removeTail_ok [OF this] m c show ?thesis by (auto simp: same_functions_def)
qed

text \<open>
  The three outcomes of an iteration: the claimed length keeps the call from going on, a valid message is
  taken out, an invalid one costs the first byte and the search starts anew.
\<close>

lemma sample_stops:
  assumes "ms_ok ms" "getMessageLength ms = Some gl"
    "ms_contents ms = [] \<or> claimed_length gl (ms_contents ms) = 0 \<or> unat (lenBuf ms) < claimed_length gl (ms_contents ms)"
  shows "sample True len ms = Inr (0, None, ms)"
    "stream_next st vd gl (ms_contents ms) = (None, ms_contents ms)"
proof -
  let ?c = "ms_contents ms"
  have ok: "find_start (isStartOfMessage ms) ?c = 0" "ms_bytes ms = Inr ?c" "length ?c = unat (lenBuf ms)"
    using assms(1) by (simp_all add: ms_ok_def ms_bytes_def ms_contents_def)
  define w where "w = (word_of_int (gl ?c) :: u32)"
  have cl: "claimed_length gl ?c = unat w" by (simp add: claimed_length_def w_def)
  show "sample True len ms = Inr (0, None, ms)"
    using assms(2,3) ok cl
    by (auto simp: sample.simps [of True len ms] Let_def w_def [symmetric] word_gt_0 unat_eq_0)
  show "stream_next st vd gl ?c = (None, ?c)"
    using assms(3) ok(3) by (auto simp: stream_next.simps [of _ _ gl ?c] Let_def)
qed

lemma sample_takes:
  assumes "ms_ok ms" "getMessageLength ms = Some gl" "1024 \<le> len"
    and w: "ms_contents ms \<noteq> []" "w = claimed_length gl (ms_contents ms)" "0 < w" "w \<le> unat (lenBuf ms)"
    and valid: "isMessageValid ms (take w (ms_contents ms)) \<noteq> 0"
  shows "\<exists>ms'. sample True len ms = Inr (of_nat w, Some (take w (ms_contents ms)), ms') \<and> ms_ok ms' \<and> same_functions ms ms' \<and>
    ms_contents ms' = resync (isStartOfMessage ms) (drop w (ms_contents ms))"
proof -
  let ?c = "ms_contents ms" and ?n = "unat (lenBuf ms)"
  have ok: "?n \<le> 1024" "find_start (isStartOfMessage ms) ?c = 0" "ms_bytes ms = Inr ?c" "length ?c = ?n"
    using assms(1) by (simp_all add: ms_ok_def ms_bytes_def ms_contents_def)
  define v where "v = (word_of_int (gl ?c) :: u32)"
  have "w = unat v" using w(2) by (simp add: claimed_length_def v_def)
  with w(3) have v: "w = unat v" "v > 0" "v \<noteq> 0" by (auto simp: unat_gt_0 word_gt_0)
  have nz: "lenBuf ms \<noteq> 0" using w(1) ok(4) by auto
  have "unat v \<le> unat (1024 :: u32)" using w(4) v(1) ok(1) by simp
  then have len: "v \<le> len" using assms(3) by (metis word_le_nat_alt order_trans)
  from cut_front [OF assms(1) w(4)] obtain mem ms' where
    "mem_copy 0 w (?n - w) (ms_mem ms) = Inr mem"
    "removeTail (ms\<lparr>ms_mem := mem, lenBuf := lenBuf ms - v\<rparr>) = Inr ms'" "ms_ok ms'" "same_functions ms ms'"
    "ms_contents ms' = resync (isStartOfMessage ms) (drop w ?c)" by (auto simp: v(1))
  then show ?thesis
    using w(1,4) v nz valid len ok assms(2)
    by (intro exI [of _ ms']) (simp add: sample.simps [of True len ms] Let_def v_def [symmetric] unat_eq_0)
qed

lemma sample_skips:
  assumes "ms_ok ms" "getMessageLength ms = Some gl" "1024 \<le> len"
    and w: "ms_contents ms \<noteq> []" "w = claimed_length gl (ms_contents ms)" "0 < w" "w \<le> unat (lenBuf ms)"
    and invalid: "isMessageValid ms (take w (ms_contents ms)) = 0"
  shows "\<exists>ms'. sample True len ms = sample True len ms' \<and> ms_ok ms' \<and> same_functions ms ms' \<and>
    ms_contents ms' = resync (isStartOfMessage ms) (tl (ms_contents ms))"
proof -
  let ?c = "ms_contents ms" and ?n = "unat (lenBuf ms)"
  have ok: "find_start (isStartOfMessage ms) ?c = 0" "ms_bytes ms = Inr ?c" "length ?c = ?n"
    using assms(1) by (simp_all add: ms_ok_def ms_bytes_def ms_contents_def)
  define v where "v = (word_of_int (gl ?c) :: u32)"
  have "w = unat v" using w(2) by (simp add: claimed_length_def v_def)
  with w(3) have v: "w = unat v" "v > 0" "v \<noteq> 0" by (auto simp: unat_gt_0 word_gt_0)
  have nz: "lenBuf ms \<noteq> 0" using w(1) ok(3) by auto
  have "1 \<le> ?n" using w(3,4) by simp
  from cut_front [OF assms(1) this] obtain mem ms' where
    "mem_copy 0 (Suc 0) (?n - Suc 0) (ms_mem ms) = Inr mem"
    "removeTail (ms\<lparr>ms_mem := mem, lenBuf := lenBuf ms - 1\<rparr>) = Inr ms'" "ms_ok ms'" "same_functions ms ms'"
    "ms_contents ms' = resync (isStartOfMessage ms) (tl ?c)" by (auto simp: drop_Suc)
  then show ?thesis
    using w(1,4) v nz invalid ok assms(2)
    by (intro exI [of _ ms']) (simp add: sample.simps [of True len ms] Let_def v_def [symmetric] unat_eq_0)
qed

lemma sample_refines:
  assumes "ms_ok ms" "getMessageLength ms = Some gl" "1024 \<le> len"
  shows "\<exists>ms'. ms_ok ms' \<and> same_functions ms ms' \<and>
    (case stream_next (isStartOfMessage ms) (isMessageValid ms) gl (ms_contents ms) of
       (None, rest) \<Rightarrow> sample True len ms = Inr (0, None, ms') \<and> ms_contents ms' = rest
     | (Some m, rest) \<Rightarrow> sample True len ms = Inr (of_nat (length m), Some m, ms') \<and> ms_contents ms' = rest)"
  using assms(1,2)
proof (induction "length (ms_contents ms)" arbitrary: ms rule: less_induct)
  case less
  let ?c = "ms_contents ms"
  define w where "w = claimed_length gl ?c"
  have lc: "length ?c = unat (lenBuf ms)" using less.prems(1) by (simp add: ms_ok_def ms_contents_def)
  note unf = stream_next.simps [of _ _ gl ?c]
  show ?case
  proof (cases "?c = [] \<or> w = 0 \<or> unat (lenBuf ms) < w")
    case True
    then show ?thesis using sample_stops [OF less.prems] less.prems(1)
      by (intro exI [of _ ms]) (simp add: w_def same_functions_def)
  next
    case False
    then have w: "?c \<noteq> []" "w = claimed_length gl ?c" "0 < w" "w \<le> unat (lenBuf ms)" by (auto simp: w_def)
    show ?thesis
    proof (cases "isMessageValid ms (take w ?c) = 0")
      case valid: False
      from sample_takes [OF less.prems assms(3) w valid] show ?thesis
        using w valid lc by (auto simp: unf Let_def)
    next
      case invalid: True
      from sample_skips [OF less.prems assms(3) w invalid] obtain ms' where
        m: "sample True len ms = sample True len ms'" "ms_ok ms'" "same_functions ms ms'"
        "ms_contents ms' = resync (isStartOfMessage ms) (tl ?c)" by blast
      have same: "stream_next (isStartOfMessage ms) (isMessageValid ms) gl ?c =
          stream_next (isStartOfMessage ms') (isMessageValid ms') gl (ms_contents ms')"
        using w invalid lc m(3,4) by (simp add: unf Let_def same_functions_def)
      have "length (ms_contents ms') < length ?c" using m(4) w(1) by (auto simp: resync_def)
      from less.hyps [OF this m(2)] m(3) less.prems(2) show ?thesis
        unfolding same m(1) by (auto simp: same_functions_def)
    qed
  qed
qed

lemma append_stream_ok:
  assumes "ms_ok ms" "0 < length bs" "length bs < 2 ^ 31"
  shows "\<exists>ms'. append_stream (Some bs) (of_nat (length bs)) ms =
      Inr (of_nat (min (length bs) (1024 - unat (lenBuf ms))), ms') \<and> ms_ok ms' \<and> same_functions ms ms' \<and>
    ms_contents ms' = resync (isStartOfMessage ms) (ms_contents ms @ take (1024 - unat (lenBuf ms)) bs)"
proof -
  let ?n = "unat (lenBuf ms)" and ?k = "min (length bs) (1024 - unat (lenBuf ms))"
  define b where "b = (if lenBuf ms + of_nat (length bs) < 1024 then of_nat (length bs) else 1024 - lenBuf ms)"
  have ok: "1024 \<le> length (ms_mem ms)" "?n \<le> 1024" using assms(1) by (simp_all add: ms_ok_def)
  have l: "unat (of_nat (length bs) :: u32) = length bs" using assms(3) by (simp add: unat_of_nat take_bit_nat_eq_self)
  have sum: "unat (lenBuf ms + of_nat (length bs)) = ?n + length bs"
    using ok(2) assms(3) l by (simp add: unat_word_ariths(1))
  have "lenBuf ms \<le> 1024" using ok(2) by (simp add: word_le_nat_alt)
  then have "unat (1024 - lenBuf ms) = 1024 - ?n" by (simp add: unat_sub)
  then have ub: "unat b = ?k" using sum l by (auto simp: b_def word_less_nat_alt)
  have b: "b = of_nat ?k" unfolding ub [symmetric] by simp
  let ?ms = "ms\<lparr>ms_mem := take ?n (ms_mem ms) @ take ?k bs @ drop (?n + ?k) (ms_mem ms), lenBuf := lenBuf ms + b\<rparr>"
  have ln: "unat (lenBuf ?ms) = ?n + ?k" using ub ok(2) by (simp add: unat_word_ariths(1))
  have "1024 \<le> length (ms_mem ?ms)" "unat (lenBuf ?ms) \<le> 1024" using ok ln by simp_all
  from removeTail_ok [OF this] obtain ms' where r: "removeTail ?ms = Inr ms'" "ms_ok ms'" "same_functions ?ms ms'"
    "ms_contents ms' = resync (isStartOfMessage ms) (ms_contents ?ms)" by auto
  have "ms_contents ?ms = ms_contents ms @ take (1024 - ?n) bs" using ok ln by (simp add: ms_contents_def) (simp add: min_def)
  moreover have "append_stream (Some bs) (of_nat (length bs)) ms = Inr (b, ms')"
    using assms(2) l ub r(1) ok by (simp add: append_stream_def b_def [symmetric] Let_def word_gt_0 unat_gt_0 flip: unat_eq_0)
  ultimately show ?thesis using r ok b by (auto simp: same_functions_def)
qed

text \<open>A framing: the start of every message is recognised whatever follows it, with its length, and it is valid.\<close>

definition framed :: "FP_CHECKFUNC \<Rightarrow> FP_CHECKFUNC \<Rightarrow> FP_CHECKFUNC \<Rightarrow> u8 list \<Rightarrow> bool" where
  "framed st va gl m \<longleftrightarrow> m \<noteq> [] \<and> va m \<noteq> 0 \<and> (\<forall>rest. st (m @ rest) \<noteq> 0 \<and> claimed_length gl (m @ rest) = length m)"

primrec sample_all :: "nat \<Rightarrow> u32 \<Rightarrow> MESSAGE_SAMPLER \<Rightarrow> (u8 list option list \<times> MESSAGE_SAMPLER) result" where
  "sample_all 0 len ms = Inr ([], ms)"
| "sample_all (Suc n) len ms =
     bind_res (sample True len ms) (\<lambda>(rc, m, ms1).
     bind_res (sample_all n len ms1) (\<lambda>(out, ms2). Inr (m # out, ms2)))"

lemma stream_next_framed:
  assumes "framed st va gl m" "find_start st rest = 0"
  shows "stream_next st va gl (m @ rest) = (Some m, rest)"
  using assms by (simp add: stream_next.simps framed_def Let_def resync_start)

lemma concat_framed_start: "\<forall>m \<in> set mss. framed st va gl m \<Longrightarrow> find_start st (concat mss) = 0"
  by (cases mss) (auto simp: find_start_0_iff framed_def)

lemma sample_all_framed:
  assumes "ms_ok ms" "getMessageLength ms = Some gl" "1024 \<le> len" "ms_contents ms = concat mss"
    and "\<forall>m \<in> set mss. framed (isStartOfMessage ms) (isMessageValid ms) gl m"
  shows "\<exists>ms'. sample_all (length mss) len ms = Inr (map Some mss, ms') \<and> ms_ok ms' \<and> ms_contents ms' = []"
  using assms
proof (induction mss arbitrary: ms)
  case (Cons m mss)
  have "stream_next (isStartOfMessage ms) (isMessageValid ms) gl (ms_contents ms) = (Some m, concat mss)"
    unfolding Cons.prems(4) using Cons.prems(5) concat_framed_start [of mss "isStartOfMessage ms" "isMessageValid ms" gl]
    by (simp add: stream_next_framed)
  with sample_refines [OF Cons.prems(1-3)] obtain ms1 where
    m: "ms_ok ms1" "same_functions ms ms1" "sample True len ms = Inr (of_nat (length m), Some m, ms1)"
    "ms_contents ms1 = concat mss" by auto
  then obtain ms' where "sample_all (length mss) len ms1 = Inr (map Some mss, ms')" "ms_ok ms'" "ms_contents ms' = []"
    using Cons.IH [of ms1] Cons.prems by (auto simp: same_functions_def)
  with m(3) show ?case by simp
qed auto

lemma find_start_junk:
  assumes "\<forall>k < length junk. st (drop k (junk @ bs)) = 0" "find_start st bs = 0"
  shows "resync st (junk @ bs) = bs"
  using assms(1)
proof (induction junk)
  case Nil
  then show ?case using assms(2) by (simp add: resync_start)
next
  case (Cons j junk)
  from Cons.prems have "\<forall>k < length junk. st (drop k (junk @ bs)) = 0" by fastforce
  moreover have "st (j # junk @ bs) = 0" using Cons.prems by fastforce
  ultimately show ?case using Cons.IH by (simp add: resync_def)
qed

section \<open>Properties\<close>


text \<open>A framing with a start byte, a length byte and a payload that must not begin with zero.\<close>

definition frame_start :: FP_CHECKFUNC where
  "frame_start bs = (case bs of b # _ \<Rightarrow> if b = 0x7E then 1 else 0 | [] \<Rightarrow> 0)"

definition frame_length :: FP_CHECKFUNC where
  "frame_length bs = (case bs of b # n # _ \<Rightarrow> uint n + 2 | _ \<Rightarrow> 0)"

definition frame_valid :: FP_CHECKFUNC where
  "frame_valid bs = (case bs of b # n # d # _ \<Rightarrow> if d \<noteq> 0 then 1 else 0 | _ \<Rightarrow> 0)"

definition example_sampler :: "u8 list \<Rightarrow> MESSAGE_SAMPLER" where
  "example_sampler bs = \<lparr>ms_mem = bs @ replicate (1024 - length bs) 0, ms_end = 1024, lenBuf = of_nat (length bs),
     isStartOfMessage = frame_start, isMessageValid = frame_valid, getMessageLength = Some frame_length\<rparr>"

lemma example_sampler_ok:
  assumes "length bs \<le> 1024" "find_start frame_start bs = 0"
  shows "ms_ok (example_sampler bs)" "ms_contents (example_sampler bs) = bs"
  using assms by (simp_all add: ms_ok_def ms_contents_def example_sampler_def unat_of_nat take_bit_nat_eq_self)




end
