(* ===== verification/Simple_Queue.thy ===== *)
theory Simple_Queue
  imports S3TP_Prelude
begin

text \<open>
  The two first-in first-out queues of the sources, \<^verbatim>\<open>core/SimpleQueue.h\<close> with its singly linked nodes
  on a heap, and \<^verbatim>\<open>drivers/move-transceiver/include/BlockingQueue.h\<close>. A call that has to wait on a
  condition variable stops there (\<open>Waits\<close>); what it does once it is woken is an operation of its own,
  so that the order in which threads get the mutex is explicit. Both queues honour one contract.
\<close>

datatype 'r QueueCall = Waits | Returns 'r

section \<open>The simple queue\<close>

abbreviation (input) SIMPLE_QUEUE_BLOCKING :: int where "SIMPLE_QUEUE_BLOCKING \<equiv> 1"
abbreviation (input) SIMPLE_QUEUE_FULL :: int where "SIMPLE_QUEUE_FULL \<equiv> -1"
abbreviation (input) SIMPLE_QUEUE_PUSH_SUCCESS :: int where "SIMPLE_QUEUE_PUSH_SUCCESS \<equiv> 0"
abbreviation (input) SIMPLE_QUEUE_DEFAULT_CAPACITY :: int where "SIMPLE_QUEUE_DEFAULT_CAPACITY \<equiv> 256"

record 'a simple_queue_node =
  sn_element :: 'a
  sn_next :: "nat option"

text \<open>\<open>sq_heap\<close> holds the allocated nodes, \<open>sq_fresh\<close> is an address not yet used.\<close>

record 'a SimpleQueue =
  sq_heap :: "nat \<rightharpoonup> 'a simple_queue_node"
  sq_fresh :: nat
  sq_head :: "nat option"
  sq_tail :: "nat option"
  sq_size :: int
  sq_capacity :: int
  sq_mode :: int

definition sq_new :: "int \<Rightarrow> int \<Rightarrow> 'a SimpleQueue" where
  "sq_new capacity mode = \<lparr>sq_heap = Map.empty, sq_fresh = 0, sq_head = None, sq_tail = None, sq_size = 0,
     sq_capacity = (if capacity > 0 then capacity else SIMPLE_QUEUE_DEFAULT_CAPACITY), sq_mode = mode\<rparr>"

definition sq_deref :: "'a SimpleQueue \<Rightarrow> nat option \<Rightarrow> 'a simple_queue_node result" where
  "sq_deref q p =
     (case p of None \<Rightarrow> Inl NullDeref
      | Some a \<Rightarrow> (case sq_heap q a of None \<Rightarrow> Inl Dangling | Some nd \<Rightarrow> Inr nd))"

text \<open>The part of \<^verbatim>\<open>push\<close> behind the wait: the new node is value-initialised, so its link is null.\<close>

definition sq_push_resumed :: "'a \<Rightarrow> 'a SimpleQueue \<Rightarrow> (int QueueCall \<times> 'a SimpleQueue) result" where
  "sq_push_resumed x q =
     (let node = sq_fresh q;
          q1 = q\<lparr>sq_heap := (sq_heap q)(node \<mapsto> \<lparr>sn_element = x, sn_next = None\<rparr>), sq_fresh := node + 1\<rparr>
      in bind_res
           (if sq_head q1 = None then Inr (q1\<lparr>sq_head := Some node\<rparr>)
            else bind_res (sq_deref q1 (sq_tail q1)) (\<lambda>nd.
              Inr (q1\<lparr>sq_heap := (sq_heap q1)(the (sq_tail q1) \<mapsto> nd\<lparr>sn_next := Some node\<rparr>)\<rparr>)))
           (\<lambda>q2. Inr (Returns SIMPLE_QUEUE_PUSH_SUCCESS, q2\<lparr>sq_tail := Some node, sq_size := sq_size q2 + 1\<rparr>)))"

definition sq_push :: "'a \<Rightarrow> 'a SimpleQueue \<Rightarrow> (int QueueCall \<times> 'a SimpleQueue) result" where
  "sq_push x q =
     (if sq_size q = sq_capacity q then
        if sq_mode q = SIMPLE_QUEUE_BLOCKING then Inr (Waits, q) else Inr (Returns SIMPLE_QUEUE_FULL, q)
      else sq_push_resumed x q)"

definition sq_isEmpty :: "'a SimpleQueue \<Rightarrow> bool" where
  "sq_isEmpty q \<longleftrightarrow> sq_size q = 0"

text \<open>
  The part of \<^verbatim>\<open>pop\<close> behind the wait. What is returned is a reference into the node, here its address.
\<close>

definition sq_pop_resumed :: "'a SimpleQueue \<Rightarrow> (nat QueueCall \<times> 'a SimpleQueue) result" where
  "sq_pop_resumed q =
     bind_res (sq_deref q (sq_head q)) (\<lambda>nd.
       Inr (Returns (the (sq_head q)),
            q\<lparr>sq_head := sn_next nd, sq_heap := (sq_heap q)(the (sq_head q) := None), sq_size := sq_size q - 1\<rparr>))"

definition sq_pop :: "'a SimpleQueue \<Rightarrow> (nat QueueCall \<times> 'a SimpleQueue) result" where
  "sq_pop q =
     (if sq_size q = 0 then
        if sq_mode q = SIMPLE_QUEUE_BLOCKING then Inr (Waits, q)
        else if sq_head q = None then Inl AssertFail else sq_pop_resumed q
      else sq_pop_resumed q)"

text \<open>The destructor frees the nodes one after the other.\<close>

partial_function (option) sq_delete_loop ::
  "'a SimpleQueue \<Rightarrow> nat option \<Rightarrow> 'a SimpleQueue result option" where
  "sq_delete_loop q node =
     (case node of None \<Rightarrow> Some (Inr q)
      | Some a \<Rightarrow>
          (case sq_heap q a of None \<Rightarrow> Some (Inl Dangling)
           | Some nd \<Rightarrow> sq_delete_loop (q\<lparr>sq_head := sn_next nd, sq_heap := (sq_heap q)(a := None)\<rparr>) (sn_next nd)))"

definition sq_delete :: "'a SimpleQueue \<Rightarrow> 'a SimpleQueue result option" where
  "sq_delete q = sq_delete_loop q (sq_head q)"

text \<open>Using the reference that \<^verbatim>\<open>pop\<close> returned.\<close>

definition sq_use :: "nat \<Rightarrow> 'a SimpleQueue \<Rightarrow> 'a result" where
  "sq_use a q = bind_res (sq_deref q (Some a)) (\<lambda>nd. Inr (sn_element nd))"

section \<open>The blocking queue\<close>

text \<open>Built on \<^verbatim>\<open>std::queue\<close>: the list of its items. The wait is a loop, so waking up starts it again.\<close>

definition bq_pop :: "'a list \<Rightarrow> ('a QueueCall \<times> 'a list) result" where
  "bq_pop items = (case items of [] \<Rightarrow> Inr (Waits, items) | item # rest \<Rightarrow> Inr (Returns item, rest))"

definition bq_push :: "'a \<Rightarrow> 'a list \<Rightarrow> 'a list" where
  "bq_push item items = items @ [item]"

section \<open>Chains of nodes\<close>

fun sq_chain :: "(nat \<rightharpoonup> 'a simple_queue_node) \<Rightarrow> nat option \<Rightarrow> (nat \<times> 'a) list \<Rightarrow> bool" where
  "sq_chain h p [] \<longleftrightarrow> p = None"
| "sq_chain h p ((a, x) # ps) \<longleftrightarrow> p = Some a \<and> (\<exists>nx. h a = Some \<lparr>sn_element = x, sn_next = nx\<rparr> \<and> sq_chain h nx ps)"

definition sq_rep :: "'a SimpleQueue \<Rightarrow> (nat \<times> 'a) list \<Rightarrow> bool" where
  "sq_rep q ps \<longleftrightarrow> sq_chain (sq_heap q) (sq_head q) ps \<and> distinct (map fst ps) \<and> dom (sq_heap q) = fst ` set ps \<and>
     (ps \<noteq> [] \<longrightarrow> sq_tail q = Some (fst (last ps))) \<and> sq_size q = int (length ps) \<and> (\<forall>a \<in> fst ` set ps. a < sq_fresh q)"

lemma sq_chain_frame: "a \<notin> fst ` set ps \<Longrightarrow> sq_chain (h(a := v)) p ps \<longleftrightarrow> sq_chain h p ps"
  by (induction ps arbitrary: p) auto

lemma sq_chain_link:
  assumes "sq_chain h p (ps @ [(a, x)])" "distinct (map fst (ps @ [(a, x)]))" "n \<notin> insert a (fst ` set ps)"
    and "h n = Some \<lparr>sn_element = y, sn_next = None\<rparr>"
  shows "sq_chain (h(a \<mapsto> \<lparr>sn_element = x, sn_next = Some n\<rparr>)) p (ps @ [(a, x), (n, y)])"
  using assms by (induction ps arbitrary: p) auto

lemma sq_chain_last: "sq_chain h p (ps @ [(a, x)]) \<Longrightarrow> h a = Some \<lparr>sn_element = x, sn_next = None\<rparr>"
  by (induction ps arbitrary: p) auto

lemma sq_new_rep: "sq_rep (sq_new capacity mode) []"
  by (simp add: sq_rep_def sq_new_def)

lemma sq_push_resumed_ok:
  assumes "sq_rep q ps"
  shows "\<exists>q'. sq_push_resumed x q = Inr (Returns 0, q') \<and> sq_rep q' (ps @ [(sq_fresh q, x)]) \<and>
    sq_capacity q' = sq_capacity q \<and> sq_mode q' = sq_mode q"
proof (cases ps rule: rev_cases)
  case Nil
  with assms show ?thesis by (auto simp: sq_push_resumed_def sq_rep_def Let_def)
next
  case (snoc ps' ax)
  obtain a y where ax: "ax = (a, y)" by fastforce
  let ?h = "(sq_heap q)(sq_fresh q \<mapsto> \<lparr>sn_element = x, sn_next = None\<rparr>)"
  have c: "sq_chain (sq_heap q) (sq_head q) (ps' @ [(a, y)])" "distinct (map fst (ps' @ [(a, y)]))"
    "sq_tail q = Some a" "\<forall>b \<in> fst ` set ps. b < sq_fresh q"
    using assms by (simp_all add: sq_rep_def snoc ax)
  have n: "sq_fresh q \<notin> fst ` set (ps' @ [(a, y)])" using c(4) by (auto simp: snoc ax)
  have "sq_chain ?h (sq_head q) (ps' @ [(a, y)])" using c(1) sq_chain_frame [OF n] by simp
  from sq_chain_link [OF this c(2)] n have ch:
    "sq_chain (?h(a \<mapsto> \<lparr>sn_element = y, sn_next = Some (sq_fresh q)\<rparr>)) (sq_head q) (ps' @ [(a, y), (sq_fresh q, x)])"
    by auto
  have hd: "sq_head q \<noteq> None" using c(1) by (cases ps') auto
  have "sq_heap q a = Some \<lparr>sn_element = y, sn_next = None\<rparr>" using sq_chain_last [OF c(1)] .
  with assms hd ch c n show ?thesis
    by (auto simp: sq_push_resumed_def sq_deref_def sq_rep_def snoc ax Let_def less_Suc_eq)
qed

lemma sq_pop_resumed_ok:
  assumes "sq_rep q ((a, x) # ps)"
  shows "\<exists>q'. sq_pop_resumed q = Inr (Returns a, q') \<and> sq_rep q' ps \<and> sq_use a q' = Inl Dangling \<and>
    sq_capacity q' = sq_capacity q \<and> sq_mode q' = sq_mode q"
  using assms by (auto simp: sq_pop_resumed_def sq_rep_def sq_deref_def sq_use_def sq_chain_frame)

lemma sq_delete_loop_ok:
  assumes "sq_chain (sq_heap q) p ps" "distinct (map fst ps)" "dom (sq_heap q) = fst ` set ps"
  shows "\<exists>q'. sq_delete_loop q p = Some (Inr q') \<and> sq_heap q' = Map.empty"
  using assms
proof (induction ps arbitrary: q p)
  case Nil
  then show ?case by (simp add: sq_delete_loop.simps)
next
  case (Cons ax ps)
  obtain a x where ax: "ax = (a, x)" by fastforce
  from Cons.prems ax obtain nx where n: "p = Some a" "sq_heap q a = Some \<lparr>sn_element = x, sn_next = nx\<rparr>"
    "sq_chain (sq_heap q) nx ps" "a \<notin> fst ` set ps" by auto
  let ?q = "q\<lparr>sq_head := nx, sq_heap := (sq_heap q)(a := None)\<rparr>"
  have c: "sq_chain (sq_heap ?q) nx ps" "dom (sq_heap ?q) = fst ` set ps"
    using n Cons.prems(3) ax by (auto simp: sq_chain_frame)
  have "distinct (map fst ps)" using Cons.prems(2) by simp
  from Cons.IH [OF c(1) this c(2)]
  have "\<exists>q'. sq_delete_loop ?q nx = Some (Inr q') \<and> sq_heap q' = Map.empty" .
  then show ?case using n(1,2) by (simp add: sq_delete_loop.simps [of q "Some a"])
qed

section \<open>Contract\<close>

text \<open>
  What a user of either queue may rely on, in terms of the sequence \<open>xs\<close> the queue represents, as long as
  there is room: \<open>fits q n\<close> says that \<open>n\<close> more elements can be pushed without waiting.
\<close>

locale fifo_queue =
  fixes push :: "'a \<Rightarrow> 'q \<Rightarrow> ('i QueueCall \<times> 'q) result"
    and pop :: "'q \<Rightarrow> ('r QueueCall \<times> 'q) result"
    and rep :: "'q \<Rightarrow> 'a list \<Rightarrow> bool"
    and fits :: "'q \<Rightarrow> nat \<Rightarrow> bool"
  assumes push_law: "rep q xs \<Longrightarrow> fits q (Suc n) \<Longrightarrow>
      \<exists>i q'. push x q = Inr (Returns i, q') \<and> rep q' (xs @ [x]) \<and> fits q' n"
    and pop_law: "rep q (x # xs) \<Longrightarrow> fits q n \<Longrightarrow>
      \<exists>r q'. pop q = Inr (Returns r, q') \<and> rep q' xs \<and> fits q' (Suc n)"
begin

text \<open>A sequence of pushes (\<open>Some x\<close>) and pops (\<open>None\<close>), none of which may wait.\<close>

primrec run :: "'a option list \<Rightarrow> 'q \<Rightarrow> 'q option" where
  "run [] q = Some q"
| "run (c # cs) q =
     (case c of
        Some x \<Rightarrow> (case push x q of Inr (Returns i, q') \<Rightarrow> run cs q' | _ \<Rightarrow> None)
      | None \<Rightarrow> (case pop q of Inr (Returns r, q') \<Rightarrow> run cs q' | _ \<Rightarrow> None))"

primrec run_list :: "'a option list \<Rightarrow> 'a list \<Rightarrow> 'a list option" where
  "run_list [] xs = Some xs"
| "run_list (c # cs) xs =
     (case c of Some x \<Rightarrow> run_list cs (xs @ [x])
      | None \<Rightarrow> (case xs of [] \<Rightarrow> None | x # xs' \<Rightarrow> run_list cs xs'))"

lemma run_refines:
  assumes "rep q xs" "fits q n" "length (filter (\<lambda>c. c \<noteq> None) cs) \<le> n" "run_list cs xs = Some ys"
  shows "\<exists>q'. run cs q = Some q' \<and> rep q' ys"
  using assms
proof (induction cs arbitrary: q xs n)
  case (Cons c cs)
  show ?case
  proof (cases c)
    case None
    with Cons.prems(4) obtain x xs' where xs: "xs = x # xs'" "run_list cs xs' = Some ys" by (auto split: list.splits)
    from pop_law [of q x xs' n] Cons.prems xs(1) obtain r q1 where
      q1: "pop q = Inr (Returns r, q1)" "rep q1 xs'" "fits q1 (Suc n)" by blast
    from Cons.IH [OF q1(2,3) _ xs(2)] Cons.prems(3) None q1(1) show ?thesis by auto
  next
    case (Some x)
    with Cons.prems(3) obtain m where m: "n = Suc m" by (cases n) auto
    from push_law [of q xs m x] Cons.prems m obtain i q1 where
      q1: "push x q = Inr (Returns i, q1)" "rep q1 (xs @ [x])" "fits q1 m" by blast
    from Cons.IH [OF q1(2,3)] Cons.prems(3,4) Some m q1(1) show ?thesis by auto
  qed
qed simp

end

definition sq_represents :: "'a SimpleQueue \<Rightarrow> 'a list \<Rightarrow> bool" where
  "sq_represents q xs \<longleftrightarrow> (\<exists>ps. sq_rep q ps \<and> map snd ps = xs)"

interpretation sq: fifo_queue sq_push sq_pop sq_represents "\<lambda>q n. sq_size q + int n \<le> sq_capacity q"
proof (unfold_locales, goal_cases)
  case (1 q xs n x)
  then obtain ps where ps: "sq_rep q ps" "map snd ps = xs" by (auto simp: sq_represents_def)
  from sq_push_resumed_ok [OF ps(1), of x] obtain q' where
    q': "sq_push_resumed x q = Inr (Returns 0, q')" "sq_rep q' (ps @ [(sq_fresh q, x)])" "sq_capacity q' = sq_capacity q" by blast
  have "sq_size q = int (length ps)" "sq_size q' = int (length ps) + 1" using ps(1) q'(2) by (simp_all add: sq_rep_def)
  moreover have "sq_represents q' (xs @ [x])"
    unfolding sq_represents_def by (rule exI [of _ "ps @ [(sq_fresh q, x)]"]) (simp add: q'(2) ps(2))
  ultimately show ?case using 1(2) q' by (auto simp: sq_push_def)
next
  case (2 q x xs n)
  then obtain a ps where ps: "sq_rep q ((a, x) # ps)" "map snd ps = xs" by (auto simp: sq_represents_def)
  from sq_pop_resumed_ok [OF ps(1)] obtain q' where
    q': "sq_pop_resumed q = Inr (Returns a, q')" "sq_rep q' ps" "sq_capacity q' = sq_capacity q" by blast
  have "sq_size q = int (length ps) + 1" "sq_size q' = int (length ps)" using ps(1) q'(2) by (simp_all add: sq_rep_def)
  then show ?case using 2(2) q' ps(2) by (auto simp: sq_pop_def sq_represents_def)
qed

interpretation bq: fifo_queue "\<lambda>x q. Inr (Returns (), bq_push x q)" bq_pop "\<lambda>q xs. q = xs" "\<lambda>q n. True"
  by unfold_locales (simp_all add: bq_push_def bq_pop_def)

section \<open>Properties\<close>

text \<open>The linked simple queue against the sequence it represents, on every branch: a push appends when the
  queue is not at its capacity and otherwise waits or reports a full queue without a change; a pop
  removes the first element, fails the assertion or waits when there is none; the links stay intact
  and no node is leaked. The reference a pop returns points into the node it has just freed.\<close>

theorem simple_queue_operations:
  assumes "sq_rep q ps"
  shows "(if int (length ps) = sq_capacity q
      then sq_push x q = Inr (if sq_mode q = 1 then Waits else Returns (-1), q)
      else \<exists>q' n. sq_push x q = Inr (Returns 0, q') \<and> sq_rep q' (ps @ [(n, x)])) \<and>
    (case ps of
       [] \<Rightarrow> sq_pop q = (if sq_mode q = 1 then Inr (Waits, q) else Inl AssertFail)
     | (a, y) # ps' \<Rightarrow> \<exists>q'. sq_pop q = Inr (Returns a, q') \<and> sq_rep q' ps' \<and> sq_use a q' = Inl Dangling) \<and>
    (\<exists>q'. sq_delete q = Some (Inr q') \<and> sq_heap q' = Map.empty)"
proof (intro conjI)
  have n: "sq_size q = int (length ps)" using assms by (simp add: sq_rep_def)
  show "if int (length ps) = sq_capacity q
      then sq_push x q = Inr (if sq_mode q = 1 then Waits else Returns (-1), q)
      else \<exists>q' n. sq_push x q = Inr (Returns 0, q') \<and> sq_rep q' (ps @ [(n, x)])"
    using n sq_push_resumed_ok [OF assms, of x] by (auto simp: sq_push_def)
  show "case ps of
       [] \<Rightarrow> sq_pop q = (if sq_mode q = 1 then Inr (Waits, q) else Inl AssertFail)
     | (a, y) # ps' \<Rightarrow> \<exists>q'. sq_pop q = Inr (Returns a, q') \<and> sq_rep q' ps' \<and> sq_use a q' = Inl Dangling"
  proof (cases ps)
    case Nil
    then have "sq_head q = None" using assms by (simp add: sq_rep_def)
    with Nil n show ?thesis by (simp add: sq_pop_def)
  next
    case (Cons ay ps')
    obtain a y where "ay = (a, y)" by fastforce
    with Cons n show ?thesis using sq_pop_resumed_ok [of q a y ps'] assms by (auto simp: sq_pop_def)
  qed
  show "\<exists>q'. sq_delete q = Some (Inr q') \<and> sq_heap q' = Map.empty"
    using assms sq_delete_loop_ok [of q "sq_head q" ps] by (simp add: sq_delete_def sq_rep_def)
qed

theorem simple_queue_operations_witness:
  "\<exists>q' n. sq_push (7 :: nat) (sq_new 2 0) = Inr (Returns 0, q') \<and> sq_rep q' [(n, 7)]"
  using simple_queue_operations [OF sq_new_rep [of 2 0], of "7 :: nat"] by (auto simp: sq_new_def)

text \<open>The wait of the simple queue is not repeated, so a woken thread may find the condition undone. With a full
  queue and a waiting producer, a pop followed by a push of another producer lets the woken one exceed
  the capacity, after which every further push succeeds; with an empty queue and a waiting consumer, a
  push followed by a pop of another consumer makes the woken one dereference the null pointer.\<close>

theorem unchecked_wakeup_breaks_queue:
  assumes "sq_rep q ps" "sq_mode q = 1" "0 < sq_capacity q"
  shows "(int (length ps) = sq_capacity q \<longrightarrow> sq_push x q = Inr (Waits, q) \<and>
      (\<exists>a q1 q2 q3 ps'. sq_pop q = Inr (Returns a, q1) \<and> sq_push y q1 = Inr (Returns 0, q2) \<and>
        sq_push_resumed x q2 = Inr (Returns 0, q3) \<and> sq_rep q3 ps' \<and> int (length ps') = sq_capacity q3 + 1 \<and>
        (\<exists>q4. sq_push z q3 = Inr (Returns 0, q4)))) \<and>
    (ps = [] \<longrightarrow> sq_pop q = Inr (Waits, q) \<and>
      (\<exists>a q1 q2. sq_push y q = Inr (Returns 0, q1) \<and> sq_pop q1 = Inr (Returns a, q2) \<and>
        sq_pop_resumed q2 = Inl NullDeref))"
proof (intro conjI impI)
  have n: "sq_size q = int (length ps)" using assms by (simp add: sq_rep_def)
  show "sq_push x q = Inr (Waits, q)" if "int (length ps) = sq_capacity q" using that n assms(2) by (simp add: sq_push_def)
  show "sq_pop q = Inr (Waits, q)" if "ps = []" using that n assms(2) by (simp add: sq_pop_def)
  show "\<exists>a q1 q2 q3 ps'. sq_pop q = Inr (Returns a, q1) \<and> sq_push y q1 = Inr (Returns 0, q2) \<and>
        sq_push_resumed x q2 = Inr (Returns 0, q3) \<and> sq_rep q3 ps' \<and> int (length ps') = sq_capacity q3 + 1 \<and>
        (\<exists>q4. sq_push z q3 = Inr (Returns 0, q4))" if full: "int (length ps) = sq_capacity q"
  proof -
    from full assms(3) obtain a v ps1 where ps: "ps = (a, v) # ps1" by (cases ps) auto
    from sq_pop_resumed_ok [of q a v ps1] assms(1) ps obtain q1 where
      q1: "sq_pop q = Inr (Returns a, q1)" "sq_rep q1 ps1" "sq_capacity q1 = sq_capacity q"
      using n by (auto simp: sq_pop_def)
    from sq_push_resumed_ok [OF q1(2), of y] obtain q2 where
      q2: "sq_push y q1 = Inr (Returns 0, q2)" "sq_rep q2 (ps1 @ [(sq_fresh q1, y)])" "sq_capacity q2 = sq_capacity q"
      using q1(2,3) full ps by (auto simp: sq_push_def sq_rep_def)
    from sq_push_resumed_ok [OF q2(2), of x] obtain q3 where
      q3: "sq_push_resumed x q2 = Inr (Returns 0, q3)" "sq_rep q3 ((ps1 @ [(sq_fresh q1, y)]) @ [(sq_fresh q2, x)])"
      "sq_capacity q3 = sq_capacity q" using q2(3) by auto
    from sq_push_resumed_ok [OF q3(2), of z] have "\<exists>q4. sq_push z q3 = Inr (Returns 0, q4)"
      using q3(2,3) full ps by (auto simp: sq_push_def sq_rep_def)
    moreover have "int (length ((ps1 @ [(sq_fresh q1, y)]) @ [(sq_fresh q2, x)])) = sq_capacity q3 + 1"
      using full ps q3(3) by simp
    ultimately show ?thesis using q1(1) q2(1) q3(1,2) by blast
  qed
  show "\<exists>a q1 q2. sq_push y q = Inr (Returns 0, q1) \<and> sq_pop q1 = Inr (Returns a, q2) \<and>
        sq_pop_resumed q2 = Inl NullDeref" if "ps = []"
  proof -
    from sq_push_resumed_ok [OF assms(1), of y] that assms(3) n obtain q1 where
      q1: "sq_push y q = Inr (Returns 0, q1)" "sq_rep q1 [(sq_fresh q, y)]" by (auto simp: sq_push_def)
    from sq_pop_resumed_ok [OF q1(2)] obtain q2 where
      q2: "sq_pop q1 = Inr (Returns (sq_fresh q), q2)" "sq_rep q2 []"
      using q1(2) by (auto simp: sq_pop_def sq_rep_def)
    then have "sq_pop_resumed q2 = Inl NullDeref" by (simp add: sq_pop_resumed_def sq_deref_def sq_rep_def)
    with q1 q2 show ?thesis by blast
  qed
qed

theorem unchecked_wakeup_breaks_queue_witness:
  "\<exists>a q1 q2. sq_push (8 :: nat) (sq_new 2 1) = Inr (Returns 0, q1) \<and> sq_pop q1 = Inr (Returns a, q2) \<and>
    sq_pop_resumed q2 = Inl NullDeref"
  using unchecked_wakeup_breaks_queue [OF sq_new_rep [of 2 1], of "0 :: nat" 8 0] by (simp add: sq_new_def)

end
