(* ===== verification/Programs.thy ===== *)
theory Programs
  imports Simple_Queue
begin

text \<open>
  The small programs around the library: the hex dump and the queue test of \<^verbatim>\<open>core/debug.cpp\<close>, the levels of
  \<^verbatim>\<open>core/Logger.h\<close> and the start of the daemon, \<^verbatim>\<open>test/s3tp_start.cpp\<close>. Output is a string; the time of a log line
  and the number read by \<^verbatim>\<open>atoi\<close> are arguments.
\<close>

section \<open>Hex dump\<close>

definition hex_digits :: string where "hex_digits = ''0123456789abcdef''"

definition hex_digit :: "nat \<Rightarrow> char" where "hex_digit d = hex_digits ! d"

text \<open>The conversions \<^verbatim>\<open>%04x\<close> and \<^verbatim>\<open>%02hhx\<close>.\<close>

fun hex_nat :: "nat \<Rightarrow> string" where
  "hex_nat n = (if n < 16 then [hex_digit n] else hex_nat (n div 16) @ [hex_digit (n mod 16)])"

declare hex_nat.simps [simp del]

definition print_04x :: "nat \<Rightarrow> string" where
  "print_04x n = replicate (4 - length (hex_nat n)) CHR ''0'' @ hex_nat n"

definition print_02hhx :: "u8 \<Rightarrow> string" where
  "print_02hhx b = [hex_digit (unat b div 16), hex_digit (unat b mod 16)]"

text \<open>The inner loop, which prints one line, and the outer loop.\<close>

function hexdump_line :: "u8 list \<Rightarrow> int \<Rightarrow> nat \<Rightarrow> nat \<Rightarrow> (string \<times> nat) result" where
  "hexdump_line buffer len i n =
     (if i < 16 \<and> int n < len then
        if n < length buffer then
          bind_res (hexdump_line buffer len (i + 1) (n + 1)) (\<lambda>(s, n').
            Inr ((if i = 8 then '' '' else '''') @ print_02hhx (buffer ! n) @ '' '' @ s, n'))
        else Inl OutOfBounds
      else Inr ('''', n))"
  by auto
termination by (relation "measure (\<lambda>(buffer, len, i, n). 16 - i)") auto

declare hexdump_line.simps [simp del]

lemma hexdump_line_advances:
  "hexdump_line buffer len i n = Inr (s, n') \<Longrightarrow> n \<le> n' \<and> (i < 16 \<and> int n < len \<longrightarrow> n < n')"
proof (induction buffer len i n arbitrary: s rule: hexdump_line.induct)
  case (1 buffer len i n)
  show ?case
  proof (cases "i < 16 \<and> int n < len \<and> n < length buffer")
    case True
    with 1(2) obtain s1 where "hexdump_line buffer len (i + 1) (n + 1) = Inr (s1, n')"
      by (subst (asm) hexdump_line.simps) auto
    from 1(1) [OF _ _ this] True show ?thesis by simp
  qed (use 1(2) in \<open>subst (asm) hexdump_line.simps, auto split: if_splits\<close>)
qed

function hexdump_lines :: "u8 list \<Rightarrow> int \<Rightarrow> nat \<Rightarrow> (string \<times> nat) result" where
  "hexdump_lines buffer len n =
     (if int n < len then
        case hexdump_line buffer len 0 n of
          Inl e \<Rightarrow> Inl e
        | Inr (s, n') \<Rightarrow> bind_res (hexdump_lines buffer len n') (\<lambda>(s', n'').
            Inr (print_04x n @ ''    '' @ s @ [CHR 0x0A] @ s', n''))
      else Inr ('''', n))"
  by auto
termination
  by (relation "measure (\<lambda>(buffer, len, n). nat len - n)") (auto dest!: hexdump_line_advances)

declare hexdump_lines.simps [simp del]

definition hexdump :: "u8 list \<Rightarrow> int \<Rightarrow> (string \<times> nat) result" where
  "hexdump buffer len = hexdump_lines buffer len 0"

text \<open>A reader of dumps: skips the offset at the start of a line (\<open>True\<close>), then takes pairs of digits.\<close>

definition hex_val :: "char \<Rightarrow> nat" where
  "hex_val c = length (takeWhile (\<lambda>d. d \<noteq> c) hex_digits)"

fun read_dump :: "bool \<Rightarrow> string \<Rightarrow> u8 list" where
  "read_dump b [] = []"
| "read_dump True (c # cs) = read_dump (c \<noteq> CHR '' '') cs"
| "read_dump False (c # cs) =
     (if c = CHR '' '' then read_dump False cs
      else if c = CHR 0x0A then read_dump True cs
      else case cs of [] \<Rightarrow> [] | d # ds \<Rightarrow> of_nat (16 * hex_val c + hex_val d) # read_dump False ds)"

lemma less_16_cases: "d < 16 \<Longrightarrow> d \<in> set [0..<16]" for d :: nat
  by simp

lemma hex_digit_val: "d < 16 \<Longrightarrow> hex_val (hex_digit d) = d \<and> hex_digit d \<noteq> CHR '' '' \<and> hex_digit d \<noteq> CHR 0x0A"
proof -
  have "list_all (\<lambda>d. hex_val (hex_digit d) = d \<and> hex_digit d \<noteq> CHR '' '' \<and> hex_digit d \<noteq> CHR 0x0A) [0..<16]" by code_simp
  then show "d < 16 \<Longrightarrow> ?thesis" by (simp add: list_all_iff)
qed

lemma read_byte: "read_dump False (print_02hhx b @ cs) = b # read_dump False cs"
proof -
  have "unat b div 16 < 16" "unat b mod 16 < 16" using unat_u8_lt [of b] by (simp_all add: less_mult_imp_div_less)
  note h = hex_digit_val [OF this(1)] hex_digit_val [OF this(2)]
  have "(of_nat (16 * (unat b div 16) + unat b mod 16) :: u8) = b" by simp
  with h show ?thesis by (simp add: print_02hhx_def)
qed

lemma hex_nat_no_space: "CHR '' '' \<notin> set (hex_nat n)"
proof (induction n rule: hex_nat.induct)
  case (1 n)
  then show ?case by (subst hex_nat.simps) (use hex_digit_val [of n] hex_digit_val [of "n mod 16"] in auto)
qed

lemma read_offset: "CHR '' '' \<notin> set a \<Longrightarrow> read_dump True (a @ CHR '' '' # cs) = read_dump False cs"
  by (induction a) auto

lemma read_line:
  assumes "int n \<le> len" "len \<le> int (length buffer)" "i \<le> 16"
  shows "\<exists>s n'. hexdump_line buffer len i n = Inr (s, n') \<and> int n' \<le> len \<and> n \<le> n' \<and>
    (\<forall>cs. read_dump False (s @ cs) = take (n' - n) (drop n buffer) @ read_dump False cs)"
  using assms
proof (induction buffer len i n rule: hexdump_line.induct)
  case (1 buffer len i n)
  show ?case
  proof (cases "i < 16 \<and> int n < len")
    case False
    then show ?thesis using 1(2) by (subst hexdump_line.simps) auto
  next
    case True
    then have n: "n < length buffer" using 1(3) by simp
    from 1(1) [OF True n] True 1(2-4) obtain s n' where s: "hexdump_line buffer len (i + 1) (n + 1) = Inr (s, n')" "int n' \<le> len"
      "n + 1 \<le> n'" "\<forall>cs. read_dump False (s @ cs) = take (n' - (n + 1)) (drop (n + 1) buffer) @ read_dump False cs" by auto
    have "take (n' - n) (drop n buffer) = buffer ! n # take (n' - (n + 1)) (drop (n + 1) buffer)"
      using n s(3) by (metis Cons_nth_drop_Suc Suc_diff_Suc Suc_eq_plus1 Suc_le_lessD take_Suc_Cons)
    with s True n show ?thesis
      by (subst hexdump_line.simps) (simp add: read_byte)
  qed
qed

lemma read_lines:
  assumes "int n \<le> len" "len \<le> int (length buffer)"
  shows "\<exists>s. hexdump_lines buffer len n = Inr (s, nat len) \<and> read_dump True s = take (nat len - n) (drop n buffer)"
  using assms
proof (induction buffer len n rule: hexdump_lines.induct)
  case (1 buffer len n)
  show ?case
  proof (cases "int n < len")
    case False
    with 1(2) show ?thesis by (subst hexdump_lines.simps) auto
  next
    case True
    from read_line [of n len buffer 0] 1(2,3) obtain s n' where s: "hexdump_line buffer len 0 n = Inr (s, n')" "int n' \<le> len"
      "\<forall>cs. read_dump False (s @ cs) = take (n' - n) (drop n buffer) @ read_dump False cs" by auto
    have n': "n < n'" using hexdump_line_advances [OF s(1)] True by simp
    from 1(1) [OF True s(1) refl s(2) 1(3)] obtain s' where
      s': "hexdump_lines buffer len n' = Inr (s', nat len)" "read_dump True s' = take (nat len - n') (drop n' buffer)" by blast
    have off: "CHR '' '' \<notin> set (print_04x n)" using hex_nat_no_space by (simp add: print_04x_def)
    have "take (n' - n) (drop n buffer) @ take (nat len - n') (drop n' buffer) = take (nat len - n) (drop n buffer)"
      using n' s(2) take_add [of "n' - n" "nat len - n'" "drop n buffer"] by (simp add: add.commute)
    with s s' True off show ?thesis by (subst hexdump_lines.simps) (simp add: read_offset)
  qed
qed

section \<open>Log levels\<close>

definition s3tp_log :: "string \<Rightarrow> string \<Rightarrow> string" where
  "s3tp_log now logStr = now @ logStr @ [CHR 0x0A]"

text \<open>\<open>level\<close> is \<^verbatim>\<open>LOG_LEVEL\<close>, a constant of the program that includes the header.\<close>

definition LOG_DEBUG :: "int \<Rightarrow> string \<Rightarrow> string \<Rightarrow> string" where
  "LOG_DEBUG level now s = (if level < 5 then '''' else s3tp_log now s)"
definition LOG_INFO :: "int \<Rightarrow> string \<Rightarrow> string \<Rightarrow> string" where
  "LOG_INFO level now s = (if level < 4 then '''' else s3tp_log now s)"
definition LOG_WARN :: "int \<Rightarrow> string \<Rightarrow> string \<Rightarrow> string" where
  "LOG_WARN level now s = (if level < 3 then '''' else s3tp_log now s)"
definition LOG_ERROR :: "int \<Rightarrow> string \<Rightarrow> string \<Rightarrow> string" where
  "LOG_ERROR level now s = (if level < 2 then '''' else s3tp_log now s)"
definition LOG_FATAL :: "int \<Rightarrow> string \<Rightarrow> string \<Rightarrow> string" where
  "LOG_FATAL level now s = (if level < 1 then '''' else s3tp_log now s)"

text \<open>What is logged at one level is logged at every more severe one.\<close>

lemma log_levels_nested:
  "LOG_DEBUG level now s \<noteq> '''' \<Longrightarrow> LOG_INFO level now s = LOG_DEBUG level now s"
  "LOG_INFO level now s \<noteq> '''' \<Longrightarrow> LOG_WARN level now s = LOG_INFO level now s"
  "LOG_WARN level now s \<noteq> '''' \<Longrightarrow> LOG_ERROR level now s = LOG_WARN level now s"
  "LOG_ERROR level now s \<noteq> '''' \<Longrightarrow> LOG_FATAL level now s = LOG_ERROR level now s"
  by (auto simp: LOG_DEBUG_def LOG_INFO_def LOG_WARN_def LOG_ERROR_def LOG_FATAL_def split: if_splits)

section \<open>The queue test\<close>

primrec queue_test_push :: "int list \<Rightarrow> int SimpleQueue \<Rightarrow> (int list \<times> int SimpleQueue) result" where
  "queue_test_push [] q = Inr ([], q)"
| "queue_test_push (x # xs) q =
     bind_res (sq_push x q) (\<lambda>(r, q1).
     bind_res (queue_test_push xs q1) (\<lambda>(refused, q2).
       Inr (if r = Returns SIMPLE_QUEUE_FULL then x # refused else refused, q2)))"

text \<open>Each printed value is read through the reference \<^verbatim>\<open>pop\<close> returned; \<open>fuel\<close> bounds the loop, which sees at most three elements.\<close>

fun queue_test_pop :: "nat \<Rightarrow> int SimpleQueue \<Rightarrow> (int list \<times> int SimpleQueue) result" where
  "queue_test_pop 0 q = Inr ([], q)"
| "queue_test_pop (Suc fuel) q =
     (if sq_isEmpty q then Inr ([], q)
      else bind_res (sq_pop q) (\<lambda>(r, q1). case r of
          Waits \<Rightarrow> Inr ([], q1)
        | Returns a \<Rightarrow> bind_res (sq_use a q1) (\<lambda>x. bind_res (queue_test_pop fuel q1) (\<lambda>(xs, q2). Inr (x # xs, q2)))))"

definition simpleQueueTest :: "(int list \<times> int list) result" where
  "simpleQueueTest =
     bind_res (queue_test_push [10, 11, 12, 13, 14] (sq_new 3 0)) (\<lambda>(refused, q).
     bind_res (queue_test_pop 5 q) (\<lambda>(popped, q'). Inr (refused, popped)))"

lemma simpleQueueTest_reads_freed_node:
  "\<exists>q. queue_test_push [10, 11, 12, 13, 14] (sq_new 3 0) = Inr ([13, 14], q) \<and> simpleQueueTest = Inl Dangling"
  by (simp add: simpleQueueTest_def sq_new_def sq_push_def sq_push_resumed_def sq_deref_def sq_pop_def sq_pop_resumed_def
      sq_isEmpty_def sq_use_def Let_def numeral_eq_Suc)

section \<open>Starting the daemon\<close>

datatype TransceiverType = SPI | FIRE

record 'p TRANSCEIVER_CONFIG =
  tc_type :: TransceiverType
  tc_descriptor :: "(string \<times> 'p) option"
  tc_mappings :: "(int \<times> int) list"

abbreviation (input) S3TP_VIRTUAL_CHANNELS :: nat where "S3TP_VIRTUAL_CHANNELS \<equiv> 7"

text \<open>The main program up to the start: an exit code, or the configuration the daemon is initialised with. \<open>start_port\<close> is the
  number \<^verbatim>\<open>atoi\<close> reads from the last argument, \<open>pin\<close> the pin mapper of the transceiver library.\<close>

definition s3tp_start :: "(string \<Rightarrow> 'p) \<Rightarrow> string list \<Rightarrow> int \<Rightarrow> int + 'p TRANSCEIVER_CONFIG" where
  "s3tp_start pin argv start_port =
     (if length argv \<noteq> 4 then Inl (-1)
      else if argv ! 2 = ''spi'' then Inr \<lparr>tc_type = SPI, tc_descriptor = Some (''/dev/spidev1.1#P8_46'', pin ''P8_45''), tc_mappings = []\<rparr>
      else if argv ! 2 = ''fire'' then
        Inr \<lparr>tc_type = FIRE, tc_descriptor = None,
          tc_mappings = map (\<lambda>i. (start_port + int i * 2, int i)) [0..<S3TP_VIRTUAL_CHANNELS]\<rparr>
      else Inl (-2))"

lemma fire_mappings_disjoint:
  assumes "s3tp_start pin argv start_port = Inr config" "tc_type config = FIRE"
  shows "map snd (tc_mappings config) = map int [0..<S3TP_VIRTUAL_CHANNELS]" "distinct (map fst (tc_mappings config))"
    "(port, ch) \<in> set (tc_mappings config) \<Longrightarrow> (port + 1, ch') \<notin> set (tc_mappings config)"
  using assms by (auto simp: s3tp_start_def distinct_map inj_on_def split: if_splits) presburger

section \<open>Properties\<close>

text \<open>The hex dump of a buffer prints its first \<^verbatim>\<open>len\<close> bytes, no more and no less: it returns their number, and the bytes can be read
  back from the text.\<close>

theorem hexdump_roundtrip:
  assumes "len \<le> int (length buffer)"
  shows "\<exists>s. hexdump buffer len = Inr (s, nat len) \<and> read_dump True s = take (nat len) buffer"
proof (cases "0 \<le> len")
  case True
  with read_lines [of 0 len buffer] assms show ?thesis by (simp add: hexdump_def)
next
  case False
  then show ?thesis by (simp add: hexdump_def hexdump_lines.simps)
qed

theorem hexdump_roundtrip_witness:
  "\<exists>s. hexdump [1, 2, 0xAB] 3 = Inr (s, 3) \<and> read_dump True s = [1, 2, 0xAB]"
  using hexdump_roundtrip [of 3 "[1, 2, 0xAB]"] by simp

end
