(* ===== verification/Debug_Tests.thy ===== *)
theory Debug_Tests
  imports S3tp_Main
begin

text \<open>
  The tests of \<^verbatim>\<open>core/debug.cpp\<close> on the checksum, the priority queue, the transmission module and the protocol
  object. They were written for an earlier packet type, a wrapper around a packet with its header as a
  member: the wrapper is a type parameter here, with the access to the header and the construction as
  arguments. Random numbers, uninitialised variables and the contents of uninitialised memory are
  arguments too. The queue test and the hex dump of the same file are in \<^verbatim>\<open>Programs.thy\<close>.
\<close>

section \<open>Checksum\<close>

definition string_data :: "string \<Rightarrow> u8 list" where
  "string_data s = map of_char s"

text \<open>The three numbers printed and the outcomes of the two verifications.\<close>

definition crcTest :: "(u16 \<times> u8 \<times> u8 \<times> bool \<times> bool) result" where
  "crcTest =
     (let myTest = string_data ''helloworldblablub''; len = of_nat (length myTest) in
      bind_res (calc_checksum (Some myTest) len) (\<lambda>crc.
      let firstByte = ucast crc; secondByte = ucast (drop_bit 8 crc) in
      bind_res (verify_checksum (Some myTest) len crc) (\<lambda>first.
      let myTest = string_data ''hellowarldblablub''; len = of_nat (length myTest) in
      bind_res (verify_checksum (Some myTest) len crc) (\<lambda>second.
      Inr (crc, firstByte, secondByte, first, second)))))"

text \<open>The first verification succeeds, the second, of a string with one changed letter, fails.\<close>

theorem crcTest_outcome: "\<exists>crc. crcTest = Inr (crc, ucast crc, ucast (drop_bit 8 crc), True, False)"
proof -
  have n: "unat (of_nat 17 :: u16) = 17" by simp
  have "crc16 (string_data ''hellow'' @ [of_char CHR ''o'', of_char CHR ''r''] @ string_data ''ldblablub'') \<noteq>
      crc16 (string_data ''hellow'' @ [of_char CHR ''a'', of_char CHR ''r''] @ string_data ''ldblablub'')"
    unfolding crc16_detects_pair by simp
  then show ?thesis
    by (simp add: crcTest_def Let_def verify_checksum_def calc_checksum_ok string_data_def)
qed

section \<open>Queue\<close>

text \<open>The comparator, which orders by the global sequence number and then by that of the port.\<close>

definition MyTest_comparePriority :: "('w \<Rightarrow> S3TP_HEADER) \<Rightarrow> u8 \<Rightarrow> 'w \<Rightarrow> 'w \<Rightarrow> int" where
  "MyTest_comparePriority hdr to_consume e1 e2 =
     (let seq1 = ucast (drop_bit 8 (h_seq (hdr e1))) - to_consume;
          seq2 = ucast (drop_bit 8 (h_seq (hdr e2))) - to_consume;
          comp = (if seq1 < seq2 then -1 else if seq1 > seq2 then 1 else 0)
      in if comp \<noteq> 0 then comp
         else if h_seq_port (hdr e1) < h_seq_port (hdr e2) then -1
         else if h_seq_port (hdr e1) > h_seq_port (hdr e2) then 1 else 0)"

definition MyTest :: "('w \<Rightarrow> S3TP_HEADER) \<Rightarrow> u8 \<Rightarrow> 'w PolicyActor" where
  "MyTest hdr to_consume = \<lparr>comparePriority = MyTest_comparePriority hdr to_consume,
     isElementValid = (\<lambda>_. True), maximumWindowExceeded = (\<lambda>_ _. False)\<rparr>"

definition MyTest_key :: "('w \<Rightarrow> S3TP_HEADER) \<Rightarrow> u8 \<Rightarrow> 'w \<Rightarrow> nat" where
  "MyTest_key hdr to_consume x =
     256 * unat (getGlobalSequence (hdr x) - to_consume) + unat (h_seq_port (hdr x))"

lemma digits_less: "256 * a + b < 256 * c + d \<longleftrightarrow> a < c \<or> a = c \<and> b < d" if "b < 256" "d < 256" for a b c d :: nat
  using that by (cases a c rule: linorder_cases) auto

interpretation MyTest_order: key_comparator "MyTest_comparePriority hdr to_consume" "MyTest_key hdr to_consume" "\<lambda>_. True"
  for hdr to_consume
  by unfold_locales
     (auto simp: MyTest_comparePriority_def MyTest_key_def Let_def getGlobalSequence_def digits_less word_less_nat_alt
        simp flip: word_unat_eq_iff)

text \<open>Pushing elements one after the other.\<close>

definition pq_push_list :: "'a PolicyActor \<Rightarrow> 'a list \<Rightarrow> 'a PriorityQueue \<Rightarrow> 'a PriorityQueue" where
  "pq_push_list pa xs q = fold (\<lambda>x q. snd (pq_push x pa q)) xs q"

lemma pq_push_list_ok:
  "pq_ok q \<Longrightarrow> pq_ok (pq_push_list pa xs q) \<and>
     pq_nodes (pq_push_list pa xs q) = fold (place (comparePriority pa)) xs (pq_nodes q)"
  by (induction xs arbitrary: q) (simp_all add: pq_push_list_def pq_push_def pq_push_loop_eq pq_ok_def add.commute)

lemma pq_new_ok: "pq_ok pq_new"
  by (simp add: pq_ok_def pq_new_def)

lemma fold_place_sorted:
  "sorted (map (MyTest_key hdr c) ys) \<Longrightarrow> sorted (map (MyTest_key hdr c) (fold (place (MyTest_comparePriority hdr c)) xs ys))"
  by (induction xs arbitrary: ys) (simp_all add: MyTest_order.sorted_place)

lemma mset_fold_place: "mset (fold (place cmp) xs ys) = mset xs + mset ys"
  by (induction xs arbitrary: ys) simp_all

subsection \<open>Three packets\<close>

text \<open>\<open>h0\<close> is the header of a new packet, \<open>wrap\<close> makes a wrapper from a header, a channel and a payload.\<close>

definition integrity_packet ::
  "S3TP_HEADER \<Rightarrow> (S3TP_HEADER \<Rightarrow> u8 \<Rightarrow> u8 list \<Rightarrow> 'w) \<Rightarrow> u8 list \<Rightarrow> u16 \<Rightarrow> u8 \<Rightarrow> 'w" where
  "integrity_packet h0 wrap pdu seq seq_port =
     wrap ((setPort 20 (h0\<lparr>h_pdu_length := of_nat (length pdu)\<rparr>))\<lparr>h_seq := seq, h_seq_port := seq_port\<rparr>) 0 pdu"

definition queueIntegrityTest ::
  "S3TP_HEADER \<Rightarrow> (S3TP_HEADER \<Rightarrow> u8 \<Rightarrow> u8 list \<Rightarrow> 'w) \<Rightarrow> ('w \<Rightarrow> S3TP_HEADER) \<Rightarrow> 'w PriorityQueue \<times> u16" where
  "queueIntegrityTest h0 wrap hdr =
     (let global_seq_num = 0 :: u8;
          pack1 = integrity_packet h0 wrap (string_data ''hello'') (push_bit 8 (ucast global_seq_num)) 0;
          global_seq_num = global_seq_num + 1;
          pack2 = integrity_packet h0 wrap (replicate 15 (of_char CHR ''x'')) (push_bit 8 (ucast global_seq_num) OR 1) 2;
          pack3 = integrity_packet h0 wrap (replicate 992 (of_char CHR ''w'')) (push_bit 8 (ucast global_seq_num) OR 0) 1;
          q = pq_push_list (MyTest hdr 0) [pack1, pack2, pack3] pq_new
      in (q, pq_getSize q))"

text \<open>The three packets end up in the order of their numbers although the last two arrive the other way round.\<close>

theorem queueIntegrityTest_outcome:
  assumes "\<And>h c d. hdr (wrap h c d) = h"
  shows "queueIntegrityTest h0 wrap hdr =
    (\<lparr>pq_nodes = [integrity_packet h0 wrap (string_data ''hello'') 0 0,
        integrity_packet h0 wrap (replicate 992 (of_char CHR ''w'')) 0x100 1,
        integrity_packet h0 wrap (replicate 15 (of_char CHR ''x'')) 0x101 2], pq_size = 3\<rparr>, 3)"
proof -
  define a b c where "a = integrity_packet h0 wrap (string_data ''hello'') 0 0"
    and "b = integrity_packet h0 wrap (replicate 15 (of_char CHR ''x'')) 0x101 2"
    and "c = integrity_packet h0 wrap (replicate 992 (of_char CHR ''w'')) 0x100 1"
  have h: "h_seq (hdr a) = 0" "h_seq_port (hdr a) = 0" "h_seq (hdr b) = 0x101" "h_seq_port (hdr b) = 2"
    "h_seq (hdr c) = 0x100" "h_seq_port (hdr c) = 1"
    by (simp_all add: a_def b_def c_def integrity_packet_def assms)
  have hi: "drop_bit 8 (0x100 :: u16) = 1" "drop_bit 8 (0x101 :: u16) = 1" "push_bit 8 1 OR 1 = (0x101 :: u16)" "push_bit 8 1 = (0x100 :: u16)"
    by simp_all
  have k: "MyTest_comparePriority hdr 0 a b = -1" "MyTest_comparePriority hdr 0 b c = 1" "MyTest_comparePriority hdr 0 a c = -1"
    by (simp_all add: MyTest_comparePriority_def h hi)
  have "pq_push_list (MyTest hdr 0) [a, b, c] pq_new = \<lparr>pq_nodes = [a, c, b], pq_size = 3\<rparr>"
    by (simp add: pq_push_list_def pq_push_def pq_new_def MyTest_def k)
  then show ?thesis unfolding a_def b_def c_def by (simp add: queueIntegrityTest_def Let_def hi pq_getSize_def)
qed

subsection \<open>A thousand packets\<close>

text \<open>
  The loop that empties the queue: the packets it prints and the fault that ends it. It is meant to end
  when \<^verbatim>\<open>peek\<close> returns a null pointer; the pointers in the queue are never null.
\<close>

partial_function (option) queueTest_drain :: "'w PriorityQueue \<Rightarrow> ('w list \<times> fault) option" where
  "queueTest_drain q =
     (case pq_peek q of
        Inl e \<Rightarrow> Some ([], e)
      | Inr x \<Rightarrow>
          (case pq_pop q of
             Inl e \<Rightarrow> Some ([], e)
           | Inr (y, q') \<Rightarrow> Option.bind (queueTest_drain q') (\<lambda>(ys, e). Some (y # ys, e))))"

definition queueTest_packet :: "u8 list \<Rightarrow> (S3TP_HEADER \<Rightarrow> u8 \<Rightarrow> u8 list \<Rightarrow> 'w) \<Rightarrow> nat \<Rightarrow> 'w" where
  "queueTest_packet pdu wrap i =
     wrap \<lparr>h_crc = 0, h_seq = of_nat i, h_pdu_length = 0, h_seq_port = 0, h_port = 50\<rparr> 0 pdu"

definition queueTest_numbers :: "nat list" where
  "queueTest_numbers = rev [751..<1051] @ [1060, 1059, 1100] @ [1..<501] @ rev [501..<751]"

definition queueTest ::
  "u8 list \<Rightarrow> (S3TP_HEADER \<Rightarrow> u8 \<Rightarrow> u8 list \<Rightarrow> 'w) \<Rightarrow> ('w \<Rightarrow> S3TP_HEADER) \<Rightarrow> u8 \<Rightarrow>
    (u16 \<times> u32 \<times> u16 list \<times> fault) option" where
  "queueTest pdu wrap hdr to_consume =
     (let q = pq_push_list (MyTest hdr to_consume) (map (queueTest_packet pdu wrap) queueTest_numbers) pq_new
      in map_option (\<lambda>(xs, e). (pq_getSize q, pq_computeBufferSize q, map (h_seq \<circ> hdr) xs, e)) (queueTest_drain q))"

lemma queueTest_drain_ends:
  assumes "pq_ok q" "length (pq_nodes q) < 65536"
  shows "queueTest_drain q = Some (pq_nodes q, AssertFail)"
  using assms
proof (induction "pq_nodes q" arbitrary: q)
  case Nil
  then show ?case by (subst queueTest_drain.simps) (simp add: pq_peek_def pq_isEmpty_def pq_ok_def)
next
  case (Cons x xs)
  have n: "pq_nodes q = x # xs" using Cons.hyps(2) by simp
  then have ne: "pq_size q \<noteq> 0" "pq_size q - 1 = of_nat (length xs)"
    using Cons.prems by (auto simp: pq_ok_def of_nat_u16_eq_0 simp del: of_nat_Suc) simp
  let ?q = "q\<lparr>pq_nodes := xs, pq_size := pq_size q - 1\<rparr>"
  have "queueTest_drain ?q = Some (xs, AssertFail)"
    using Cons.hyps(1) [of ?q] Cons.prems n ne(2) by (simp add: pq_ok_def)
  then show ?case using n ne by (subst queueTest_drain.simps) (simp add: pq_peek_def pq_pop_def pq_isEmpty_def)
qed

text \<open>
  All 1053 packets are printed, ordered by the upper byte of their numbers, but the last line of the test is
  never reached: looking at the empty queue fails the assertion in \<^verbatim>\<open>peek\<close>.
\<close>

theorem queueTest_outcome:
  assumes "\<And>h c d. hdr (wrap h c d) = h"
  shows "\<exists>seqs. queueTest pdu wrap hdr to_consume = Some (1053, 10530, seqs, AssertFail) \<and>
    mset seqs = mset (map of_nat queueTest_numbers) \<and>
    sorted (map (\<lambda>s. ucast (drop_bit 8 s) - to_consume :: u8) seqs)"
proof -
  let ?ps = "map (queueTest_packet pdu wrap) queueTest_numbers"
  let ?q = "pq_push_list (MyTest hdr to_consume) ?ps pq_new"
  let ?xs = "pq_nodes ?q"
  have q: "pq_ok ?q" "?xs = fold (place (MyTest_comparePriority hdr to_consume)) ?ps []"
    using pq_push_list_ok [OF pq_new_ok, of "MyTest hdr to_consume" ?ps] by (simp_all add: pq_new_def MyTest_def)
  have m: "mset ?xs = mset ?ps" by (simp add: q(2) mset_fold_place)
  have "length queueTest_numbers = 1053" by (simp add: queueTest_numbers_def)
  then have len: "length ?xs = 1053" using m by (metis length_map size_mset)
  have seq: "h_seq (hdr (queueTest_packet pdu wrap i)) = of_nat i" "h_seq_port (hdr (queueTest_packet pdu wrap i)) = 0" for i
    by (simp_all add: queueTest_packet_def assms)
  have port: "h_seq_port (hdr x) = 0" if "x \<in> set ?xs" for x
    using that m seq(2) by (metis (no_types, lifting) ex_map_conv set_mset_mset)
  have "sorted (map (MyTest_key hdr to_consume) ?xs)" unfolding q(2) by (rule fold_place_sorted) simp
  moreover have "map (MyTest_key hdr to_consume) ?xs =
      map (\<lambda>x. 256 * unat (ucast (drop_bit 8 (h_seq (hdr x))) - to_consume)) ?xs"
    using port by (simp add: MyTest_key_def getGlobalSequence_def)
  ultimately have "sorted (map (\<lambda>s. ucast (drop_bit 8 s) - to_consume :: u8) (map (h_seq \<circ> hdr) ?xs))"
    by (auto simp: sorted_iff_nth_mono word_le_nat_alt)
  moreover have "mset (map (h_seq \<circ> hdr) ?xs) = mset (map of_nat queueTest_numbers)"
    using m by (simp add: seq(1) comp_def multiset.map_comp)
  moreover have "queueTest_drain ?q = Some (?xs, AssertFail)" by (rule queueTest_drain_ends) (simp_all add: q(1) len)
  moreover have "pq_getSize ?q = 1053" "pq_computeBufferSize ?q = 10530"
    using q(1) len by (simp_all add: pq_ok_def pq_getSize_def pq_computeBufferSize_def)
  ultimately show ?thesis by (intro exI [of _ "map (h_seq \<circ> hdr) ?xs"]) (simp add: queueTest_def Let_def)
qed

section \<open>Transmission module\<close>

text \<open>
  A publisher: a hundred and twenty packets in three loops, which differ in their pauses. \<open>packet\<close> is the
  \<open>i\<close>-th packet made for the port; the result lists the codes.
\<close>

primrec publish :: "(nat \<Rightarrow> S3TP_PACKET) \<Rightarrow> nat list \<Rightarrow> TxModule \<Rightarrow> (int list \<times> TxModule) result" where
  "publish packet [] t = Inr ([], t)"
| "publish packet (i # is) t =
     bind_res (enqueuePacket (packet i) 0 False t) (\<lambda>(rc, t1).
     bind_res (publish packet is t1) (\<lambda>(rcs, t2). Inr (rc # rcs, t2)))"

definition publisherRoutine :: "(nat \<Rightarrow> u8 \<Rightarrow> S3TP_PACKET) \<Rightarrow> nat \<Rightarrow> TxModule \<Rightarrow> (int list \<times> TxModule) result" where
  "publisherRoutine packet rand t =
     (let appPort = of_nat (rand mod 128) in
      bind_res (publish (\<lambda>i. packet i appPort) [0..<100] t) (\<lambda>(rcs1, t1).
      bind_res (publish (\<lambda>i. packet i appPort) [100..<110] t1) (\<lambda>(rcs2, t2).
      bind_res (publish (\<lambda>i. packet i appPort) [110..<120] t2) (\<lambda>(rcs3, t3).
        Inr (rcs1 @ rcs2 @ rcs3, t3)))))"

lemma publish_append:
  "publish packet (is @ js) t =
     bind_res (publish packet is t) (\<lambda>(rcs1, t1). bind_res (publish packet js t1) (\<lambda>(rcs2, t2). Inr (rcs1 @ rcs2, t2)))"
  by (induction "is" arbitrary: t) (auto simp: bind_res_def split: sum.splits)

lemma publish_ok:
  assumes "tx_ok t" "tx_active t" "\<forall>i \<in> set is. pkt_wf (packet i) \<and> getPort (p_header (packet i)) = p"
    and "length (tx_view t p) + length is \<le> 256"
  shows "\<exists>t' xs. publish packet is t = Inr (replicate (length is) 0, t') \<and> tx_ok t' \<and>
    tx_view t' = (tx_view t)(p := tx_view t p @ xs) \<and> map p_payload xs = map (p_payload \<circ> packet) is"
  using assms
proof (induction "is" arbitrary: t)
  case Nil
  then show ?case by (intro exI [of _ t] exI [of _ "[]"]) simp
next
  case (Cons i "is")
  have "pkt_wf (packet i)" "getPort (p_header (packet i)) = p" "length (tx_view t p) < 256" using Cons.prems by simp_all
  from enqueuePacket_ok [OF Cons.prems(1,2) this, of 0 False] obtain t1 where
    t1: "enqueuePacket (packet i) 0 False t = Inr (0, t1)" "tx_ok t1" "tx_active t1"
      "tx_view t1 = (tx_view t)(p := tx_view t p @ [queued t 0 False (packet i)])"
    using Cons.prems(2) by auto
  have "\<forall>i \<in> set is. pkt_wf (packet i) \<and> getPort (p_header (packet i)) = p" "length (tx_view t1 p) + length is \<le> 256"
    using Cons.prems(3,4) t1(4) by simp_all
  from Cons.IH [OF t1(2,3) this] obtain t' xs where
    t': "publish packet is t1 = Inr (replicate (length is) 0, t')" "tx_ok t'"
      "tx_view t' = (tx_view t1)(p := tx_view t1 p @ xs)" "map p_payload xs = map (p_payload \<circ> packet) is" by blast
  with t1 show ?case
    by (intro exI [of _ t'] exI [of _ "queued t 0 False (packet i) # xs"]) (simp add: queued_fields)
qed

text \<open>A publisher on a running module with an empty queue of its port has all its packets accepted, in order.\<close>

theorem publisherRoutine_outcome:
  assumes "tx_ok t" "tx_active t" "tx_view t (of_nat (rand mod 128)) = []"
    and "\<forall>i p. pkt_wf (packet i p) \<and> getPort (p_header (packet i p)) = p"
  shows "\<exists>t' xs. publisherRoutine packet rand t = Inr (replicate 120 0, t') \<and> tx_ok t' \<and>
    tx_view t' (of_nat (rand mod 128)) = xs \<and> map p_payload xs = map (\<lambda>i. p_payload (packet i (of_nat (rand mod 128)))) [0..<120]"
proof -
  let ?p = "of_nat (rand mod 128) :: u8" and ?pk = "\<lambda>i. packet i (of_nat (rand mod 128))"
  have l: "[0..<120] = [0..<100] @ [100..<110] @ [110..<120 :: nat]"
    using upt_add_eq_append [of 0 100 20] upt_add_eq_append [of 100 110 10] by (simp del: upt_rec_numeral)
  have "publisherRoutine packet rand t = publish ?pk [0..<120] t"
    unfolding l publish_append publisherRoutine_def Let_def bind_res_assoc by (simp add: bind_res_def split: sum.splits prod.splits)
  moreover have "\<exists>t' xs. publish ?pk [0..<120] t = Inr (replicate (length [0..<120]) 0, t') \<and> tx_ok t' \<and>
    tx_view t' = (tx_view t)(?p := tx_view t ?p @ xs) \<and> map p_payload xs = map (p_payload \<circ> ?pk) [0..<120]"
    by (rule publish_ok [OF assms(1,2)]) (use assms(3,4) in simp_all)
  ultimately show ?thesis using assms(3) by (auto simp del: upt_rec_numeral)
qed

section \<open>Protocol object\<close>

text \<open>
  An application: eleven messages of random lengths, the sixth one long. The bytes are uninitialised memory.
  The result lists whether each call reported an error.
\<close>

primrec app_sends ::
  "(nat \<Rightarrow> S3TP_PACKET) \<Rightarrow> u8 \<Rightarrow> (nat \<Rightarrow> u8) \<Rightarrow> nat list \<Rightarrow> S3TP \<Rightarrow> (bool list \<times> S3TP) result" where
  "app_sends g port mem [] s = Inr ([], s)"
| "app_sends g port mem (len # lens) s =
     bind_res (sendToLinkLayer g 0 port (map mem [0..<len]) len 0x01 s) (\<lambda>(rc, s1).
     bind_res (app_sends g port mem lens s1) (\<lambda>(rcs, s2). Inr ((rc \<noteq> CODE_SUCCESS) # rcs, s2)))"

definition applicationRoutine ::
  "(nat \<Rightarrow> S3TP_PACKET) \<Rightarrow> (nat \<Rightarrow> u8) \<Rightarrow> nat \<Rightarrow> nat list \<Rightarrow> nat \<Rightarrow> nat list \<Rightarrow> S3TP \<Rightarrow> (bool list \<times> S3TP) result" where
  "applicationRoutine g mem rand_port rands1 rand rands2 s =
     app_sends g (of_nat (rand_port mod 128)) mem
       (map (\<lambda>r. r mod LEN_S3TP_PDU) rands1 @ [rand mod (LEN_S3TP_PDU * 2) + 2000] @ map (\<lambda>r. r mod LEN_S3TP_PDU) rands2) s"

lemma app_sends_refused: "\<not> s_active s \<Longrightarrow> app_sends g port mem lens s = Inr (replicate (length lens) True, s)"
  by (induction lens) (simp_all add: sendToLinkLayer_def)

lemma app_sends_overruns:
  assumes "can_send 0 port s" "\<forall>l \<in> set lens. l \<le> 992" "length (tx_view (s_tx s) port) + length lens + 128 < 256"
    and "1984 < len" "len \<le> 126976"
  shows "app_sends g port mem (lens @ len # rest) s = Inl OutOfBounds"
  using assms
proof (induction lens arbitrary: s)
  case Nil
  then show ?case using sendToLinkLayer_overruns [of 0 port s len "map mem [0..<len]" g 1] by simp
next
  case (Cons l lens)
  have "length (tx_view (s_tx s) port) + 2 \<le> 256" "l \<le> 1984" "l \<le> length (map mem [0..<l])" using Cons.prems by simp_all
  from sendToLinkLayer_queues [OF Cons.prems(1) this, of g 1] obtain t' xs where
    "sendToLinkLayer g 0 port (map mem [0..<l]) l 1 s = Inr (0, s\<lparr>s_tx := t'\<rparr>)" "can_send 0 port (s\<lparr>s_tx := t'\<rparr>)"
    "tx_view t' port = tx_view (s_tx s) port @ xs" "length xs = 1"
    using Cons.prems(2) by auto
  with Cons.IH [of "s\<lparr>s_tx := t'\<rparr>"] Cons.prems show ?case by simp
qed

text \<open>
  On an object that is not active every message is refused. On one that can send, the five short messages
  are accepted and the long one makes the protocol read beyond the message, whatever the random numbers.
\<close>

theorem applicationRoutine_outcome:
  "(\<not> s_active s \<longrightarrow> applicationRoutine g mem rp rands1 rand rands2 s =
      Inr (replicate (length rands1 + 1 + length rands2) True, s)) \<and>
   (can_send 0 (of_nat (rp mod 128)) s \<and> length (tx_view (s_tx s) (of_nat (rp mod 128))) + length rands1 + 128 < 256 \<longrightarrow>
      applicationRoutine g mem rp rands1 rand rands2 s = Inl OutOfBounds)"
proof -
  have "rand mod 1984 + 2000 \<le> 126976" using mod_less_divisor [of 1984 rand] by simp
  moreover have "\<forall>l \<in> set (map (\<lambda>r. r mod 992) rands1). l \<le> 992" by (auto intro: less_imp_le)
  ultimately show ?thesis
    using app_sends_overruns [of "of_nat (rp mod 128)" s "map (\<lambda>r. r mod 992) rands1" "rand mod 1984 + 2000" g mem]
    by (auto simp: applicationRoutine_def app_sends_refused)
qed

text \<open>
  The test of the protocol object, the two application threads one after the other. The object is never
  initialised: \<open>a\<close> is what its flag happens to hold.
\<close>

definition s3tpMainModuleTest ::
  "S3TP_PACKET \<Rightarrow> bool \<Rightarrow> bool \<Rightarrow> bool \<Rightarrow> (S3TP \<Rightarrow> (bool list \<times> S3TP) result) \<Rightarrow> (S3TP \<Rightarrow> (bool list \<times> S3TP) result) \<Rightarrow>
    (bool list \<times> int \<times> S3TP) result" where
  "s3tpMainModuleTest g si a a' app1 app2 =
     bind_res (s3tp_new g si a a') (\<lambda>main.
     bind_res (app1 main) (\<lambda>(r1, main).
     bind_res (app2 main) (\<lambda>(r2, main).
     bind_res (s3tp_stop main) (\<lambda>(rc, main). Inr (r1 @ r2, rc, main)))))"

theorem s3tpMainModuleTest_sends_nothing:
  "\<exists>main. s3tpMainModuleTest g si False a' (applicationRoutine pk mem p1 rs1 r1 rs1') (applicationRoutine pk mem p2 rs2 r2 rs2') =
    Inr (replicate (length rs1 + 1 + length rs1' + (length rs2 + 1 + length rs2')) True, 0, main) \<and>
    (\<forall>p. tx_view (s_tx main) p = [])"
proof -
  from tx_new_ok [of g si] obtain t where t: "tx_new g si = Inr t" by blast
  have ref: "applicationRoutine pk mem p rs r rs' s = Inr (replicate (length rs + 1 + length rs') True, s)"
    if "\<not> s_active s" for p rs r rs' s
    using that by (simp add: applicationRoutine_def app_sends_refused)
  show ?thesis
    by (simp add: s3tpMainModuleTest_def s3tp_new_def t s3tp_reset_def rx_reset_def rx_new_def rx_locked_def ref
        s3tp_stop_def stopModule_def stopRoutine_def tx_reset_def del: replicate_Suc flip: replicate_add)
qed

end
