(* ===== verification/Test_Client.thy ===== *)
theory Test_Client
  imports Connector
begin

text \<open>
  The interactive client \<^verbatim>\<open>test/connector_main.cpp\<close>: it connects to a port and sends the lines it reads until
  an empty one or the end of the connection. A call of \<^verbatim>\<open>send\<close> is run to its end together with the
  listener thread; the lines, the number parsed by \<^verbatim>\<open>std::stoi\<close> and the results of the socket calls are
  arguments. The output of the program is left out, except for what its callback logs.
\<close>

section \<open>A whole call of send\<close>

text \<open>
  The listener thread runs while the sender waits; the sender goes on when a pass notifies it. The three
  numbers are the results of the writes of its next attempt. \<open>None\<close>: the sender still waits when the
  inputs of the listener are used up.
\<close>

type_synonym wake = "ListenerInput \<times> int \<times> int \<times> int"

primrec cn_send_await ::
  "u8 list \<Rightarrow> wake list \<Rightarrow> SendPhase \<Rightarrow> S3tpConnector \<Rightarrow> int connector_step option" where
  "cn_send_await msg [] ph c = (case ph of Returned rc \<Rightarrow> Some (rc, [], c) | _ \<Rightarrow> None)"
| "cn_send_await msg (w # ws) ph c =
     (case ph of Returned rc \<Rightarrow> Some (rc, [], c)
      | _ \<Rightarrow>
          (case w of (linp, w1, w2, w3) \<Rightarrow>
           case asyncListener_pass linp c of (e, ops1, c1) \<Rightarrow>
           case (if NotifyAll \<in> set ops1 then cn_send_wake w1 w2 w3 msg (length msg) c1 ph else (ph, [])) of (ph1, ops2) \<Rightarrow>
           map_option (\<lambda>(rc, ops, c'). (rc, ops1 @ ops2 @ ops, c')) (cn_send_await msg ws ph1 c1)))"

definition cn_send ::
  "int \<times> int \<times> int \<Rightarrow> u8 list \<Rightarrow> wake list \<Rightarrow> S3tpConnector \<Rightarrow> int connector_step option" where
  "cn_send w msg ws c =
     (case w of (w1, w2, w3) \<Rightarrow>
      case cn_send_start w1 w2 w3 msg (length msg) c of (ph, ops) \<Rightarrow>
      map_option (\<lambda>(rc, ops', c'). (rc, ops @ ops', c')) (cn_send_await msg ws ph c))"

section \<open>The program\<close>

definition callback_onNewMessage :: "u8 list \<Rightarrow> nat \<Rightarrow> string" where
  "callback_onNewMessage data len =
     (if len \<le> 0 then ''Received empty message''
      else ''Received message <'' @ map (\<lambda>b. char_of (unat b)) (take len data) @ ''>'')"

definition test_config :: "int \<Rightarrow> S3TP_CONFIG" where
  "test_config port = \<lparr>cfg_port = word_of_int port, cfg_channel = 3, cfg_options = 0x01\<rparr>"

text \<open>A line of input: what the listener reads until it is entered, the line, what happens when it is sent.\<close>

record TestInput =
  ti_meanwhile :: "ListenerInput list"
  ti_line :: "u8 list"
  ti_write :: "int \<times> int \<times> int"
  ti_wakes :: "wake list"

text \<open>The results of the calls of \<^verbatim>\<open>send\<close>. At the end of the input \<^verbatim>\<open>getline\<close> gives an empty line.\<close>

primrec test_loop :: "TestInput list \<Rightarrow> S3tpConnector \<Rightarrow> int list connector_step option" where
  "test_loop [] c = Some ([], [], c)"
| "test_loop (inp # inps) c =
     (if \<not> cn_isConnected c then Some ([], [], c)
      else case asyncListener (ti_meanwhile inp) c of (ops1, c1) \<Rightarrow>
        if ti_line inp = [] then Some ([], ops1, c1)
        else case cn_send (ti_write inp) (ti_line inp) (ti_wakes inp) c1 of
          None \<Rightarrow> None
        | Some (rc, ops2, c2) \<Rightarrow>
            map_option (\<lambda>(rcs, ops, c'). (rc # rcs, ops1 @ ops2 @ ops, c')) (test_loop inps c2))"

definition test_main ::
  "int \<Rightarrow> int \<Rightarrow> InitInput \<Rightarrow> TestInput list \<Rightarrow> S3tpConnector \<Rightarrow> (int \<times> int list) connector_step option" where
  "test_main argc port ini inps c0 =
     (if argc \<noteq> 2 then Some ((-1, []), [], c0)
      else case cn_init ini (test_config port) True c0 of (rc, ops1, c1) \<Rightarrow>
        (case test_loop inps c1 of
           None \<Rightarrow> None
         | Some (rcs, ops2, c2) \<Rightarrow>
             (case cn_closeConnection c2 of (_, ops3, c3) \<Rightarrow>
              case cn_delete c3 of (_, ops4, c4) \<Rightarrow> Some ((0, rcs), ops1 @ ops2 @ ops3 @ ops4, c4))))"

section \<open>What it sends\<close>

text \<open>A line that is written at once and acknowledged, nothing else arriving in between.\<close>

definition acknowledged :: "TestInput \<Rightarrow> bool" where
  "acknowledged inp \<longleftrightarrow> ti_meanwhile inp = [] \<and> ti_line inp \<noteq> [] \<and>
     (case ti_write inp of (w1, w2, w3) \<Rightarrow> 0 < w1 \<and> 0 < w2 \<and> 0 < w3) \<and>
     (\<exists>linp w e. ti_wakes inp = [(linp, w)] \<and>
        listener_reads [WriteType 0xFF, WriteControl \<lparr>controlMessageType = ACK, control_error = e\<rparr>] [] linp)"

definition message_writes :: "u8 list \<Rightarrow> ConnectorOp list" where
  "message_writes msg = [Sock (WriteType 0), Sock (WriteLength (replicate 3 (of_nat (length msg)))),
     Sock (WriteData (Some msg) (length msg))]"

lemma cn_send_acknowledged:
  assumes "cn_connected c" "\<not> s3tpBufferFull c" "acknowledged inp"
  shows "cn_send (ti_write inp) (ti_line inp) (ti_wakes inp) c =
    Some (to_int32 (snd (snd (ti_write inp))), message_writes (ti_line inp) @ [NotifyAll], c\<lparr>lastMessageAck := True\<rparr>)"
proof -
  from assms(3) obtain linp w e where w: "ti_wakes inp = [(linp, w)]"
    "listener_reads [WriteType 0xFF, WriteControl \<lparr>controlMessageType = ACK, control_error = e\<rparr>] [] linp"
    by (auto simp: acknowledged_def)
  from listener_control [OF assms(1) w(2)] w(1) assms show ?thesis
    by (cases w; cases "ti_write inp")
       (simp add: cn_send_def cn_send_start_def send_attempt_ok cn_send_wake_def message_writes_def numeral_eq_Suc acknowledged_def)
qed

lemma acknowledged_lines_sent:
  assumes "cn_connected c" "\<not> s3tpBufferFull c" "\<forall>inp \<in> set inps. acknowledged inp"
  shows "\<exists>c'. test_loop inps c = Some (map (\<lambda>inp. to_int32 (snd (snd (ti_write inp)))) inps,
    concat (map (\<lambda>inp. message_writes (ti_line inp) @ [NotifyAll]) inps), c') \<and> cn_connected c'"
  using assms
proof (induction inps arbitrary: c)
  case (Cons inp inps)
  from Cons.IH [of "c\<lparr>lastMessageAck := True\<rparr>"] Cons.prems obtain c' where
    "test_loop inps (c\<lparr>lastMessageAck := True\<rparr>) = Some (map (\<lambda>inp. to_int32 (snd (snd (ti_write inp)))) inps,
      concat (map (\<lambda>inp. message_writes (ti_line inp) @ [NotifyAll]) inps), c')" "cn_connected c'" by auto
  with cn_send_acknowledged [of c inp] Cons.prems show ?case
    by (auto simp: cn_isConnected_def acknowledged_def)
qed simp

text \<open>
  Connected, the program writes every acknowledged line once, in the order of the input, then closes the
  connection. Whatever happens, it returns 0 with the connection closed, when it returns; a refused
  connection makes it end without a single message.
\<close>

theorem test_client_sends_lines:
  assumes "\<forall>inp \<in> set inps. acknowledged inp"
    and "0 \<le> in_socket ini" "0 \<le> in_connect ini" "0 < in_wr ini" "0 < in_rd ini" "in_commCode ini \<noteq> CODE_SERVER_PORT_BUSY"
  shows "\<exists>c'. test_main 2 port ini inps (cn_new cfg cb) =
    Some ((0, map (\<lambda>inp. to_int32 (snd (snd (ti_write inp)))) inps),
      [CreateSocket, Connect, WriteConfig (test_config port), StartListener] @
      concat (map (\<lambda>inp. message_writes (ti_line inp) @ [NotifyAll]) inps) @
      [Sock Shutdown, Sock CloseSocket, NotifyAll, NotifyAll], c') \<and> \<not> cn_connected c'"
proof -
  let ?c = "cn_new cfg cb\<lparr>cn_config := test_config port, cn_callback := True, cn_connected := True\<rparr>"
  have "cn_connected ?c" "\<not> s3tpBufferFull ?c" by (simp_all add: cn_new_def)
  from acknowledged_lines_sent [OF this assms(1)] assms(2-6) show ?thesis
    by (auto simp: test_main_def cn_init_def Let_def cn_closeConnection_def cn_delete_def)
qed

lemma test_main_closes:
  assumes "test_main 2 port ini inps c0 = Some ((rc, rcs), ops, c)"
  shows "rc = 0 \<and> \<not> cn_connected c"
  using assms by (auto simp: test_main_def cn_closeConnection_def cn_delete_def split: prod.splits option.splits)

lemma test_loop_needs_connection: "\<not> cn_connected c \<Longrightarrow> test_loop inps c = Some ([], [], c)"
  by (cases inps) (simp_all add: cn_isConnected_def)

lemma refused_client_sends_nothing:
  assumes "cn_init ini (test_config port) True c0 = (e, ops, c)" "\<not> cn_connected c"
  shows "\<exists>ops' c'. test_main 2 port ini inps c0 = Some ((0, []), ops', c')"
  using assms by (simp add: test_main_def test_loop_needs_connection split: prod.splits)

theorem test_client_sends_lines_witness:
  "\<exists>c'. test_main 2 5 \<lparr>in_socket = 3, in_connect = 0, in_wr = 3, in_rd = 4, in_commCode = 0\<rparr>
    [\<lparr>ti_meanwhile = [], ti_line = [104, 105], ti_write = (1, 24, 2),
      ti_wakes = [(\<lparr>li_type_rd = 1, li_type = 0xFF, li_ctrl_rd = 2, li_ctrl = 0, li_len_rd = 0, li_len = [], li_reads = []\<rparr>, 1, 1, 1)]\<rparr>]
    (cn_new (test_config 0) False) =
    Some ((0, [to_int32 2]), [CreateSocket, Connect, WriteConfig (test_config 5), StartListener,
      Sock (WriteType 0), Sock (WriteLength (replicate 3 (of_nat (length [104, 105 :: u8])))),
      Sock (WriteData (Some [104, 105]) (length [104, 105 :: u8])),
      NotifyAll, Sock Shutdown, Sock CloseSocket, NotifyAll, NotifyAll], c')"
  using test_client_sends_lines [of "[\<lparr>ti_meanwhile = [], ti_line = [104, 105], ti_write = (1, 24, 2),
      ti_wakes = [(\<lparr>li_type_rd = 1, li_type = 0xFF, li_ctrl_rd = 2, li_ctrl = 0, li_len_rd = 0, li_len = [], li_reads = []\<rparr>, 1, 1, 1)]\<rparr>]"
      "\<lparr>in_socket = 3, in_connect = 0, in_wr = 3, in_rd = 4, in_commCode = 0\<rparr>" 5 "test_config 0" False]
  by (auto simp: acknowledged_def message_writes_def)

end
