(* ===== verification/Ethernet.thy ===== *)
theory Ethernet
  imports S3TP_Prelude
begin

text \<open>
  The socket helpers of \<^verbatim>\<open>drivers/eth.c\<close>. The results of the system calls are arguments, the calls made are
  listed in order with the descriptor they are made on. Sizes and constants are those of Linux, except for
  the length of \<^verbatim>\<open>sun_path\<close>, which is an argument.
\<close>

section \<open>Strings and system calls\<close>

datatype EthOp = Unlink string | Socket int int int | SetHdrIncl int | GetIfIndex int string | GetHwAddr int string
  | GetAddr int string | Bind int nat | Listen int int | Perror string | Print u32

definition strncpy :: "string \<Rightarrow> nat \<Rightarrow> string" where
  "strncpy src n = take n (src @ replicate n CHR 0x00)"

definition strlen :: "string \<Rightarrow> nat result" where
  "strlen buf = (if CHR 0x00 \<in> set buf then Inr (length (takeWhile (\<lambda>c. c \<noteq> CHR 0x00) buf)) else Inl OutOfBounds)"

definition c_string :: "string \<Rightarrow> string result" where
  "c_string buf = (if CHR 0x00 \<in> set buf then Inr (takeWhile (\<lambda>c. c \<noteq> CHR 0x00) buf) else Inl OutOfBounds)"

definition htons :: "u16 \<Rightarrow> u16" where
  "htons x = push_bit 8 x OR drop_bit 8 x"

section \<open>The local socket\<close>

text \<open>\<open>n\<close> is the size of \<^verbatim>\<open>sun_path\<close>; the result comes with the path written to the address.\<close>

definition open_dom :: "nat \<Rightarrow> int \<Rightarrow> int \<Rightarrow> int \<Rightarrow> string \<Rightarrow> (int \<times> EthOp list \<times> string) result" where
  "open_dom n sock bnd lst filename =
     (let path = strncpy filename n in
      bind_res (c_string path) (\<lambda>name.
      bind_res (strlen path) (\<lambda>l.
        let slen = 2 + l; ops = [Unlink name, Socket 1 5 0] in
        if sock < 0 then Inr (-1, ops @ [Perror ''socket() failed''], path)
        else if bnd < 0 then Inr (-1, ops @ [Bind sock slen, Perror ''bind() failed''], path)
        else if lst < 0 then Inr (-1, ops @ [Bind sock slen, Listen sock 0, Perror ''listen() failed''], path)
        else Inr (sock, ops @ [Bind sock slen, Listen sock 0], path))))"

section \<open>The raw sockets\<close>

record sockaddr_ll =
  sll_family :: u16
  sll_protocol :: u16
  sll_ifindex :: int
  sll_hatype :: u16
  sll_pkttype :: u8
  sll_halen :: u8
  sll_addr :: "u8 list"

abbreviation (input) ETH_P_ALL :: u16 where "ETH_P_ALL \<equiv> 3"
abbreviation (input) ETH_ALEN :: nat where "ETH_ALEN \<equiv> 6"
abbreviation (input) IFNAMSIZ :: nat where "IFNAMSIZ \<equiv> 16"

definition new_sockaddr_ll :: sockaddr_ll where
  "new_sockaddr_ll = \<lparr>sll_family = 0, sll_protocol = 0, sll_ifindex = 0, sll_hatype = 0, sll_pkttype = 0, sll_halen = 0,
     sll_addr = replicate 8 0\<rparr>"

text \<open>\<open>idx\<close> and \<open>hw\<close> are the results of the two queries with the interface number and the hardware address they yield;
  \<open>sa\<close> is the address structure of the caller.\<close>

definition open_raw_l2 ::
  "int \<Rightarrow> int \<times> int \<Rightarrow> int \<times> u8 list \<Rightarrow> int \<Rightarrow> string \<Rightarrow> sockaddr_ll \<Rightarrow> int \<times> EthOp list \<times> sockaddr_ll" where
  "open_raw_l2 sock idx hw bnd ifname sa =
     (let ops = [Socket 17 3 (uint (htons ETH_P_ALL))]; name = strncpy ifname IFNAMSIZ in
      if sock < 0 then (-1, ops @ [Perror ''socket() failed''], sa)
      else
        let ops = ops @ [GetIfIndex sock name] in
        if fst idx < 0 then (-1, ops @ [Perror ''ioctl() failed''], sa)
        else
          let sa = new_sockaddr_ll\<lparr>sll_family := 17, sll_protocol := htons ETH_P_ALL, sll_ifindex := snd idx,
                sll_hatype := 1, sll_pkttype := 3, sll_halen := of_nat ETH_ALEN\<rparr>;
              ops = ops @ [GetHwAddr sock name] in
          if fst hw < 0 then (-1, ops @ [Perror ''ioctl() failed''], sa)
          else
            let sa = sa\<lparr>sll_addr := take ETH_ALEN (snd hw) @ drop ETH_ALEN (sll_addr sa)\<rparr>;
                ops = ops @ [Bind sock 20] in
            if bnd < 0 then (-1, ops @ [Perror ''bind() failed''], sa)
            else (sock, ops, sa))"

record sockaddr_in =
  sin_family :: u16
  sin_port :: u16
  sin_addr :: u32

definition open_raw_l3 ::
  "int \<Rightarrow> int \<Rightarrow> int \<times> u32 \<Rightarrow> int \<Rightarrow> string \<Rightarrow> sockaddr_in \<Rightarrow> int \<times> EthOp list \<times> sockaddr_in" where
  "open_raw_l3 sock opt addr bnd ifname sa =
     (let ops = [Socket 2 3 255] in
      if sock < 0 then (-1, ops @ [Perror ''socket() failed''], sa)
      else
        let ops = ops @ [SetHdrIncl sock] in
        if opt < 0 then (-1, ops @ [Perror ''setsockopt() failed''], sa)
        else
          let ops = ops @ [GetAddr sock (strncpy ifname IFNAMSIZ)] in
          if fst addr < 0 then (-1, ops @ [Perror ''ioctl() failed''], sa)
          else
            let sa = \<lparr>sin_family = 2, sin_port = 0, sin_addr = snd addr\<rparr>;
                ops = ops @ [Print (snd addr), Bind sock 16] in
            if bnd < 0 then (-1, ops @ [Perror ''bind() failed''], sa)
            else (sock, ops, sa))"

section \<open>Properties\<close>

lemma strncpy_terminated: "CHR 0x00 \<notin> set src \<Longrightarrow> CHR 0x00 \<in> set (strncpy src n) \<longleftrightarrow> length src < n"
  by (auto simp: strncpy_def dest: in_set_takeD)

lemma strncpy_prefix: "CHR 0x00 \<notin> set src \<Longrightarrow> length src < n \<Longrightarrow> takeWhile (\<lambda>c. c \<noteq> CHR 0x00) (strncpy src n) = src"
  by (cases "n - length src") (auto simp: strncpy_def takeWhile_append)

text \<open>The local socket on every branch: with a name that fills the path of the address the code runs beyond the structure, since the copy
  is not terminated; otherwise the named file is removed, the address is bound with its exact length, and the descriptor is returned
  exactly when every call succeeds.\<close>

theorem open_dom_outcome:
  assumes "CHR 0x00 \<notin> set filename"
  shows "if n \<le> length filename then open_dom n sock bnd lst filename = Inl OutOfBounds
    else \<exists>ops path. open_dom n sock bnd lst filename = Inr (if 0 \<le> sock \<and> 0 \<le> bnd \<and> 0 \<le> lst then sock else -1, ops, path) \<and>
      length path = n \<and> take (length filename) path = filename \<and> hd ops = Unlink filename \<and>
      (0 \<le> sock \<longrightarrow> Bind sock (2 + length filename) \<in> set ops)"
proof (cases "n \<le> length filename")
  case True
  then show ?thesis using strncpy_terminated [OF assms, of n] by (simp add: open_dom_def c_string_def Let_def)
next
  case False
  then have n: "length filename < n" by simp
  have "length (strncpy filename n) = n" "take (length filename) (strncpy filename n) = filename" using n by (simp_all add: strncpy_def)
  then show ?thesis using n strncpy_terminated [OF assms, of n] strncpy_prefix [OF assms n]
    by (auto simp: open_dom_def c_string_def strlen_def Let_def)
qed

theorem open_dom_outcome_witness:
  "open_dom 4 3 0 0 ''/tmp'' = Inl OutOfBounds"
  using open_dom_outcome [of "''/tmp''" 4 3 0 0] by simp

text \<open>The raw sockets on every branch: the descriptor is returned, with the address filled in, exactly when every call succeeds.\<close>

lemma htons_all: "htons ETH_P_ALL = 0x0300"
  by (simp add: htons_def)

lemma pad_address: "replicate 2 (0 :: u8) = [0, 0]"
  by (simp add: numeral_eq_Suc)

lemma open_raw_l2_outcome:
  "open_raw_l2 sock idx hw bnd ifname sa = (rc, ops, sa') \<Longrightarrow>
    (if 0 \<le> sock \<and> 0 \<le> fst idx \<and> 0 \<le> fst hw \<and> 0 \<le> bnd
     then rc = sock \<and> sll_ifindex sa' = snd idx \<and> sll_addr sa' = take 6 (snd hw) @ [0, 0] \<and>
       sll_protocol sa' = 0x0300
     else rc = -1)"
  by (auto simp: open_raw_l2_def Let_def new_sockaddr_ll_def htons_all pad_address split: if_splits)

lemma open_raw_l3_outcome:
  "open_raw_l3 sock opt addr bnd ifname sa = (rc, ops, sa') \<Longrightarrow>
    (if 0 \<le> sock \<and> 0 \<le> opt \<and> 0 \<le> fst addr \<and> 0 \<le> bnd
     then rc = sock \<and> sa' = \<lparr>sin_family = 2, sin_port = 0, sin_addr = snd addr\<rparr>
     else rc = -1)"
  by (auto simp: open_raw_l3_def Let_def split: if_splits)

end
