(* ===== verification/Lock_Order.thy ===== *)
theory Lock_Order
  imports S3TP_Prelude
begin

text \<open>
  The mutexes of a module (transmission or reception), of its buffer and of the queues in it. The other
  theories treat a call as one step; here a call is the sequence of mutex operations it performs, read
  off \<^verbatim>\<open>core/PriorityQueue.h\<close>, \<^verbatim>\<open>core/Buffer.cpp\<close>, \<^verbatim>\<open>core/TxModule.cpp\<close> and \<^verbatim>\<open>core/RxModule.cpp\<close>, and threads
  interleave. The parameters tell the branches apart: the port, and what the call finds there. Waiting
  on a condition variable releases the mutex and takes it again. What the status interface and the
  link do in their callbacks is not included.
\<close>

section \<open>What the calls lock\<close>

datatype Mutex = ModuleMutex | BufferMutex | QueueMutex u8

datatype LockOp = Lock Mutex | Unlock Mutex

text \<open>A critical section around other operations.\<close>

definition locked :: "Mutex \<Rightarrow> LockOp list \<Rightarrow> LockOp list" where
  "locked m ops = [Lock m] @ ops @ [Unlock m]"

subsection \<open>Queue\<close>

definition lk_isEmpty :: "u8 \<Rightarrow> LockOp list" where
  "lk_isEmpty p = locked (QueueMutex p) []"

definition lk_peek :: "u8 \<Rightarrow> LockOp list" where
  "lk_peek p = lk_isEmpty p @ locked (QueueMutex p) []"

definition lk_pop :: "u8 \<Rightarrow> LockOp list" where
  "lk_pop p = lk_isEmpty p @ locked (QueueMutex p) []"

definition lk_getSize :: "u8 \<Rightarrow> LockOp list" where
  "lk_getSize p = locked (QueueMutex p) []"

definition lk_clear :: "u8 \<Rightarrow> LockOp list" where
  "lk_clear p = locked (QueueMutex p) []"

text \<open>
  The comparator of either module takes the mutex of the module. An insertion compares with \<open>k\<close>
  elements; the branch for a full queue is never taken, since a size of 16 bits stays below the capacity.
\<close>

definition lk_comparePriority :: "LockOp list" where
  "lk_comparePriority = locked ModuleMutex []"

definition lk_push :: "u8 \<Rightarrow> nat \<Rightarrow> LockOp list" where
  "lk_push p k = locked (QueueMutex p) (concat (replicate k lk_comparePriority))"

subsection \<open>Buffer\<close>

text \<open>
  What an insertion finds: an empty queue; a queue it clears because the window is exceeded; or a
  non-empty queue in which it compares with \<open>j + 1\<close> elements.
\<close>

datatype Insertion = IntoEmpty | Clearing | Behind nat

primrec compared :: "Insertion \<Rightarrow> nat" where
  "compared IntoEmpty = 0"
| "compared Clearing = 0"
| "compared (Behind j) = Suc j"

text \<open>\<open>win\<close> is what \<^verbatim>\<open>maximumWindowExceeded\<close> of the module locks.\<close>

definition lk_write :: "LockOp list \<Rightarrow> u8 \<Rightarrow> Insertion \<Rightarrow> LockOp list" where
  "lk_write win p ins = locked BufferMutex
     (lk_isEmpty p @ (if ins \<noteq> IntoEmpty then lk_peek p @ win else []) @
      (if ins = Clearing then lk_clear p else []) @ lk_push p (compared ins) @ lk_getSize p)"

definition lk_buf_clear :: "u8 list \<Rightarrow> LockOp list" where
  "lk_buf_clear ports = locked BufferMutex (concat (map lk_clear ports))"

definition lk_clearQueueForPort :: "u8 \<Rightarrow> bool \<Rightarrow> LockOp list" where
  "lk_clearQueueForPort p present = locked BufferMutex (if present then lk_clear p else [])"

definition lk_packetsAvailable :: "LockOp list" where
  "lk_packetsAvailable = locked BufferMutex []"

definition lk_getActiveQueues :: "LockOp list" where
  "lk_getActiveQueues = locked BufferMutex []"

definition lk_getQueue :: "LockOp list" where
  "lk_getQueue = locked BufferMutex []"

text \<open>What a removal finds: no queue, an empty one, a packet whose channel is blocked, or a packet it takes.\<close>

datatype Removal = NoQueue | EmptyQueue | Unsuitable | Taken bool

primrec lk_popPacketInternal :: "u8 \<Rightarrow> Removal \<Rightarrow> LockOp list" where
  "lk_popPacketInternal p NoQueue = []"
| "lk_popPacketInternal p EmptyQueue = lk_isEmpty p"
| "lk_popPacketInternal p Unsuitable = lk_isEmpty p @ lk_peek p"
| "lk_popPacketInternal p (Taken more) =
     lk_isEmpty p @ lk_peek p @ lk_pop p @ lk_isEmpty p @ (if more then lk_getSize p else [])"

definition lk_getNextPacket :: "u8 \<Rightarrow> Removal \<Rightarrow> LockOp list" where
  "lk_getNextPacket p rm = locked BufferMutex (lk_popPacketInternal p rm)"

text \<open>\<open>visits\<close> are the ports visited, with what is found there.\<close>

definition lk_getNextAvailablePacket :: "(u8 \<times> Removal) list \<Rightarrow> LockOp list" where
  "lk_getNextAvailablePacket visits = locked BufferMutex (concat (map (\<lambda>(p, rm). lk_popPacketInternal p rm) visits))"

definition lk_peektNextPacket :: "u8 \<Rightarrow> Removal \<Rightarrow> LockOp list" where
  "lk_peektNextPacket p rm = locked BufferMutex
     (case rm of NoQueue \<Rightarrow> [] | EmptyQueue \<Rightarrow> lk_isEmpty p | _ \<Rightarrow> lk_isEmpty p @ lk_peek p)"

definition lk_getSizeOfQueue :: "u8 \<Rightarrow> bool \<Rightarrow> LockOp list" where
  "lk_getSizeOfQueue p present = locked BufferMutex (if present then lk_getSize p else [])"

subsection \<open>Transmission\<close>

definition lk_enqueuePacket :: "u8 \<Rightarrow> Insertion option \<Rightarrow> LockOp list" where
  "lk_enqueuePacket p act = locked ModuleMutex [] @ (case act of None \<Rightarrow> [] | Some ins \<Rightarrow> lk_write [] p ins)"

definition lk_wait :: "LockOp list" where
  "lk_wait = [Unlock ModuleMutex, Lock ModuleMutex]"

datatype TxFetch = NextFragment u8 Removal | NextAvailable "(u8 \<times> Removal) list"

primrec lk_fetch :: "TxFetch \<Rightarrow> LockOp list" where
  "lk_fetch (NextFragment p rm) = lk_getNextPacket p rm"
| "lk_fetch (NextAvailable visits) = lk_getNextAvailablePacket visits"

text \<open>
  The passes of the loop of the transmission thread: it waits because the link or all channels are
  blocked, because there are no packets, because none can be sent, or it sends one.
\<close>

datatype TxPass = LinkBlocked | NoPackets | NoneSuitable TxFetch | Sent TxFetch u8 bool

primrec lk_txPass :: "TxPass \<Rightarrow> LockOp list" where
  "lk_txPass LinkBlocked = lk_wait"
| "lk_txPass NoPackets = lk_packetsAvailable @ lk_wait"
| "lk_txPass (NoneSuitable ft) = lk_packetsAvailable @ lk_fetch ft @ lk_wait"
| "lk_txPass (Sent ft p present) = lk_packetsAvailable @ lk_fetch ft @ [Unlock ModuleMutex] @
     lk_getSizeOfQueue p present @ [Lock ModuleMutex]"

definition lk_txRoutine :: "TxPass list \<Rightarrow> LockOp list" where
  "lk_txRoutine passes = locked ModuleMutex (concat (map lk_txPass passes))"

text \<open>Resetting either module clears its buffer.\<close>

definition lk_reset :: "u8 list \<Rightarrow> LockOp list" where
  "lk_reset ports = locked ModuleMutex (lk_buf_clear ports)"

subsection \<open>Reception\<close>

definition lk_isActive :: "LockOp list" where
  "lk_isActive = locked ModuleMutex []"

definition lk_isPortOpen :: "LockOp list" where
  "lk_isPortOpen = locked ModuleMutex []"

definition lk_isNewMessageAvailable :: "LockOp list" where
  "lk_isNewMessageAvailable = locked ModuleMutex []"

definition lk_maximumWindowExceeded :: "LockOp list" where
  "lk_maximumWindowExceeded = locked ModuleMutex []"

definition lk_rx_synchronizeStatus :: "LockOp list" where
  "lk_rx_synchronizeStatus = locked ModuleMutex []"

definition lk_isComplete :: "u8 \<Rightarrow> LockOp list" where
  "lk_isComplete p = lk_getQueue @ locked (QueueMutex p) []"

text \<open>What a flush finds in a queue: nothing, a packet to keep, or one that is too old.\<close>

datatype Flush = FoundEmpty | Kept | Dropped

definition lk_flushQueues :: "(u8 \<times> Flush) list \<Rightarrow> LockOp list" where
  "lk_flushQueues qs = lk_getActiveQueues @ concat (map (\<lambda>(p, fl).
     lk_getQueue @ lk_isEmpty p @
     (case fl of FoundEmpty \<Rightarrow> [] | Kept \<Rightarrow> lk_peek p | Dropped \<Rightarrow> lk_peek p @ lk_clearQueueForPort p True)) qs)"

text \<open>The outcomes of a received packet; \<open>Stored\<close> comes with the flush when the window is full.\<close>

datatype Reception = Refused | Synchronized | PortClosed | Stored u8 Insertion "(u8 \<times> Flush) list option"

definition lk_handleReceivedPacket :: "Reception \<Rightarrow> LockOp list" where
  "lk_handleReceivedPacket rc = lk_isActive @
     (case rc of Refused \<Rightarrow> [] | Synchronized \<Rightarrow> lk_rx_synchronizeStatus | PortClosed \<Rightarrow> lk_isPortOpen
      | Stored p ins fl \<Rightarrow> lk_isPortOpen @ lk_write lk_maximumWindowExceeded p ins @
          locked ModuleMutex (lk_isComplete p) @ (case fl of None \<Rightarrow> [] | Some qs \<Rightarrow> lk_flushQueues qs))"

text \<open>
  The outcomes of the consumption of a message, with one flag per fragment taken. The exit for an
  inconsistent sequence leaves the mutex locked.
\<close>

datatype Consumption = ModuleInactive | NothingAvailable | Consumed u8 "bool list" | Inconsistent u8 "bool list"

definition lk_getNextCompleteMessage :: "Consumption \<Rightarrow> LockOp list" where
  "lk_getNextCompleteMessage cs = lk_isActive @
     (case cs of ModuleInactive \<Rightarrow> [] | NothingAvailable \<Rightarrow> lk_isNewMessageAvailable
      | Consumed p mores \<Rightarrow> lk_isNewMessageAvailable @
          locked ModuleMutex (concat (map (\<lambda>m. lk_getNextPacket p (Taken m)) mores) @ lk_isComplete p)
      | Inconsistent p mores \<Rightarrow> lk_isNewMessageAvailable @ [Lock ModuleMutex] @
          concat (map (\<lambda>m. lk_getNextPacket p (Taken m)) mores))"

lemmas lk_queue_defs = lk_isEmpty_def lk_peek_def lk_pop_def lk_getSize_def lk_clear_def lk_comparePriority_def lk_push_def
lemmas lk_buffer_defs = lk_write_def lk_buf_clear_def lk_clearQueueForPort_def lk_packetsAvailable_def
  lk_getActiveQueues_def lk_getQueue_def lk_getNextPacket_def lk_getNextAvailablePacket_def lk_peektNextPacket_def
  lk_getSizeOfQueue_def
lemmas lk_module_defs = lk_enqueuePacket_def lk_wait_def lk_txRoutine_def lk_reset_def lk_isActive_def lk_isPortOpen_def
  lk_isNewMessageAvailable_def lk_maximumWindowExceeded_def lk_rx_synchronizeStatus_def lk_isComplete_def
  lk_flushQueues_def lk_handleReceivedPacket_def lk_getNextCompleteMessage_def
lemmas lk_defs = lk_queue_defs lk_buffer_defs lk_module_defs locked_def

section \<open>Threads\<close>

text \<open>The threads with what each still has to do, and the thread that holds each mutex.\<close>

type_synonym lock_state = "LockOp list list \<times> (Mutex \<Rightarrow> nat option)"

inductive lock_step :: "lock_state \<Rightarrow> lock_state \<Rightarrow> bool" where
  acquire: "i < length ps \<Longrightarrow> ps ! i = Lock m # rest \<Longrightarrow> ow m = None \<Longrightarrow>
    lock_step (ps, ow) (ps[i := rest], ow(m := Some i))"
| release: "i < length ps \<Longrightarrow> ps ! i = Unlock m # rest \<Longrightarrow> ow m = Some i \<Longrightarrow>
    lock_step (ps, ow) (ps[i := rest], ow(m := None))"

inductive_cases lock_stepE: "lock_step (ps, ow) s"

definition deadlocked :: "lock_state \<Rightarrow> bool" where
  "deadlocked s \<longleftrightarrow> (\<exists>i < length (fst s). fst s ! i \<noteq> []) \<and> (\<forall>s'. \<not> lock_step s s')"

text \<open>Running threads by a schedule: the numbers of the threads that take the next step.\<close>

fun lock_run :: "nat list \<Rightarrow> lock_state \<Rightarrow> lock_state option" where
  "lock_run [] s = Some s"
| "lock_run (i # is) (ps, ow) =
     (if i < length ps then
        (case ps ! i of
           Lock m # rest \<Rightarrow> if ow m = None then lock_run is (ps[i := rest], ow(m := Some i)) else None
         | Unlock m # rest \<Rightarrow> if ow m = Some i then lock_run is (ps[i := rest], ow(m := None)) else None
         | [] \<Rightarrow> None)
      else None)"

lemma lock_run_steps: "lock_run is s = Some s' \<Longrightarrow> lock_step\<^sup>*\<^sup>* s s'"
proof (induction "is" s rule: lock_run.induct)
  case (2 i "is" ps ow)
  then show ?case
    by (auto split: if_splits list.splits LockOp.splits
        intro: converse_rtranclp_into_rtranclp lock_step.intros)
qed simp

lemma lock_run_append: "lock_run (is @ js) s = Option.bind (lock_run is s) (lock_run js)"
  by (induction "is" s rule: lock_run.induct) (auto split: list.splits LockOp.splits)

section \<open>Lock order\<close>

text \<open>
  A program respects an order when it releases what it holds, and takes a mutex only above all it
  holds.
\<close>

fun in_order :: "(Mutex \<Rightarrow> nat) \<Rightarrow> Mutex set \<Rightarrow> LockOp list \<Rightarrow> bool" where
  "in_order rank H [] \<longleftrightarrow> H = {}"
| "in_order rank H (Lock m # ops) \<longleftrightarrow> (\<forall>h \<in> H. rank h < rank m) \<and> m \<notin> H \<and> in_order rank (insert m H) ops"
| "in_order rank H (Unlock m # ops) \<longleftrightarrow> m \<in> H \<and> in_order rank (H - {m}) ops"

locale lock_order =
  fixes rank :: "Mutex \<Rightarrow> nat"
    and programs :: "LockOp list set"
  assumes ordered: "prog \<in> programs \<Longrightarrow> in_order rank {} prog"
begin

definition lock_inv :: "lock_state \<Rightarrow> bool" where
  "lock_inv s \<longleftrightarrow> (\<forall>i < length (fst s). in_order rank {m. snd s m = Some i} (fst s ! i)) \<and>
     (\<forall>m i. snd s m = Some i \<longrightarrow> i < length (fst s))"

lemma start_inv: "set ps \<subseteq> programs \<Longrightarrow> lock_inv (ps, \<lambda>_. None)"
  using ordered nth_mem by (fastforce simp: lock_inv_def)

lemma step_inv:
  assumes "lock_step s s'" "lock_inv s"
  shows "lock_inv s'"
  using assms
proof (induction rule: lock_step.induct)
  case (acquire i ps m rest ow)
  have "in_order rank {m'. ow m' = Some i} (ps ! i)"
    using acquire.prems acquire.hyps(1) unfolding lock_inv_def fst_conv snd_conv by blast
  then have i: "in_order rank {m'. ow m' = Some i} (Lock m # rest)" by (simp only: acquire.hyps(2))
  have "{m'. (ow(m := Some i)) m' = Some i} = insert m {m'. ow m' = Some i}" by auto
  moreover have "{m'. (ow(m := Some i)) m' = Some j} = {m'. ow m' = Some j}" if "j \<noteq> i" for j
    using that acquire.hyps(3) by auto
  ultimately show ?case using acquire i by (auto simp: lock_inv_def nth_list_update)
next
  case (release i ps m rest ow)
  have "in_order rank {m'. ow m' = Some i} (ps ! i)"
    using release.prems release.hyps(1) unfolding lock_inv_def fst_conv snd_conv by blast
  then have i: "in_order rank {m'. ow m' = Some i} (Unlock m # rest)" by (simp only: release.hyps(2))
  have "{m'. (ow(m := None)) m' = Some i} = {m'. ow m' = Some i} - {m}" by auto
  moreover have "{m'. (ow(m := None)) m' = Some j} = {m'. ow m' = Some j}" if "j \<noteq> i" for j
    using that release.hyps(3) by auto
  ultimately show ?case using release i by (auto simp: lock_inv_def nth_list_update)
qed

text \<open>A thread that cannot go on waits for a mutex, whose holder waits for one above it.\<close>

lemma blocked_waits:
  assumes "lock_inv (ps, ow)" "\<forall>s'. \<not> lock_step (ps, ow) s'" "i < length ps" "ps ! i \<noteq> []"
  shows "\<exists>m j rest. ps ! i = Lock m # rest \<and> ow m = Some j \<and> j < length ps \<and> ps ! j \<noteq> [] \<and>
    (\<forall>m' rest'. ps ! j = Lock m' # rest' \<longrightarrow> rank m < rank m')"
proof -
  obtain c rest where c: "ps ! i = c # rest" using assms(4) by (cases "ps ! i") auto
  have "in_order rank {m. ow m = Some i} (ps ! i)" using assms(1,3) unfolding lock_inv_def fst_conv snd_conv by blast
  then have r: "in_order rank {m. ow m = Some i} (c # rest)" by (simp only: c)
  obtain m where m: "c = Lock m"
  proof (cases c)
    case (Unlock m)
    with r have "ow m = Some i" by simp
    with lock_step.release [of i ps m rest ow] assms(2,3) c Unlock have False by blast
    then show ?thesis ..
  qed auto
  then obtain j where j: "ow m = Some j" using lock_step.acquire [of i ps m rest ow] assms(2,3) c by auto
  have jl: "j < length ps" using assms(1) j by (auto simp: lock_inv_def)
  have rj: "in_order rank {m. ow m = Some j} (ps ! j)" using assms(1) jl by (auto simp: lock_inv_def)
  have "ps ! j \<noteq> []" using rj j by auto
  moreover have "rank m < rank m'" if "ps ! j = Lock m' # rest'" for m' rest' using rj j that by auto
  ultimately show ?thesis using c m j jl by blast
qed

lemma inv_not_deadlocked:
  assumes "lock_inv (ps, ow)"
  shows "\<not> deadlocked (ps, ow)"
proof
  assume d: "deadlocked (ps, ow)"
  then have stuck: "\<forall>s'. \<not> lock_step (ps, ow) s'" by (auto simp: deadlocked_def)
  let ?W = "{rank m |m i rest. i < length ps \<and> ps ! i = Lock m # rest}"
  have "?W \<subseteq> (\<lambda>i. case hd (ps ! i) of Lock m \<Rightarrow> rank m | Unlock m \<Rightarrow> 0) ` {..<length ps}"
    by (force simp: image_iff)
  then have fin: "finite ?W" by (rule finite_subset) simp
  from d obtain i where i: "i < length ps" "ps ! i \<noteq> []" by (auto simp: deadlocked_def)
  from blocked_waits [OF assms stuck i] obtain m0 rest0 where "ps ! i = Lock m0 # rest0" by blast
  then have "rank m0 \<in> ?W" using i(1) by blast
  then have "?W \<noteq> {}" by blast
  then have "Max ?W \<in> ?W" using fin by (rule Max_in [rotated])
  then obtain m k rest where k: "Max ?W = rank m" "k < length ps" "ps ! k = Lock m # rest" by blast
  have "ps ! k \<noteq> []" using k(3) by simp
  from blocked_waits [OF assms stuck k(2) this] k(3) obtain j where
    j: "j < length ps" "ps ! j \<noteq> []" "\<forall>m' rest'. ps ! j = Lock m' # rest' \<longrightarrow> rank m < rank m'" by auto
  from blocked_waits [OF assms stuck j(1,2)] obtain m' rest' where m': "ps ! j = Lock m' # rest'" by blast
  then have "rank m' \<in> ?W" using j(1) by blast
  then have "rank m' \<le> Max ?W" using fin by simp
  with k(1) j(3) m' show False by fastforce
qed

lemma no_deadlock:
  assumes "set ps \<subseteq> programs" "lock_step\<^sup>*\<^sup>* (ps, \<lambda>_. None) s"
  shows "\<not> deadlocked s"
proof -
  have "lock_inv s" using assms(2)
    by (induction rule: rtranclp_induct) (simp_all add: start_inv assms(1) step_inv)
  then show ?thesis using inv_not_deadlocked [of "fst s" "snd s"] by simp
qed

end

section \<open>The programs of the modules\<close>

primrec module_rank :: "Mutex \<Rightarrow> nat" where
  "module_rank ModuleMutex = 0"
| "module_rank BufferMutex = 1"
| "module_rank (QueueMutex p) = 2"

text \<open>The calls that follow the order: all but an insertion into a non-empty queue and the inconsistent exit.\<close>

definition ordered_programs :: "LockOp list set" where
  "ordered_programs =
     range (\<lambda>p. lk_enqueuePacket p None) \<union> range (\<lambda>p. lk_enqueuePacket p (Some IntoEmpty)) \<union>
     range lk_txRoutine \<union> range lk_reset \<union> range (\<lambda>(p, present). lk_getSizeOfQueue p present) \<union>
     lk_handleReceivedPacket ` ({Refused, Synchronized, PortClosed} \<union> range (\<lambda>(p, fl). Stored p IntoEmpty fl)) \<union>
     lk_getNextCompleteMessage ` ({ModuleInactive, NothingAvailable} \<union> range (\<lambda>(p, mores). Consumed p mores))"

text \<open>A block of operations that, with \<open>H\<close> held, follows the order and releases what it takes.\<close>

definition keeps :: "Mutex set \<Rightarrow> LockOp list \<Rightarrow> bool" where
  "keeps H b \<longleftrightarrow> (\<forall>ops. in_order module_rank H ops \<longrightarrow> in_order module_rank H (b @ ops))"

lemma keeps_Nil [simp]: "keeps H []"
  by (simp add: keeps_def)

lemma keeps_append [intro!]: "keeps H a \<Longrightarrow> keeps H b \<Longrightarrow> keeps H (a @ b)"
  by (simp add: keeps_def)

lemma keeps_concat [intro!]: "(\<And>x. x \<in> set xs \<Longrightarrow> keeps H (f x)) \<Longrightarrow> keeps H (concat (map f xs))"
  by (induction xs) auto

lemma keeps_locked:
  assumes "\<forall>h \<in> H. module_rank h < module_rank m" "keeps (insert m H) b"
  shows "keeps H (locked m b)"
proof -
  have "m \<notin> H" using assms(1) by blast
  with assms show ?thesis by (auto simp: keeps_def locked_def insert_Diff_if)
qed

lemma keeps_module [intro!]: "keeps {ModuleMutex} b \<Longrightarrow> keeps {} (locked ModuleMutex b)"
  by (simp add: keeps_locked)

lemma keeps_buffer:
  "H \<subseteq> {ModuleMutex} \<Longrightarrow> keeps (insert BufferMutex H) b \<Longrightarrow> keeps H (locked BufferMutex b)"
  by (rule keeps_locked) auto

lemma keeps_queue: "H \<subseteq> {ModuleMutex, BufferMutex} \<Longrightarrow> keeps H (locked (QueueMutex p) [])"
  by (rule keeps_locked) (auto simp: subset_iff)

lemma keeps_queue_calls:
  assumes "H \<subseteq> {ModuleMutex, BufferMutex}"
  shows "keeps H (lk_isEmpty p)" "keeps H (lk_peek p)" "keeps H (lk_pop p)" "keeps H (lk_getSize p)"
    "keeps H (lk_clear p)" "keeps H (lk_push p 0)" "keeps H (lk_popPacketInternal p rm)"
  using keeps_queue [OF assms] by (cases rm; auto simp: lk_queue_defs keeps_append)+

lemma keeps_buffer_calls:
  assumes "H \<subseteq> {ModuleMutex}"
  shows "keeps H (lk_write win p IntoEmpty)" "keeps H (lk_buf_clear ports)" "keeps H (lk_clearQueueForPort p pr)"
    "keeps H lk_packetsAvailable" "keeps H lk_getActiveQueues" "keeps H lk_getQueue"
    "keeps H (lk_getNextPacket p rm)" "keeps H (lk_getNextAvailablePacket visits)" "keeps H (lk_getSizeOfQueue p pr)"
proof -
  have "insert BufferMutex H \<subseteq> {ModuleMutex, BufferMutex}" using assms by auto
  note queue = keeps_queue_calls [OF this]
  show "keeps H (lk_write win p IntoEmpty)" "keeps H (lk_buf_clear ports)" "keeps H (lk_clearQueueForPort p pr)"
    "keeps H lk_packetsAvailable" "keeps H lk_getActiveQueues" "keeps H lk_getQueue"
    "keeps H (lk_getNextPacket p rm)" "keeps H (lk_getNextAvailablePacket visits)" "keeps H (lk_getSizeOfQueue p pr)"
    unfolding lk_buffer_defs by (auto intro!: keeps_buffer [OF assms] queue)
qed

lemmas keeps_free = keeps_buffer_calls [of "{}", simplified] keeps_queue_calls [of "{}", simplified]
lemmas keeps_held = keeps_buffer_calls [of "{ModuleMutex}", simplified]

lemma keeps_isComplete: "keeps {ModuleMutex} (lk_isComplete p)"
  unfolding lk_isComplete_def by (auto intro!: keeps_held keeps_queue)

lemma keeps_flushQueues: "keeps {} (lk_flushQueues qs)"
  unfolding lk_flushQueues_def by (auto intro!: keeps_free split: Flush.splits)

text \<open>A pass may release the mutex of the module in between, so it is followed from the state it starts in.\<close>

lemma in_order_wait: "in_order module_rank {ModuleMutex} (lk_wait @ ops) \<longleftrightarrow> in_order module_rank {ModuleMutex} ops"
  by (simp add: lk_wait_def)

lemma keeps_fetch: "keeps {ModuleMutex} (lk_fetch ft)"
  by (cases ft) (simp_all add: keeps_held)

lemma keeps_txPass: "keeps {ModuleMutex} (lk_txPass ps)"
proof -
  have wait: "keeps {ModuleMutex} lk_wait" by (simp add: keeps_def in_order_wait)
  have gap: "keeps {ModuleMutex} ([Unlock ModuleMutex] @ lk_getSizeOfQueue p pr @ [Lock ModuleMutex])" for p pr
    using keeps_free(9) [of p pr] by (auto simp: keeps_def)
  show ?thesis
  proof (cases ps)
    case (Sent ft p pr)
    with keeps_append [OF keeps_held(4) keeps_append [OF keeps_fetch gap]] show ?thesis by simp
  qed (auto intro!: keeps_held keeps_fetch wait)
qed

lemma keeps_programs:
  "keeps {} (lk_enqueuePacket p None)" "keeps {} (lk_enqueuePacket p (Some IntoEmpty))" "keeps {} (lk_txRoutine passes)"
  "keeps {} (lk_reset ports)" "keeps {} (lk_handleReceivedPacket Refused)"
  "keeps {} (lk_handleReceivedPacket Synchronized)" "keeps {} (lk_handleReceivedPacket PortClosed)"
  "keeps {} (lk_handleReceivedPacket (Stored p IntoEmpty fl))" "keeps {} (lk_getNextCompleteMessage ModuleInactive)"
  "keeps {} (lk_getNextCompleteMessage NothingAvailable)" "keeps {} (lk_getNextCompleteMessage (Consumed p mores))"
  unfolding lk_module_defs
  by (auto intro!: keeps_free keeps_held keeps_txPass keeps_isComplete [unfolded lk_isComplete_def]
      keeps_flushQueues [unfolded lk_flushQueues_def] split: option.splits)

interpretation module_locks: lock_order module_rank ordered_programs
proof
  fix prog
  assume "prog \<in> ordered_programs"
  then have "keeps {} prog" unfolding ordered_programs_def by (auto intro: keeps_programs keeps_free)
  then show "in_order module_rank {} prog" by (metis append_Nil2 in_order.simps(1) keeps_def)
qed

section \<open>Properties\<close>



lemma crossed_deadlocked:
  assumes "ow ModuleMutex = Some 1" "ow BufferMutex = Some 0"
  shows "deadlocked ([Lock ModuleMutex # a, Lock BufferMutex # b], ow)"
  using assms by (auto simp: deadlocked_def less_Suc_eq elim!: lock_stepE)

lemma run_to_crossed:
  assumes "\<exists>a b ow. lock_run is s = Some ([Lock ModuleMutex # a, Lock BufferMutex # b], ow) \<and>
    ow ModuleMutex = Some 1 \<and> ow BufferMutex = Some 0"
  shows "\<exists>s'. lock_step\<^sup>*\<^sup>* s s' \<and> deadlocked s'"
  using assms lock_run_steps crossed_deadlocked by blast

lemma sender_crosses_transmission:
  "\<exists>s. lock_step\<^sup>*\<^sup>* ([lk_enqueuePacket p (Some (Behind j)), lk_txRoutine (Sent (NextAvailable visits) q pr # passes)],
     \<lambda>_. None) s \<and> deadlocked s"
  by (rule run_to_crossed [of "replicate 10 0 @ [1]"]) (simp_all add: lk_defs numeral_eq_Suc)

lemma receiver_crosses_consumer:
  assumes "ins \<noteq> IntoEmpty"
  shows "\<exists>s. lock_step\<^sup>*\<^sup>* ([lk_handleReceivedPacket (Stored p ins fl), lk_getNextCompleteMessage (Consumed q (m # mores))],
     \<lambda>_. None) s \<and> deadlocked s"
  by (rule run_to_crossed [of "replicate 11 0 @ replicate 5 1"]) (simp_all add: lk_defs numeral_eq_Suc assms)

text \<open>C32. An insertion into a non-empty queue takes the mutexes the other way round, since the comparison of
  packets and, in the reception module, the check of the window take the mutex of the module under that of
  the buffer. An application that sends and the transmission thread can therefore block each other for
  good, and so can the reception of a packet, also one that clears its queue, and the consumer.
\<close>

theorem insertion_can_deadlock:
  assumes "ins \<noteq> IntoEmpty"
  shows "(\<exists>s. lock_step\<^sup>*\<^sup>* ([lk_enqueuePacket p (Some (Behind j)), lk_txRoutine [Sent (NextAvailable visits) p pr]],
       \<lambda>_. None) s \<and> deadlocked s) \<and>
    (\<exists>s. lock_step\<^sup>*\<^sup>* ([lk_handleReceivedPacket (Stored p ins fl), lk_getNextCompleteMessage (Consumed p (m # mores))],
       \<lambda>_. None) s \<and> deadlocked s)"
  using sender_crosses_transmission receiver_crosses_consumer [OF assms] by blast

theorem insertion_can_deadlock_witness:
  "\<exists>s. lock_step\<^sup>*\<^sup>* ([lk_handleReceivedPacket (Stored 5 Clearing None), lk_getNextCompleteMessage (Consumed 5 [False])],
     \<lambda>_. None) s \<and> deadlocked s"
  using insertion_can_deadlock [of Clearing] by simp

text \<open>The exit of the consumer for an inconsistent sequence keeps the mutex: the next call of the module blocks.\<close>

theorem inconsistent_exit_blocks_module:
  "\<exists>s. lock_step\<^sup>*\<^sup>* ([lk_getNextCompleteMessage (Inconsistent p [False]), lk_handleReceivedPacket rc], \<lambda>_. None) s \<and>
     fst s ! 0 = [] \<and> deadlocked s"
proof -
  have "\<exists>a ow. lock_run (replicate 19 0) ([lk_getNextCompleteMessage (Inconsistent p [False]), lk_handleReceivedPacket rc], \<lambda>_. None) =
      Some ([[], Lock ModuleMutex # a], ow) \<and> ow ModuleMutex = Some 0"
    by (simp add: lk_defs numeral_eq_Suc)
  moreover have "deadlocked ([[], Lock ModuleMutex # a], ow)" if "ow ModuleMutex = Some 0" for a ow
    using that by (auto simp: deadlocked_def less_Suc_eq elim!: lock_stepE)
  ultimately show ?thesis using lock_run_steps by fastforce
qed

end
