(* ===== verification/Thread_Machine.thy ===== *)
theory Thread_Machine
  imports S3TP_Prelude
begin

text \<open>
  Threads with mutexes and condition variables. A routine of the source is a list of instructions, one
  for every operation another thread can come in between; threads interleave instruction by
  instruction. Waiting releases the mutex and falls asleep in one step; a sleeping thread goes on only
  after a signal, or without one (a spurious wake-up), and takes the mutex back first. A signal wakes
  one of the sleeping threads and is lost when there is none.

  The locale \<open>monitor\<close> is the discipline under which a signal is never missed; the theories of the
  threads interpret it on the routines of the source.
\<close>

section \<open>Instructions and states\<close>

datatype ('m, 'c, 's) instr =
    LOCK 'm
  | UNLOCK 'm
  | WAIT 'c 'm
  | SIGNAL 'c
  | JOIN nat
  | DO "nat \<Rightarrow> 's \<Rightarrow> 's result"
  | GOIF "nat \<Rightarrow> 's \<Rightarrow> bool" nat

abbreviation GOTO :: "nat \<Rightarrow> ('m, 'c, 's) instr" where
  "GOTO \<equiv> GOIF (\<lambda>_ _. True)"

datatype ('m, 'c) mode = Running | Sleeping 'c 'm | Woken 'm

text \<open>
  The shared state, the thread that holds each mutex, and for every thread its position and mode. What
  a thread does is given by its role; roles do not change. Local variables are part of the shared state,
  an action is told the number of its thread.
\<close>

record ('m, 'c, 's) machine =
  shared :: 's
  owner :: "'m \<Rightarrow> nat option"
  pc :: "nat \<Rightarrow> nat"
  mode :: "nat \<Rightarrow> ('m, 'c) mode"

definition initial :: "'s \<Rightarrow> ('m, 'c, 's) machine" where
  "initial x = \<lparr>shared = x, owner = (\<lambda>_. None), pc = (\<lambda>_. 0), mode = (\<lambda>_. Running)\<rparr>"

definition jump :: "nat \<Rightarrow> nat \<Rightarrow> ('m, 'c, 's) machine \<Rightarrow> ('m, 'c, 's) machine" where
  "jump i k s = s\<lparr>pc := (pc s)(i := k)\<rparr>"

definition next_instr :: "('m, 'c, 's) instr list list \<Rightarrow> ('m, 'c, 's) machine \<Rightarrow> nat \<Rightarrow> ('m, 'c, 's) instr option" where
  "next_instr ps s i =
     (if i < length ps \<and> mode s i = Running \<and> pc s i < length (ps ! i) then Some (ps ! i ! pc s i) else None)"

definition halted :: "('m, 'c, 's) instr list list \<Rightarrow> ('m, 'c, 's) machine \<Rightarrow> nat \<Rightarrow> bool" where
  "halted ps s i \<longleftrightarrow> mode s i = Running \<and> length (ps ! i) \<le> pc s i"

section \<open>Steps\<close>

inductive thread_step :: "('m, 'c, 's) instr list list \<Rightarrow> ('m, 'c, 's) machine \<Rightarrow> ('m, 'c, 's) machine \<Rightarrow> bool"
  for ps :: "('m, 'c, 's) instr list list" where
  lock: "next_instr ps s i = Some (LOCK m) \<Longrightarrow> owner s m = None \<Longrightarrow>
    thread_step ps s (jump i (Suc (pc s i)) s\<lparr>owner := (owner s)(m := Some i)\<rparr>)"
| unlock: "next_instr ps s i = Some (UNLOCK m) \<Longrightarrow> owner s m = Some i \<Longrightarrow>
    thread_step ps s (jump i (Suc (pc s i)) s\<lparr>owner := (owner s)(m := None)\<rparr>)"
| wait: "next_instr ps s i = Some (WAIT c m) \<Longrightarrow> owner s m = Some i \<Longrightarrow>
    thread_step ps s (jump i (Suc (pc s i)) s\<lparr>owner := (owner s)(m := None), mode := (mode s)(i := Sleeping c m)\<rparr>)"
| signal: "next_instr ps s i = Some (SIGNAL c) \<Longrightarrow> j < length ps \<Longrightarrow> mode s j = Sleeping c m \<Longrightarrow>
    thread_step ps s (jump i (Suc (pc s i)) s\<lparr>mode := (mode s)(j := Woken m)\<rparr>)"
| signal_lost: "next_instr ps s i = Some (SIGNAL c) \<Longrightarrow> (\<And>j m. j < length ps \<Longrightarrow> mode s j \<noteq> Sleeping c m) \<Longrightarrow>
    thread_step ps s (jump i (Suc (pc s i)) s)"
| join: "next_instr ps s i = Some (JOIN j) \<Longrightarrow> halted ps s j \<Longrightarrow> thread_step ps s (jump i (Suc (pc s i)) s)"
| act: "next_instr ps s i = Some (DO f) \<Longrightarrow> f i (shared s) = Inr x \<Longrightarrow>
    thread_step ps s (jump i (Suc (pc s i)) s\<lparr>shared := x\<rparr>)"
| taken: "next_instr ps s i = Some (GOIF b k) \<Longrightarrow> b i (shared s) \<Longrightarrow> thread_step ps s (jump i k s)"
| not_taken: "next_instr ps s i = Some (GOIF b k) \<Longrightarrow> \<not> b i (shared s) \<Longrightarrow> thread_step ps s (jump i (Suc (pc s i)) s)"
| retake: "i < length ps \<Longrightarrow> mode s i = Woken m \<Longrightarrow> owner s m = None \<Longrightarrow>
    thread_step ps s (s\<lparr>owner := (owner s)(m := Some i), mode := (mode s)(i := Running)\<rparr>)"

inductive spurious :: "('m, 'c, 's) instr list list \<Rightarrow> ('m, 'c, 's) machine \<Rightarrow> ('m, 'c, 's) machine \<Rightarrow> bool"
  for ps :: "('m, 'c, 's) instr list list" where
  "i < length ps \<Longrightarrow> mode s i = Sleeping c m \<Longrightarrow> spurious ps s (s\<lparr>mode := (mode s)(i := Woken m)\<rparr>)"

definition machine_step :: "('m, 'c, 's) instr list list \<Rightarrow> ('m, 'c, 's) machine \<Rightarrow> ('m, 'c, 's) machine \<Rightarrow> bool" where
  "machine_step ps s s' \<longleftrightarrow> thread_step ps s s' \<or> spurious ps s s'"

text \<open>Nothing happens any more unless a thread wakes up by itself.\<close>

definition stuck :: "('m, 'c, 's) instr list list \<Rightarrow> ('m, 'c, 's) machine \<Rightarrow> bool" where
  "stuck ps s \<longleftrightarrow> (\<forall>s'. \<not> thread_step ps s s')"

text \<open>A thread that cannot take its next step.\<close>

definition blocked :: "('m, 'c, 's) instr list list \<Rightarrow> ('m, 'c, 's) machine \<Rightarrow> nat \<Rightarrow> bool" where
  "blocked ps s i \<longleftrightarrow> (case mode s i of
       Sleeping c m \<Rightarrow> True
     | Woken m \<Rightarrow> owner s m \<noteq> None
     | Running \<Rightarrow> (case next_instr ps s i of
         None \<Rightarrow> True
       | Some (LOCK m) \<Rightarrow> owner s m \<noteq> None
       | Some (JOIN j) \<Rightarrow> \<not> halted ps s j
       | _ \<Rightarrow> False))"

lemma blocked_stuck:
  assumes "\<And>i. i < length ps \<Longrightarrow> blocked ps s i"
  shows "stuck ps s"
proof -
  have "blocked ps s i" if "next_instr ps s i = Some a" for i a
    using assms that by (auto simp: next_instr_def split: if_splits)
  moreover have "mode s i = Running" if "next_instr ps s i = Some a" for i a
    using that by (auto simp: next_instr_def split: if_splits)
  ultimately show ?thesis using assms
    by (fastforce simp: stuck_def blocked_def elim!: thread_step.cases)
qed

lemma stuckI:
  "(\<And>i. i < length ps \<Longrightarrow> halted ps s i \<or> (\<exists>c m. mode s i = Sleeping c m)) \<Longrightarrow> stuck ps s"
  by (rule blocked_stuck) (fastforce simp: blocked_def halted_def next_instr_def)

section \<open>Schedules\<close>

text \<open>
  A schedule names the thread that takes each step, and for a signal the thread it wakes. Running a
  schedule is executable; it yields a state the step relation reaches.
\<close>

datatype event = Run nat | Wake nat nat

fun thread_exec :: "('m, 'c, 's) instr list list \<Rightarrow> event \<Rightarrow> ('m, 'c, 's) machine \<Rightarrow> ('m, 'c, 's) machine option" where
  "thread_exec ps (Wake i j) s =
     (case (next_instr ps s i, mode s j) of
        (Some (SIGNAL c), Sleeping c' m) \<Rightarrow>
          if j < length ps \<and> c' = c then Some (jump i (Suc (pc s i)) s\<lparr>mode := (mode s)(j := Woken m)\<rparr>) else None
      | _ \<Rightarrow> None)"
| "thread_exec ps (Run i) s =
     (case next_instr ps s i of
        None \<Rightarrow> (case mode s i of
            Woken m \<Rightarrow> if i < length ps \<and> owner s m = None
              then Some (s\<lparr>owner := (owner s)(m := Some i), mode := (mode s)(i := Running)\<rparr>) else None
          | _ \<Rightarrow> None)
      | Some (LOCK m) \<Rightarrow> if owner s m = None then Some (jump i (Suc (pc s i)) s\<lparr>owner := (owner s)(m := Some i)\<rparr>) else None
      | Some (UNLOCK m) \<Rightarrow> if owner s m = Some i then Some (jump i (Suc (pc s i)) s\<lparr>owner := (owner s)(m := None)\<rparr>) else None
      | Some (WAIT c m) \<Rightarrow> if owner s m = Some i
          then Some (jump i (Suc (pc s i)) s\<lparr>owner := (owner s)(m := None), mode := (mode s)(i := Sleeping c m)\<rparr>) else None
      | Some (SIGNAL c) \<Rightarrow> if list_all (\<lambda>j. case mode s j of Sleeping c' m \<Rightarrow> c' \<noteq> c | _ \<Rightarrow> True) [0..<length ps]
          then Some (jump i (Suc (pc s i)) s) else None
      | Some (JOIN j) \<Rightarrow> if halted ps s j then Some (jump i (Suc (pc s i)) s) else None
      | Some (DO f) \<Rightarrow> (case f i (shared s) of Inr x \<Rightarrow> Some (jump i (Suc (pc s i)) s\<lparr>shared := x\<rparr>) | Inl e \<Rightarrow> None)
      | Some (GOIF b k) \<Rightarrow> Some (jump i (if b i (shared s) then k else Suc (pc s i)) s))"

primrec thread_run :: "('m, 'c, 's) instr list list \<Rightarrow> event list \<Rightarrow> ('m, 'c, 's) machine \<Rightarrow> ('m, 'c, 's) machine option" where
  "thread_run ps [] s = Some s"
| "thread_run ps (e # es) s = Option.bind (thread_exec ps e s) (thread_run ps es)"

declare thread_exec.simps [simp del]

lemma thread_exec_step: "thread_exec ps e s = Some s' \<Longrightarrow> thread_step ps s s'"
proof (cases e)
  case (Run i)
  assume ex: "thread_exec ps e s = Some s'"
  show ?thesis
  proof (cases "next_instr ps s i")
    case None
    with ex Run show ?thesis by (auto simp: thread_exec.simps split: mode.splits if_splits intro: thread_step.retake)
  next
    case (Some a)
    with ex Run show ?thesis
    proof (cases a)
      case (SIGNAL c)
      have "mode s j \<noteq> Sleeping c m" if "j < length ps" for j m
        using ex Run Some SIGNAL that by (fastforce split: if_splits mode.splits simp: list_all_iff thread_exec.simps)
      with ex Run Some SIGNAL show ?thesis
        by (auto simp: thread_exec.simps split: if_splits intro: thread_step.signal_lost)
    qed (auto simp: thread_exec.simps split: if_splits sum.splits intro: thread_step.intros)
  qed
next
  case (Wake i j)
  assume "thread_exec ps e s = Some s'"
  with Wake show ?thesis
    by (auto simp: thread_exec.simps split: option.splits instr.splits mode.splits if_splits intro: thread_step.signal)
qed

lemma thread_run_steps: "thread_run ps es s = Some s' \<Longrightarrow> (machine_step ps)\<^sup>*\<^sup>* s s'"
proof (induction es arbitrary: s)
  case (Cons e es)
  from Cons.prems obtain s1 where "thread_exec ps e s = Some s1" "thread_run ps es s1 = Some s'"
    by (auto simp: bind_eq_Some_conv)
  with Cons.IH show ?case
    by (metis converse_rtranclp_into_rtranclp machine_step_def thread_exec_step)
qed simp

lemma thread_run_append: "thread_run ps (es @ fs) s = Option.bind (thread_run ps es s) (thread_run ps fs)"
  by (induction es arbitrary: s) (auto split: bind_split)

text \<open>A thread that runs on alone.\<close>

definition alone :: "('m, 'c, 's) instr list list \<Rightarrow> nat \<Rightarrow> ('m, 'c, 's) machine \<Rightarrow> ('m, 'c, 's) machine \<Rightarrow> bool" where
  "alone ps i = (\<lambda>s s'. thread_exec ps (Run i) s = Some s')\<^sup>*\<^sup>*"

lemma replicate_numeral: "replicate (numeral k) x = x # replicate (pred_numeral k) x"
  by (simp add: numeral_eq_Suc)

lemma alone_run:
  assumes "case thread_run ps (replicate n (Run i)) s of None \<Rightarrow> False | Some s' \<Rightarrow> Q s'"
  shows "\<exists>s'. alone ps i s s' \<and> Q s'"
proof -
  from assms obtain s' where s': "thread_run ps (replicate n (Run i)) s = Some s'" "Q s'" by (auto split: option.splits)
  have "alone ps i s s'" using s'(1)
  proof (induction n arbitrary: s)
    case (Suc n)
    then show ?case unfolding alone_def
      by (auto simp: bind_eq_Some_conv intro: converse_rtranclp_into_rtranclp)
  qed (simp add: alone_def)
  with s'(2) show ?thesis by blast
qed

lemma alone_steps: "alone ps i s s' \<Longrightarrow> (machine_step ps)\<^sup>*\<^sup>* s s'"
  unfolding alone_def
  by (induction rule: rtranclp_induct)
     (auto intro: rtranclp.rtrancl_into_rtrancl simp: machine_step_def dest: thread_exec_step)

section \<open>Signals that are never missed\<close>

text \<open>
  One thread, the waiter, goes to sleep on the condition \<open>c0\<close> with the mutex \<open>m0\<close> only after it has
  seen \<open>B\<close>, that there is no reason to go on. The other threads may make \<open>B\<close> false, but only
  with the mutex and with a signal before they release it. The annotations say at which positions a role
  holds the mutex (\<open>hold\<close>), still owes a signal (\<open>pend\<close>), and, for the waiter, at which it knows \<open>B\<close>
  (\<open>safe\<close>) and behind which waits the law is claimed (\<open>watch\<close>).
\<close>

fun keeps_discipline :: "('r \<Rightarrow> bool) \<Rightarrow> 'm \<Rightarrow> 'c \<Rightarrow> ('s \<Rightarrow> bool) \<Rightarrow> ('r \<Rightarrow> nat \<Rightarrow> bool) \<Rightarrow> ('r \<Rightarrow> nat \<Rightarrow> bool) \<Rightarrow>
    ('r \<Rightarrow> nat \<Rightarrow> bool) \<Rightarrow> ('r \<Rightarrow> nat \<Rightarrow> bool) \<Rightarrow> 'r \<Rightarrow> nat \<Rightarrow> ('m, 'c, 's) instr \<Rightarrow> bool" where
  "keeps_discipline waiter m0 c0 B hold pend safe watch r k (LOCK m) \<longleftrightarrow>
     (if m = m0 then \<not> hold r k \<and> hold r (Suc k) \<and> \<not> safe r (Suc k) else hold r (Suc k) = hold r k) \<and>
     (pend r k \<longrightarrow> pend r (Suc k)) \<and> (safe r (Suc k) \<longrightarrow> safe r k)"
| "keeps_discipline waiter m0 c0 B hold pend safe watch r k (UNLOCK m) \<longleftrightarrow>
     (if m = m0 then hold r k \<and> \<not> hold r (Suc k) \<and> \<not> pend r k else hold r (Suc k) = hold r k) \<and>
     (pend r k \<longrightarrow> pend r (Suc k)) \<and> (safe r (Suc k) \<longrightarrow> safe r k)"
| "keeps_discipline waiter m0 c0 B hold pend safe watch r k (WAIT c m) \<longleftrightarrow>
     c = c0 \<and> m = m0 \<and> waiter r \<and> hold r k \<and> hold r (Suc k) \<and> \<not> safe r (Suc k) \<and> \<not> pend r k \<and>
     (watch r (Suc k) \<longrightarrow> safe r k)"
| "keeps_discipline waiter m0 c0 B hold pend safe watch r k (SIGNAL c) \<longleftrightarrow>
     hold r (Suc k) = hold r k \<and> (pend r k \<and> c \<noteq> c0 \<longrightarrow> pend r (Suc k)) \<and> (safe r (Suc k) \<longrightarrow> safe r k)"
| "keeps_discipline waiter m0 c0 B hold pend safe watch r k (JOIN j) \<longleftrightarrow>
     hold r (Suc k) = hold r k \<and> (pend r k \<longrightarrow> pend r (Suc k)) \<and> (safe r (Suc k) \<longrightarrow> safe r k)"
| "keeps_discipline waiter m0 c0 B hold pend safe watch r k (DO f) \<longleftrightarrow>
     hold r (Suc k) = hold r k \<and> (pend r k \<longrightarrow> pend r (Suc k)) \<and>
     (safe r (Suc k) \<longrightarrow> (\<forall>i x y. f i x = Inr y \<longrightarrow> (safe r k \<longrightarrow> B x) \<longrightarrow> B y)) \<and>
     (\<not> waiter r \<longrightarrow> (\<forall>i x y. f i x = Inr y \<longrightarrow> B x \<longrightarrow> \<not> B y \<longrightarrow> pend r (Suc k)))"
| "keeps_discipline waiter m0 c0 B hold pend safe watch r k (GOIF b t) \<longleftrightarrow>
     (\<forall>i x. let k' = (if b i x then t else Suc k)
        in hold r k' = hold r k \<and> (pend r k \<longrightarrow> pend r k') \<and> (safe r k' \<longrightarrow> (safe r k \<longrightarrow> B x) \<longrightarrow> B x))"

primrec disciplined :: "(nat \<Rightarrow> ('m, 'c, 's) instr \<Rightarrow> bool) \<Rightarrow> nat \<Rightarrow> ('m, 'c, 's) instr list \<Rightarrow> bool" where
  "disciplined D k [] \<longleftrightarrow> True"
| "disciplined D k (a # as) \<longleftrightarrow> D k a \<and> disciplined D (Suc k) as"

lemma disciplined_nth: "disciplined D k as \<Longrightarrow> j < length as \<Longrightarrow> D (k + j) (as ! j)"
proof (induction as arbitrary: k j)
  case (Cons a as)
  then show ?case using Cons.IH [of "Suc k" "j - 1"] by (cases j) auto
qed simp

locale monitor =
  fixes code :: "'r \<Rightarrow> ('m, 'c, 's) instr list"
    and waiter :: "'r \<Rightarrow> bool"
    and m0 :: 'm and c0 :: 'c
    and B :: "'s \<Rightarrow> bool"
    and hold pend safe watch :: "'r \<Rightarrow> nat \<Rightarrow> bool"
  assumes entry: "\<not> hold r 0"
    and pend_hold: "pend r k \<Longrightarrow> hold r k"
    and safe_hold: "safe r k \<Longrightarrow> waiter r \<and> hold r k \<and> \<not> pend r k"
    and discipline: "disciplined (keeps_discipline waiter m0 c0 B hold pend safe watch r) 0 (code r)"
begin

definition owes :: "'r list \<Rightarrow> ('m, 'c, 's) machine \<Rightarrow> nat \<Rightarrow> bool" where
  "owes rs s j \<longleftrightarrow> j < length rs \<and> mode s j = Running \<and> pend (rs ! j) (pc s j)"

definition attentive :: "'r list \<Rightarrow> ('m, 'c, 's) machine \<Rightarrow> nat \<Rightarrow> bool" where
  "attentive rs s w \<longleftrightarrow> w < length rs \<and> waiter (rs ! w) \<and>
     (if mode s w = Running then safe (rs ! w) (pc s w) else (\<exists>c m. mode s w = Sleeping c m) \<and> watch (rs ! w) (pc s w))"

definition holds :: "'r list \<Rightarrow> ('m, 'c, 's) machine \<Rightarrow> nat \<Rightarrow> bool" where
  "holds rs s i \<longleftrightarrow> mode s i = Running \<and> hold (rs ! i) (pc s i)"

definition asleep_ok :: "'r list \<Rightarrow> ('m, 'c, 's) machine \<Rightarrow> nat \<Rightarrow> bool" where
  "asleep_ok rs s i \<longleftrightarrow> (\<forall>c m. mode s i = Sleeping c m \<longrightarrow> c = c0 \<and> m = m0) \<and> (\<forall>m. mode s i = Woken m \<longrightarrow> m = m0) \<and>
     (mode s i \<noteq> Running \<longrightarrow> waiter (rs ! i) \<and> hold (rs ! i) (pc s i) \<and> \<not> safe (rs ! i) (pc s i))"

definition mutex_inv :: "'r list \<Rightarrow> ('m, 'c, 's) machine \<Rightarrow> bool" where
  "mutex_inv rs s \<longleftrightarrow> (\<forall>i < length rs. (owner s m0 = Some i \<longleftrightarrow> holds rs s i) \<and> asleep_ok rs s i)"

lemma mutual_exclusion: "mutex_inv rs s \<Longrightarrow> i < length rs \<Longrightarrow> j < length rs \<Longrightarrow> holds rs s i \<Longrightarrow> holds rs s j \<Longrightarrow> i = j"
  by (metis mutex_inv_def option.inject)

definition signal_inv :: "'r list \<Rightarrow> ('m, 'c, 's) machine \<Rightarrow> bool" where
  "signal_inv rs s \<longleftrightarrow> (\<forall>w. attentive rs s w \<longrightarrow> B (shared s) \<or> (\<exists>j. owes rs s j))"

lemma next_instrD:
  "next_instr (map code rs) s i = Some a \<Longrightarrow>
    i < length rs \<and> mode s i = Running \<and> pc s i < length (code (rs ! i)) \<and> a = code (rs ! i) ! pc s i"
  by (auto simp: next_instr_def split: if_splits)

lemma next_instr_discipline:
  "next_instr (map code rs) s i = Some a \<Longrightarrow>
    i < length rs \<and> mode s i = Running \<and> keeps_discipline waiter m0 c0 B hold pend safe watch (rs ! i) (pc s i) a"
  using disciplined_nth [OF discipline] next_instrD by fastforce

lemma goif_law:
  assumes "next_instr (map code rs) s i = Some (GOIF b t)" "k = (if b i (shared s) then t else Suc (pc s i))"
  shows "i < length rs" "mode s i = Running" "hold (rs ! i) k = hold (rs ! i) (pc s i)"
    "pend (rs ! i) (pc s i) \<Longrightarrow> pend (rs ! i) k"
    "safe (rs ! i) k \<Longrightarrow> (safe (rs ! i) (pc s i) \<Longrightarrow> B (shared s)) \<Longrightarrow> B (shared s)"
  using next_instr_discipline [OF assms(1)] assms(2) by (auto simp: Let_def split: if_splits)

lemma mutex_inv_initial: "mutex_inv rs (initial x)"
  using entry by (simp add: mutex_inv_def holds_def asleep_ok_def initial_def)

lemma mutex_inv_step:
  assumes st: "thread_step (map code rs) s s'" and inv: "mutex_inv rs s"
  shows "mutex_inv rs s'"
proof -
  have own: "owner s m0 = Some j \<longleftrightarrow> holds rs s j" and ok: "asleep_ok rs s j" if "j < length rs" for j
    using inv that by (simp_all add: mutex_inv_def)
  have "(owner s' m0 = Some j \<longleftrightarrow> holds rs s' j) \<and> asleep_ok rs s' j" if j: "j < length rs" for j
    using st
  proof (cases rule: thread_step.cases)
    case (lock i m)
    with next_instr_discipline [OF lock(2)] own [OF j] own [of i] ok [OF j] j show ?thesis
      by (cases "m = m0"; cases "j = i") (auto simp: holds_def asleep_ok_def jump_def)
  next
    case (unlock i m)
    with next_instr_discipline [OF unlock(2)] own [OF j] own [of i] ok [OF j] j show ?thesis
      by (cases "m = m0"; cases "j = i") (auto simp: holds_def asleep_ok_def jump_def)
  next
    case (wait i c m)
    with next_instr_discipline [OF wait(2)] own [OF j] own [of i] ok [OF j] j show ?thesis
      by (cases "j = i") (auto simp: holds_def asleep_ok_def jump_def)
  next
    case (signal i c k m)
    with next_instr_discipline [OF signal(2)] own [OF j] own [of i] ok [OF j] j show ?thesis
      by (cases "j = i"; cases "j = k") (auto simp: holds_def asleep_ok_def jump_def)
  next
    case (retake i m)
    with own [OF j] own [of i] ok [OF j] ok [of i] j show ?thesis
      by (cases "j = i") (auto simp: holds_def asleep_ok_def)
  next
    case (signal_lost i c)
    with next_instr_discipline [OF signal_lost(2)] own [OF j] ok [OF j] show ?thesis
      by (auto simp: holds_def asleep_ok_def jump_def)
  next
    case (join i k)
    with next_instr_discipline [OF join(2)] own [OF j] ok [OF j] show ?thesis
      by (auto simp: holds_def asleep_ok_def jump_def)
  next
    case (act i f x)
    with next_instr_discipline [OF act(2)] own [OF j] ok [OF j] show ?thesis
      by (auto simp: holds_def asleep_ok_def jump_def)
  next
    case (taken i b k)
    with goif_law [OF taken(2) refl] own [OF j] ok [OF j] show ?thesis
      by (auto simp: holds_def asleep_ok_def jump_def)
  next
    case (not_taken i b k)
    with goif_law [OF not_taken(2) refl] own [OF j] ok [OF j] show ?thesis
      by (auto simp: holds_def asleep_ok_def jump_def)
  qed
  then show ?thesis by (simp add: mutex_inv_def)
qed

lemma mutex_inv_spurious:
  assumes "spurious (map code rs) s s'" "mutex_inv rs s"
  shows "mutex_inv rs s'"
  using assms(1)
proof cases
  case (1 i c m)
  have "(owner s' m0 = Some j \<longleftrightarrow> holds rs s' j) \<and> asleep_ok rs s' j" if "j < length rs" for j
  proof -
    have "owner s m0 = Some j \<longleftrightarrow> holds rs s j" "asleep_ok rs s j" "asleep_ok rs s i"
      using assms(2) that 1 by (simp_all add: mutex_inv_def)
    with 1 show ?thesis by (cases "j = i") (auto simp: holds_def asleep_ok_def)
  qed
  then show ?thesis by (simp add: mutex_inv_def)
qed

definition one_waiter :: "'r list \<Rightarrow> bool" where
  "one_waiter rs \<longleftrightarrow> (\<forall>i < length rs. \<forall>j < length rs. waiter (rs ! i) \<longrightarrow> waiter (rs ! j) \<longrightarrow> i = j)"

lemma one_waiter_Cons: "(\<And>r'. r' \<in> set rs \<Longrightarrow> \<not> waiter r') \<Longrightarrow> one_waiter (r # rs)"
  by (fastforce simp: one_waiter_def nth_Cons split: nat.splits)

lemma signal_inv_initial: "signal_inv rs (initial x)"
  using entry safe_hold by (auto simp: signal_inv_def attentive_def initial_def)

text \<open>Only a holder of the mutex owes a signal, so the waiter, where it knows \<open>B\<close>, is right.\<close>

lemma safe_knows:
  assumes "mutex_inv rs s" "signal_inv rs s" "w < length rs" "mode s w = Running" "safe (rs ! w) (pc s w)"
  shows "B (shared s)"
proof -
  have "attentive rs s w" using assms(3-5) safe_hold by (simp add: attentive_def)
  moreover have "\<not> owes rs s j" for j
    using mutual_exclusion [OF assms(1), of j w] assms(3-5) safe_hold [OF assms(5)] pend_hold
    by (auto simp: owes_def holds_def)
  ultimately show ?thesis using assms(2) by (auto simp: signal_inv_def)
qed

text \<open>A thread moves on; nobody falls asleep or wakes up.\<close>

lemma signal_inv_move:
  assumes inv: "mutex_inv rs s" "signal_inv rs s" and one: "one_waiter rs"
    and i: "i < length rs" "mode s i = Running"
    and s': "pc s' = (pc s)(i := k)" "mode s' = mode s"
    and owed: "pend (rs ! i) (pc s i) \<Longrightarrow> pend (rs ! i) k"
    and own: "safe (rs ! i) k \<Longrightarrow> (safe (rs ! i) (pc s i) \<Longrightarrow> B (shared s)) \<Longrightarrow> B (shared s')"
    and others: "\<not> waiter (rs ! i) \<Longrightarrow> B (shared s) \<Longrightarrow> B (shared s') \<or> pend (rs ! i) k"
  shows "signal_inv rs s'"
  unfolding signal_inv_def
proof (intro allI impI)
  fix w
  assume w: "attentive rs s' w"
  show "B (shared s') \<or> (\<exists>j. owes rs s' j)"
  proof (cases "w = i")
    case True
    with w i s' have "safe (rs ! i) k" by (simp add: attentive_def)
    then show ?thesis using own safe_knows [OF inv i] by blast
  next
    case False
    then have "attentive rs s w" "\<not> waiter (rs ! i)" using w s' one i by (auto simp: attentive_def one_waiter_def)
    then consider "B (shared s)" | j where "owes rs s j" using inv(2) by (auto simp: signal_inv_def)
    then show ?thesis
    proof cases
      case 1
      with others \<open>\<not> waiter (rs ! i)\<close> i s' show ?thesis by (auto simp: owes_def)
    next
      case (2 j)
      with owed s' have "owes rs s' j" by (auto simp: owes_def)
      then show ?thesis by blast
    qed
  qed
qed

text \<open>The waiter itself falls asleep or wakes up.\<close>

lemma signal_inv_waiter:
  assumes one: "one_waiter rs" and i: "i < length rs" "waiter (rs ! i)"
    and ok: "attentive rs s' i \<Longrightarrow> B (shared s')"
  shows "signal_inv rs s'"
proof -
  have "w = i" if "attentive rs s' w" for w using that one i by (auto simp: attentive_def one_waiter_def)
  with ok show ?thesis by (auto simp: signal_inv_def)
qed

lemma asleep_okD:
  assumes "mutex_inv rs s" "i < length rs" "mode s i = Sleeping c m \<or> mode s i = Woken m"
  shows "waiter (rs ! i)" "\<not> safe (rs ! i) (pc s i)" "m = m0" "mode s i = Sleeping c m \<Longrightarrow> c = c0"
  using assms by (auto simp: mutex_inv_def asleep_ok_def)

lemma signal_inv_step:
  assumes st: "thread_step (map code rs) s s'" and inv: "mutex_inv rs s" "signal_inv rs s" and one: "one_waiter rs"
  shows "signal_inv rs s'"
  using st
proof (cases rule: thread_step.cases)
  case (lock i m)
  note d = next_instr_discipline [OF lock(2)]
  show ?thesis by (rule signal_inv_move [OF inv one, of i _ "Suc (pc s i)"]) (use d lock in \<open>auto simp: jump_def\<close>)
next
  case (unlock i m)
  note d = next_instr_discipline [OF unlock(2)]
  show ?thesis by (rule signal_inv_move [OF inv one, of i _ "Suc (pc s i)"]) (use d unlock in \<open>auto simp: jump_def\<close>)
next
  case (wait i c m)
  note d = next_instr_discipline [OF wait(2)]
  show ?thesis
    by (rule signal_inv_waiter [OF one, of i])
       (use d wait safe_knows [OF inv, of i] in \<open>auto simp: jump_def attentive_def\<close>)
next
  case (signal i c j m)
  then have "j < length rs" by simp
  with asleep_okD(1) [OF inv(1) this] signal show ?thesis
    by (intro signal_inv_waiter [OF one, of j]) (auto simp: jump_def attentive_def)
next
  case (signal_lost i c)
  note d = next_instr_discipline [OF signal_lost(2)]
  show ?thesis
  proof (cases "c = c0")
    case False
    show ?thesis by (rule signal_inv_move [OF inv one, of i _ "Suc (pc s i)"]) (use d signal_lost False in \<open>auto simp: jump_def\<close>)
  next
    case True
    have "B (shared s)" if "attentive rs s' w" for w
      using that signal_lost d True asleep_okD(4) [OF inv(1), of w] safe_knows [OF inv, of w]
      by (cases "w = i") (auto simp: attentive_def jump_def split: if_splits)
    then show ?thesis using signal_lost by (auto simp: signal_inv_def jump_def)
  qed
next
  case (join i j)
  note d = next_instr_discipline [OF join(2)]
  show ?thesis by (rule signal_inv_move [OF inv one, of i _ "Suc (pc s i)"]) (use d join in \<open>auto simp: jump_def\<close>)
next
  case (act i f x)
  note d = next_instr_discipline [OF act(2)]
  show ?thesis by (rule signal_inv_move [OF inv one, of i _ "Suc (pc s i)"]) (use d act in \<open>auto simp: jump_def\<close>)
next
  case (taken i b k)
  note d = goif_law [OF taken(2) refl]
  show ?thesis by (rule signal_inv_move [OF inv one, of i _ k]) (use d taken in \<open>auto simp: jump_def\<close>)
next
  case (not_taken i b k)
  note d = goif_law [OF not_taken(2) refl]
  show ?thesis by (rule signal_inv_move [OF inv one, of i _ "Suc (pc s i)"]) (use d not_taken in \<open>auto simp: jump_def\<close>)
next
  case (retake i m)
  with asleep_okD [OF inv(1), of i _ m] show ?thesis
    by (intro signal_inv_waiter [OF one, of i]) (auto simp: attentive_def)
qed

lemma signal_inv_spurious:
  assumes "spurious (map code rs) s s'" "mutex_inv rs s" "one_waiter rs"
  shows "signal_inv rs s'"
  using assms(1)
proof cases
  case (1 i c m)
  with asleep_okD(1) [OF assms(2), of i c m] show ?thesis
    by (intro signal_inv_waiter [OF assms(3), of i]) (auto simp: attentive_def)
qed

lemma reachable_inv:
  assumes "one_waiter rs" "(machine_step (map code rs))\<^sup>*\<^sup>* (initial x) s"
  shows "mutex_inv rs s \<and> signal_inv rs s"
  using assms(2)
proof (induction rule: rtranclp_induct)
  case base
  show ?case by (simp add: mutex_inv_initial signal_inv_initial)
next
  case (step s s')
  with assms(1) show ?case
    unfolding machine_step_def
    by (meson mutex_inv_step mutex_inv_spurious signal_inv_step signal_inv_spurious)
qed

text \<open>The law: whoever sleeps has no reason to go on, or a signal is on its way.\<close>

lemma no_missed_signal:
  assumes "one_waiter rs" "(machine_step (map code rs))\<^sup>*\<^sup>* (initial x) s"
    and "w < length rs" "mode s w = Sleeping c m" "watch (rs ! w) (pc s w)"
  shows "B (shared s) \<or> (\<exists>j. j < length rs \<and> mode s j = Running \<and> pend (rs ! j) (pc s j))"
proof -
  from reachable_inv [OF assms(1,2)] have inv: "mutex_inv rs s" "signal_inv rs s" by simp_all
  have "attentive rs s w" using asleep_okD(1) [OF inv(1) assms(3)] assms(3-5) by (simp add: attentive_def)
  with inv(2) show ?thesis by (auto simp: signal_inv_def owes_def)
qed

lemma exclusive:
  assumes "one_waiter rs" "(machine_step (map code rs))\<^sup>*\<^sup>* (initial x) s" "i < length rs" "j < length rs"
    and "mode s i = Running" "hold (rs ! i) (pc s i)" "mode s j = Running" "hold (rs ! j) (pc s j)"
  shows "i = j"
  using reachable_inv [OF assms(1,2)] mutual_exclusion [of rs s i j] assms(3-) by (simp add: holds_def)

end

section \<open>Annotated routines\<close>

text \<open>
  An assertion for every position of a routine, established by the instruction before it and kept by
  the actions of all routines, holds whenever a thread is at that position.
\<close>

fun establishes :: "(nat \<Rightarrow> 's \<Rightarrow> bool) \<Rightarrow> nat \<Rightarrow> ('m, 'c, 's) instr \<Rightarrow> bool" where
  "establishes A k (DO f) \<longleftrightarrow> (\<forall>i x y. f i x = Inr y \<longrightarrow> A k x \<longrightarrow> A (Suc k) y)"
| "establishes A k (GOIF b t) \<longleftrightarrow> (\<forall>i x. A k x \<longrightarrow> A (if b i x then t else Suc k) x)"
| "establishes A k a \<longleftrightarrow> (\<forall>x. A k x \<longrightarrow> A (Suc k) x)"

fun keeps :: "(nat \<Rightarrow> 's \<Rightarrow> bool) \<Rightarrow> ('s \<Rightarrow> bool) set \<Rightarrow> nat \<Rightarrow> ('m, 'c, 's) instr \<Rightarrow> bool" where
  "keeps A Bs k (DO f) \<longleftrightarrow> (\<forall>B \<in> Bs. \<forall>i x y. f i x = Inr y \<longrightarrow> A k x \<longrightarrow> B x \<longrightarrow> B y)"
| "keeps A Bs k a \<longleftrightarrow> True"

locale annotation =
  fixes code :: "'r \<Rightarrow> ('m, 'c, 's) instr list"
    and A :: "'r \<Rightarrow> nat \<Rightarrow> 's \<Rightarrow> bool"
  assumes local_step: "disciplined (establishes (A r)) 0 (code r)"
    and stable: "disciplined (keeps (A r) {A r' k' |r' k'. True}) 0 (code r)"
begin

definition annotated :: "'r list \<Rightarrow> ('m, 'c, 's) machine \<Rightarrow> bool" where
  "annotated rs s \<longleftrightarrow> (\<forall>j < length rs. A (rs ! j) (pc s j) (shared s))"

lemma local_stepD:
  assumes "next_instr (map code rs) s i = Some a"
  shows "i < length rs" "establishes (A (rs ! i)) (pc s i) a" "keeps (A (rs ! i)) {A r' k' |r' k'. True} (pc s i) a"
proof -
  from assms have i: "i < length rs" "pc s i < length (code (rs ! i))" "a = code (rs ! i) ! pc s i"
    by (auto simp: next_instr_def split: if_splits)
  from disciplined_nth [OF local_step i(2)] disciplined_nth [OF stable i(2)] i
  show "i < length rs" "establishes (A (rs ! i)) (pc s i) a" "keeps (A (rs ! i)) {A r' k' |r' k'. True} (pc s i) a" by simp_all
qed

lemma annotated_step:
  assumes st: "thread_step (map code rs) s s'" and inv: "annotated rs s"
  shows "annotated rs s'"
  using st
proof (cases rule: thread_step.cases)
  case (act i f x)
  note law = local_stepD [OF act(2)]
  have here: "A (rs ! j) (pc s j) (shared s)" if "j < length rs" for j using inv that by (simp add: annotated_def)
  have "A (rs ! j) (pc s' j) (shared s')" if "j < length rs" for j
  proof (cases "j = i")
    case True
    with law(2) act here [OF law(1)] show ?thesis by (simp add: jump_def)
  next
    case False
    have "B (shared s) \<Longrightarrow> B x" if "B \<in> {A r' k' |r' k'. True}" for B
      using law(3) [unfolded keeps.simps, THEN bspec, OF that, rule_format, OF act(3) here [OF law(1)]] .
    then have "A (rs ! j) (pc s j) x" using here [OF that] by blast
    with False act show ?thesis by (simp add: jump_def)
  qed
  then show ?thesis by (simp add: annotated_def)
next
  case (taken i b k)
  then have "A (rs ! i) k (shared s)"
    using local_stepD(1) [OF taken(2)] local_stepD(2) [OF taken(2), simplified, rule_format, of "shared s" i] inv
    by (simp add: annotated_def)
  with taken inv show ?thesis by (auto simp: annotated_def jump_def)
next
  case (not_taken i b k)
  then have "A (rs ! i) (Suc (pc s i)) (shared s)"
    using local_stepD(1) [OF not_taken(2)] local_stepD(2) [OF not_taken(2), simplified, rule_format, of "shared s" i] inv
    by (simp add: annotated_def)
  with not_taken inv show ?thesis by (auto simp: annotated_def jump_def)
next
  case (lock i m)
  with local_stepD [OF lock(2)] inv show ?thesis by (auto simp: annotated_def jump_def)
next
  case (unlock i m)
  with local_stepD [OF unlock(2)] inv show ?thesis by (auto simp: annotated_def jump_def)
next
  case (wait i c m)
  with local_stepD [OF wait(2)] inv show ?thesis by (auto simp: annotated_def jump_def)
next
  case (signal i c j m)
  with local_stepD [OF signal(2)] inv show ?thesis by (auto simp: annotated_def jump_def)
next
  case (signal_lost i c)
  with local_stepD [OF signal_lost(2)] inv show ?thesis by (auto simp: annotated_def jump_def)
next
  case (join i j)
  with local_stepD [OF join(2)] inv show ?thesis by (auto simp: annotated_def jump_def)
next
  case (retake i m)
  with inv show ?thesis by (auto simp: annotated_def)
qed

lemma annotated_reachable:
  assumes "(machine_step (map code rs))\<^sup>*\<^sup>* (initial x) s" "\<And>r. r \<in> set rs \<Longrightarrow> A r 0 x"
  shows "annotated rs s"
  using assms(1)
proof (induction rule: rtranclp_induct)
  case base
  show ?case using assms(2) by (simp add: annotated_def initial_def)
next
  case (step s s')
  then show ?case unfolding machine_step_def
    by (auto simp: annotated_step elim!: spurious.cases) (simp add: annotated_def)
qed

end

section \<open>Threads that never come out\<close>

text \<open>
  \<open>K i\<close> are positions of thread \<open>i\<close> that it cannot leave: every instruction there leads to another one,
  or waits for a thread that is caught as well.
\<close>

fun leads_within :: "('m, 'c, 's) instr list list \<Rightarrow> (nat \<Rightarrow> 's \<Rightarrow> bool) \<Rightarrow> (nat \<Rightarrow> nat set) \<Rightarrow> nat \<Rightarrow> nat \<Rightarrow> ('m, 'c, 's) instr \<Rightarrow> bool" where
  "leads_within ps A K i k (GOIF b t) \<longleftrightarrow> (\<forall>x. A k x \<longrightarrow> (if b i x then t else Suc k) \<in> K i)"
| "leads_within ps A K i k (JOIN j) \<longleftrightarrow> Suc k \<in> K i \<or> K j \<subseteq> {..<length (ps ! j)} \<and> j < length ps"
| "leads_within ps A K i k a \<longleftrightarrow> Suc k \<in> K i"

context annotation
begin

definition caught :: "'r list \<Rightarrow> (nat \<Rightarrow> nat set) \<Rightarrow> ('m, 'c, 's) machine \<Rightarrow> bool" where
  "caught rs K s \<longleftrightarrow> annotated rs s \<and> (\<forall>i < length rs. pc s i \<in> K i)"

definition trap :: "'r list \<Rightarrow> (nat \<Rightarrow> nat set) \<Rightarrow> bool" where
  "trap rs K \<longleftrightarrow> (\<forall>i < length rs. \<forall>k \<in> K i. k < length (code (rs ! i)) \<longrightarrow>
     leads_within (map code rs) (A (rs ! i)) K i k (code (rs ! i) ! k))"

lemma trapD:
  assumes "trap rs K" "caught rs K s" "next_instr (map code rs) s i = Some a"
  shows "i < length rs" "leads_within (map code rs) (A (rs ! i)) K i (pc s i) a"
  using assms by (auto simp: trap_def caught_def next_instr_def split: if_splits)

lemma caught_move:
  assumes "caught rs K s" "annotated rs s'" "pc s' = (pc s)(i := k)" "k \<in> K i"
  shows "caught rs K s'"
  using assms by (auto simp: caught_def)

lemma not_halted_caught:
  "caught rs K s \<Longrightarrow> K j \<subseteq> {..<length (map code rs ! j)} \<Longrightarrow> j < length rs \<Longrightarrow> \<not> halted (map code rs) s j"
  by (auto simp: caught_def halted_def)

lemma caught_step:
  assumes "trap rs K" and inv: "caught rs K s" and st: "thread_step (map code rs) s s'"
  shows "caught rs K s'"
proof -
  have ann: "annotated rs s'" using annotated_step [OF st] inv by (simp add: caught_def)
  note law = trapD [OF assms(1,2)] and move = caught_move [OF inv ann]
  have here: "A (rs ! i) (pc s i) (shared s)" if "next_instr (map code rs) s i = Some a" for i a
    using inv law(1) [OF that] by (simp add: caught_def annotated_def)
  from st show ?thesis
  proof (cases rule: thread_step.cases)
    case (join i j)
    with law [OF join(2)] not_halted_caught [OF inv, of j] have "Suc (pc s i) \<in> K i" by auto
    then show ?thesis by (rule move [rotated]) (simp add: join(1) jump_def)
  next
    case (taken i b k)
    with law(2) [OF taken(2)] here [OF taken(2)] have "k \<in> K i" by auto
    then show ?thesis by (rule move [rotated]) (simp add: taken(1) jump_def)
  next
    case (not_taken i b k)
    with law(2) [OF not_taken(2)] here [OF not_taken(2)] have "Suc (pc s i) \<in> K i" by auto
    then show ?thesis by (rule move [rotated]) (simp add: not_taken(1) jump_def)
  next
    case (retake i m)
    with inv ann show ?thesis by (simp add: caught_def)
  next
    case (lock i m)
    show ?thesis by (rule move [of i "Suc (pc s i)"]) (use law(2) [OF lock(2)] in \<open>simp_all add: lock(1) jump_def\<close>)
  next
    case (unlock i m)
    show ?thesis by (rule move [of i "Suc (pc s i)"]) (use law(2) [OF unlock(2)] in \<open>simp_all add: unlock(1) jump_def\<close>)
  next
    case (wait i c m)
    show ?thesis by (rule move [of i "Suc (pc s i)"]) (use law(2) [OF wait(2)] in \<open>simp_all add: wait(1) jump_def\<close>)
  next
    case (signal i c j m)
    show ?thesis by (rule move [of i "Suc (pc s i)"]) (use law(2) [OF signal(2)] in \<open>simp_all add: signal(1) jump_def\<close>)
  next
    case (signal_lost i c)
    show ?thesis by (rule move [of i "Suc (pc s i)"]) (use law(2) [OF signal_lost(2)] in \<open>simp_all add: signal_lost(1) jump_def\<close>)
  next
    case (act i f x)
    show ?thesis by (rule move [of i "Suc (pc s i)"]) (use law(2) [OF act(2)] in \<open>simp_all add: act(1) jump_def\<close>)
  qed
qed

lemma caught_forever:
  assumes "trap rs K" "(machine_step (map code rs))\<^sup>*\<^sup>* s s'" "caught rs K s"
  shows "caught rs K s'"
  using assms(2,3)
proof (induction rule: rtranclp_induct)
  case (step s1 s2)
  then show ?case unfolding machine_step_def
    by (auto simp: caught_step [OF assms(1)] elim!: spurious.cases) (simp add: caught_def annotated_def)
qed

end

end
