(* ===== verification/Tx_Threads.thy ===== *)
theory Tx_Threads
  imports Tx_Module Thread_Machine
begin

text \<open>
  The transmission thread of \<^verbatim>\<open>core/TxModule.cpp\<close> and the methods other threads call on the module, as
  routines that interleave between the operations on \<^verbatim>\<open>tx_mutex\<close> and \<^verbatim>\<open>tx_cond\<close>. The buffer has its own
  mutex, so a buffer operation is one action. Run alone, the routines do what the atomic operations of
  \<open>Tx_Module\<close> do.
\<close>

section \<open>Parts of the operations\<close>

text \<open>\<^verbatim>\<open>enqueuePacket\<close>: what happens with the mutex, and behind it.\<close>

definition tx_number :: "S3TP_PACKET \<Rightarrow> u8 \<Rightarrow> bool \<Rightarrow> TxModule \<Rightarrow> S3TP_PACKET \<times> TxModule" where
  "tx_number packet frag_no more_fragments t =
     (let hdr = setMessageType S3TP_MSG_DATA (p_header packet);
          hdr = setSubSequence frag_no hdr;
          hdr = (if more_fragments then setMoreFragments hdr else unsetMoreFragments hdr);
          port = getPort hdr
      in (packet\<lparr>p_header := hdr\<lparr>h_seq_port := at0 (port_sequence t) port\<rparr>\<rparr>,
          t\<lparr>port_sequence := (port_sequence t)(port \<mapsto> at0 (port_sequence t) port + 1)\<rparr>))"

definition tx_write :: "S3TP_PACKET \<Rightarrow> TxModule \<Rightarrow> TxModule result" where
  "tx_write packet t =
     bind_res (calc_checksum (Some (p_payload packet)) (getPduLength (p_header packet))) (\<lambda>crc.
     let packet' = packet\<lparr>p_header := (p_header packet)\<lparr>h_crc := crc\<rparr>\<rparr> in
     bind_res (buf_write (tx_policy t) packet' (outBuffer t)) (\<lambda>(rc, b). Inr (t\<lparr>outBuffer := b\<rparr>)))"

lemma enqueuePacket_parts:
  assumes "tx_active t"
  shows "enqueuePacket packet f m t =
    bind_res (tx_write (fst (tx_number packet f m t)) (snd (tx_number packet f m t))) (\<lambda>t'. Inr (0, t'))"
  using assms
  by (cases "calc_checksum (Some (p_payload packet)) (getPduLength (p_header (fst (tx_number packet f m t))))")
     (auto simp: enqueuePacket_def tx_number_def tx_write_def Let_def bind_res_def split: sum.splits)

text \<open>The thread: fetching with the mutex, stamping, and what follows without the mutex.\<close>

definition tx_fetch :: "TxModule \<Rightarrow> (S3TP_PACKET option \<times> TxModule) result" where
  "tx_fetch t =
     (let t2 = t\<lparr>tx_state := RUNNING\<rparr> in
      bind_res (if sendingFragments t2
                then buf_getNextPacket (tx_policy t2) (currentPort t2) (outBuffer t2)
                else buf_getNextAvailablePacket (tx_policy t2) (outBuffer t2)) (\<lambda>(packet, b).
      Inr (packet, t2\<lparr>outBuffer := b\<rparr>)))"

definition tx_stamp :: "S3TP_PACKET \<Rightarrow> TxModule \<Rightarrow> S3TP_PACKET \<times> TxModule" where
  "tx_stamp packet t =
     (let hdr = p_header packet;
          t1 = t\<lparr>currentPort := getPort hdr, sendingFragments := moreFragments hdr \<noteq> 0\<rparr>;
          hdr' = setGlobalSequence (global_seq_num t1) hdr;
          t2 = (if moreFragments hdr' = 0 then t1\<lparr>global_seq_num := global_seq_num t1 + 1\<rparr> else t1);
          port = getPort hdr'
      in (packet\<lparr>p_header := hdr'\<rparr>,
          t2\<lparr>to_consume_port_seq :=
               (to_consume_port_seq t2)(port \<mapsto> at0 (to_consume_port_seq t2) port + 1)\<rparr>))"

definition tx_hand_over :: "S3TP_PACKET \<Rightarrow> Frame result" where
  "tx_hand_over packet =
     bind_res (frame_of_packet packet) (\<lambda>bytes.
       Inr \<lparr>f_arq = (p_options packet AND 1 \<noteq> 0), f_channel = p_channel packet, f_data = bytes\<rparr>)"

definition tx_notice :: "S3TP_PACKET \<Rightarrow> TxModule \<Rightarrow> u8 option \<times> TxModule" where
  "tx_notice packet t =
     (let port = getPort (p_header packet); (n, b) = buf_getSizeOfQueue port (outBuffer t)
      in (if n + 1 = int MAX_QUEUE_SIZE \<and> tx_statusInterface t then Some port else None, t\<lparr>outBuffer := b\<rparr>))"

lemma tx_send_phase_parts:
  "tx_send_phase packet t =
    (let (packet', t') = tx_stamp packet t; (n, t'') = tx_notice packet' t' in
     bind_res (tx_hand_over packet') (\<lambda>f.
       Inr (\<lparr>out_frames = [f], out_packet = Some packet', out_waits = False, out_notify = n\<rparr>, t'')))"
  by (cases "frame_of_packet (packet\<lparr>p_header := setGlobalSequence (global_seq_num t) (p_header packet)\<rparr>)")
     (simp_all add: tx_send_phase_def tx_stamp_def tx_hand_over_def tx_notice_def Let_def split: prod.split)

section \<open>Routines\<close>

datatype TxMutex = TxMutex
datatype TxCond = TxCond

text \<open>
  The module, what the link shows, the local variable \<^verbatim>\<open>packet\<close> of every thread, the frames handed to
  the link, the ports a notice was given for and the results of the calls.
\<close>

record TxShared =
  sh_tx :: TxModule
  sh_link :: Link
  sh_packet :: "nat \<Rightarrow> S3TP_PACKET option"
  sh_frames :: "Frame list"
  sh_notices :: "u8 list"
  sh_result :: "nat \<Rightarrow> int"

type_synonym tx_instr = "(TxMutex, TxCond, TxShared) instr"

definition on_tx :: "(TxModule \<Rightarrow> TxModule) \<Rightarrow> tx_instr" where
  "on_tx f = DO (\<lambda>i x. Inr (x\<lparr>sh_tx := f (sh_tx x)\<rparr>))"

definition do_sync :: "nat \<Rightarrow> TxShared \<Rightarrow> TxShared result" where
  "do_sync i x = bind_res (tx_sync_phase (sh_link x) (sh_tx x)) (\<lambda>(fs, t).
     Inr (x\<lparr>sh_tx := t, sh_frames := sh_frames x @ fs\<rparr>))"

definition do_fetch :: "nat \<Rightarrow> TxShared \<Rightarrow> TxShared result" where
  "do_fetch i x = bind_res (tx_fetch (sh_tx x)) (\<lambda>(p, t). Inr (x\<lparr>sh_tx := t, sh_packet := (sh_packet x)(i := p)\<rparr>))"

definition do_stamp :: "nat \<Rightarrow> TxShared \<Rightarrow> TxShared result" where
  "do_stamp i x = (case sh_packet x i of None \<Rightarrow> Inl NullDeref
     | Some p \<Rightarrow> let (p', t) = tx_stamp p (sh_tx x) in Inr (x\<lparr>sh_tx := t, sh_packet := (sh_packet x)(i := Some p')\<rparr>))"

definition do_hand_over :: "nat \<Rightarrow> TxShared \<Rightarrow> TxShared result" where
  "do_hand_over i x = (case sh_packet x i of None \<Rightarrow> Inl NullDeref
     | Some p \<Rightarrow> bind_res (tx_hand_over p) (\<lambda>f. Inr (x\<lparr>sh_frames := sh_frames x @ [f]\<rparr>)))"

definition do_notice :: "nat \<Rightarrow> TxShared \<Rightarrow> TxShared result" where
  "do_notice i x = (case sh_packet x i of None \<Rightarrow> Inl NullDeref
     | Some p \<Rightarrow> let (n, t) = tx_notice p (sh_tx x)
         in Inr (x\<lparr>sh_tx := t, sh_notices := sh_notices x @ (case n of None \<Rightarrow> [] | Some port \<Rightarrow> [port])\<rparr>))"

definition link_ready :: "TxShared \<Rightarrow> bool" where
  "link_ready x \<longleftrightarrow> getLinkStatus (sh_link x) \<and> channelsAvailable (sh_tx x)"

definition txRoutine :: "tx_instr list" where
  "txRoutine =
    [LOCK TxMutex,
     GOIF (\<lambda>_ x. \<not> tx_active (sh_tx x)) 22,
     GOIF (\<lambda>_ x. link_ready x) 6,
     on_tx (\<lambda>t. t\<lparr>tx_state := BLOCKED\<rparr>),
     WAIT TxCond TxMutex,
     GOTO 1,
     DO do_sync,
     GOIF (\<lambda>_ x. buf_packetsAvailable (outBuffer (sh_tx x))) 11,
     on_tx (\<lambda>t. t\<lparr>tx_state := WAITING\<rparr>),
     WAIT TxCond TxMutex,
     GOTO 1,
     DO do_fetch,
     GOIF (\<lambda>i x. sh_packet x i \<noteq> None) 16,
     on_tx (\<lambda>t. t\<lparr>tx_state := BLOCKED\<rparr>),
     WAIT TxCond TxMutex,
     GOTO 1,
     DO do_stamp,
     UNLOCK TxMutex,
     DO do_hand_over,
     DO do_notice,
     LOCK TxMutex,
     GOTO 1,
     UNLOCK TxMutex]"

definition do_number :: "S3TP_PACKET \<Rightarrow> u8 \<Rightarrow> bool \<Rightarrow> nat \<Rightarrow> TxShared \<Rightarrow> TxShared result" where
  "do_number packet f m i x = (let (p, t) = tx_number packet f m (sh_tx x)
     in Inr (x\<lparr>sh_tx := t, sh_packet := (sh_packet x)(i := Some p)\<rparr>))"

definition do_write :: "nat \<Rightarrow> TxShared \<Rightarrow> TxShared result" where
  "do_write i x = (case sh_packet x i of None \<Rightarrow> Inl NullDeref
     | Some p \<Rightarrow> bind_res (tx_write p (sh_tx x)) (\<lambda>t. Inr (x\<lparr>sh_tx := t\<rparr>)))"

definition do_return :: "int \<Rightarrow> nat \<Rightarrow> TxShared \<Rightarrow> TxShared result" where
  "do_return rc i x = Inr (x\<lparr>sh_result := (sh_result x)(i := rc)\<rparr>)"

definition th_enqueuePacket :: "S3TP_PACKET \<Rightarrow> u8 \<Rightarrow> bool \<Rightarrow> tx_instr list" where
  "th_enqueuePacket packet f m =
    [LOCK TxMutex,
     GOIF (\<lambda>_ x. tx_active (sh_tx x)) 5,
     UNLOCK TxMutex,
     DO (do_return CODE_INACTIVE_ERROR),
     GOTO 10,
     DO (do_number packet f m),
     UNLOCK TxMutex,
     DO do_write,
     SIGNAL TxCond,
     DO (do_return 0)]"

definition th_scheduleSync :: "u8 \<Rightarrow> tx_instr list" where
  "th_scheduleSync n =
    [LOCK TxMutex,
     DO (\<lambda>_ x. bind_res (scheduleSync n (sh_tx x)) (\<lambda>t. Inr (x\<lparr>sh_tx := t\<rparr>))),
     SIGNAL TxCond,
     UNLOCK TxMutex]"

definition th_setChannelAvailable :: "u8 \<Rightarrow> bool \<Rightarrow> tx_instr list" where
  "th_setChannelAvailable ch available =
    [LOCK TxMutex,
     on_tx (tx_setChannelAvailable ch available),
     GOIF (\<lambda>_ _. \<not> available) 4,
     SIGNAL TxCond,
     UNLOCK TxMutex]"

text \<open>\<open>j\<close> is the number of the transmission thread.\<close>

definition th_stopRoutine :: "nat \<Rightarrow> tx_instr list" where
  "th_stopRoutine j = [LOCK TxMutex, on_tx stopRoutine, SIGNAL TxCond, UNLOCK TxMutex, JOIN j]"

text \<open>The link shows something else and its callback leads to \<^verbatim>\<open>notifyLinkAvailability\<close>.\<close>

definition th_notifyLinkAvailability :: "Link \<Rightarrow> tx_instr list" where
  "th_notifyLinkAvailability l =
    [DO (\<lambda>_ x. Inr (x\<lparr>sh_link := l\<rparr>)),
     GOIF (\<lambda>_ _. \<not> getLinkStatus l) 3,
     SIGNAL TxCond]"

datatype TxRole = TxThread | Enqueue S3TP_PACKET u8 bool | Schedule u8 | Channel u8 bool | Stop | LinkChange Link

primrec tx_code :: "TxRole \<Rightarrow> tx_instr list" where
  "tx_code TxThread = txRoutine"
| "tx_code (Enqueue p f m) = th_enqueuePacket p f m"
| "tx_code (Schedule n) = th_scheduleSync n"
| "tx_code (Channel ch a) = th_setChannelAvailable ch a"
| "tx_code Stop = th_stopRoutine 0"
| "tx_code (LinkChange l) = th_notifyLinkAvailability l"

section \<open>Stopping and synchronizing never go unnoticed\<close>

fun tx_hold :: "TxRole \<Rightarrow> nat \<Rightarrow> bool" where
  "tx_hold TxThread k \<longleftrightarrow> 1 \<le> k \<and> k \<le> 17 \<or> k = 21 \<or> k = 22"
| "tx_hold (Enqueue p f m) k \<longleftrightarrow> k \<in> {1, 2, 5, 6}"
| "tx_hold (Schedule n) k \<longleftrightarrow> k \<in> {1, 2, 3}"
| "tx_hold (Channel ch a) k \<longleftrightarrow> k \<in> {1, 2, 3, 4}"
| "tx_hold Stop k \<longleftrightarrow> k \<in> {1, 2, 3}"
| "tx_hold (LinkChange l) k \<longleftrightarrow> False"

definition is_active :: "TxShared \<Rightarrow> bool" where
  "is_active x \<longleftrightarrow> tx_active (sh_tx x)"

definition stop_pend :: "TxRole \<Rightarrow> nat \<Rightarrow> bool" where
  "stop_pend r k \<longleftrightarrow> r = Stop \<and> k = 2"

definition stop_safe :: "TxRole \<Rightarrow> nat \<Rightarrow> bool" where
  "stop_safe r k \<longleftrightarrow> r = TxThread \<and> k \<in> {2, 3, 4, 6, 7, 8, 9, 11, 12, 13, 14, 16, 17}"

definition no_sync :: "TxShared \<Rightarrow> bool" where
  "no_sync x \<longleftrightarrow> \<not> (scheduled_sync (sh_tx x) \<and> tx_isChannelAvailable DEFAULT_SYNC_CHANNEL (sh_tx x))"

fun sync_pend :: "TxRole \<Rightarrow> nat \<Rightarrow> bool" where
  "sync_pend (Schedule n) k \<longleftrightarrow> k = 2"
| "sync_pend (Channel ch a) k \<longleftrightarrow> a \<and> (k = 2 \<or> k = 3)"
| "sync_pend r k \<longleftrightarrow> False"

definition sync_safe :: "TxRole \<Rightarrow> nat \<Rightarrow> bool" where
  "sync_safe r k \<longleftrightarrow> r = TxThread \<and> k \<in> {7, 8, 9, 11, 12, 13, 14, 16, 17}"

text \<open>The waits at which the link was found up: for an empty buffer, and for blocked channels.\<close>

definition sync_watch :: "TxRole \<Rightarrow> nat \<Rightarrow> bool" where
  "sync_watch r k \<longleftrightarrow> k = 10 \<or> k = 15"

lemmas tx_code_defs = txRoutine_def th_enqueuePacket_def th_scheduleSync_def th_setChannelAvailable_def
  th_stopRoutine_def th_notifyLinkAvailability_def on_tx_def

text \<open>What the actions keep.\<close>

lemma tx_parts_active:
  "do_sync i x = Inr y \<Longrightarrow> is_active y = is_active x"
  "do_fetch i x = Inr y \<Longrightarrow> is_active y = is_active x"
  "do_stamp i x = Inr y \<Longrightarrow> is_active y = is_active x"
  "do_hand_over i x = Inr y \<Longrightarrow> is_active y = is_active x"
  "do_notice i x = Inr y \<Longrightarrow> is_active y = is_active x"
  "do_number p f m i x = Inr y \<Longrightarrow> is_active y = is_active x"
  "do_write i x = Inr y \<Longrightarrow> is_active y = is_active x"
  "do_return rc i x = Inr y \<Longrightarrow> is_active y = is_active x"
  by (auto simp: is_active_def do_sync_def tx_sync_phase_def tx_setChannelAvailable_def tx_synchronizeStatus_def Let_def
      do_fetch_def tx_fetch_def do_stamp_def tx_stamp_def do_hand_over_def do_notice_def tx_notice_def do_number_def
      tx_number_def do_write_def tx_write_def do_return_def split: option.splits prod.splits if_splits)

lemma tx_parts_sync:
  "do_sync i x = Inr y \<Longrightarrow> no_sync y"
  "do_fetch i x = Inr y \<Longrightarrow> no_sync y = no_sync x"
  "do_stamp i x = Inr y \<Longrightarrow> no_sync y = no_sync x"
  "do_hand_over i x = Inr y \<Longrightarrow> no_sync y = no_sync x"
  "do_notice i x = Inr y \<Longrightarrow> no_sync y = no_sync x"
  "do_number p f m i x = Inr y \<Longrightarrow> no_sync y = no_sync x"
  "do_write i x = Inr y \<Longrightarrow> no_sync y = no_sync x"
  "do_return rc i x = Inr y \<Longrightarrow> no_sync y = no_sync x"
  by (auto simp: no_sync_def tx_isChannelAvailable_def do_sync_def tx_sync_phase_def tx_setChannelAvailable_def Let_def
      do_fetch_def tx_fetch_def do_stamp_def tx_stamp_def do_hand_over_def do_notice_def tx_notice_def do_number_def
      tx_number_def do_write_def tx_write_def do_return_def split: option.splits prod.splits if_splits)

interpretation tx_stop: monitor tx_code "\<lambda>r. r = TxThread" TxMutex TxCond is_active tx_hold stop_pend stop_safe "\<lambda>_ _. True"
proof
  show "\<not> tx_hold r 0" for r by (cases r) simp_all
  show "stop_pend r k \<Longrightarrow> tx_hold r k" for r k by (auto simp: stop_pend_def)
  show "stop_safe r k \<Longrightarrow> r = TxThread \<and> tx_hold r k \<and> \<not> stop_pend r k" for r k
    by (auto simp: stop_safe_def stop_pend_def)
  show "disciplined (keeps_discipline (\<lambda>r. r = TxThread) TxMutex TxCond is_active tx_hold stop_pend stop_safe
    (\<lambda>_ _. True) r) 0 (tx_code r)" for r
    by (cases r)
       (auto simp: tx_code_defs stop_pend_def stop_safe_def tx_parts_active,
        (auto simp: is_active_def scheduleSync_def tx_setChannelAvailable_def stopRoutine_def split: if_splits)+)
qed

interpretation tx_sync: monitor tx_code "\<lambda>r. r = TxThread" TxMutex TxCond no_sync tx_hold sync_pend sync_safe sync_watch
proof
  show "\<not> tx_hold r 0" for r by (cases r) simp_all
  show "sync_pend r k \<Longrightarrow> tx_hold r k" for r k by (cases r) auto
  show "sync_safe r k \<Longrightarrow> r = TxThread \<and> tx_hold r k \<and> \<not> sync_pend r k" for r k
    by (auto simp: sync_safe_def)
  show "disciplined (keeps_discipline (\<lambda>r. r = TxThread) TxMutex TxCond no_sync tx_hold sync_pend sync_safe sync_watch r) 0
    (tx_code r)" for r
    by (cases r)
       (auto simp: tx_code_defs sync_safe_def sync_watch_def tx_parts_sync,
        (auto simp: no_sync_def tx_isChannelAvailable_def tx_setChannelAvailable_def stopRoutine_def split: if_splits)+)
qed

text \<open>Once a stop has begun, the module stays inactive.\<close>

definition stop_assert :: "TxRole \<Rightarrow> nat \<Rightarrow> TxShared \<Rightarrow> bool" where
  "stop_assert r k x \<longleftrightarrow> (r = Stop \<and> 2 \<le> k \<longrightarrow> \<not> is_active x)"

interpretation stopping: annotation tx_code stop_assert
proof
  show "disciplined (establishes (stop_assert r)) 0 (tx_code r)" for r
    by (cases r) (auto simp: tx_code_defs stop_assert_def tx_parts_active, (simp add: is_active_def stopRoutine_def)+)
  show "disciplined (keeps (stop_assert r) {stop_assert r' k' |r' k'. True}) 0 (tx_code r)" for r
    by (cases r) (auto simp: tx_code_defs stop_assert_def tx_parts_active,
        (auto simp: is_active_def stopRoutine_def scheduleSync_def tx_setChannelAvailable_def split: if_splits)+)
qed

lemma stop_clears_active:
  assumes "(machine_step (map tx_code rs))\<^sup>*\<^sup>* (initial x) s" "j < length rs" "rs ! j = Stop" "2 \<le> pc s j"
  shows "\<not> is_active (shared s)"
  using stopping.annotated_reachable [OF assms(1)] assms(2-4) by (simp add: stopping.annotated_def stop_assert_def)

section \<open>A thread that runs alone\<close>

text \<open>Running a thread alone from the head of its loop is one iteration of the atomic model.\<close>

definition at_loop_head :: "(TxMutex, TxCond, TxShared) machine \<Rightarrow> bool" where
  "at_loop_head s \<longleftrightarrow> mode s 0 = Running \<and> pc s 0 = 1 \<and> owner s TxMutex = Some 0"

definition fell_asleep :: "(TxMutex, TxCond, TxShared) machine \<Rightarrow> bool" where
  "fell_asleep s \<longleftrightarrow> mode s 0 = Sleeping TxCond TxMutex \<and> owner s TxMutex = None"

lemma txRoutine_nth:
  "txRoutine ! 0 = LOCK TxMutex"
  "txRoutine ! Suc 0 = GOIF (\<lambda>_ x. \<not> tx_active (sh_tx x)) 22"
  "txRoutine ! 2 = GOIF (\<lambda>_ x. link_ready x) 6"
  "txRoutine ! 3 = on_tx (\<lambda>t. t\<lparr>tx_state := BLOCKED\<rparr>)"
  "txRoutine ! 4 = WAIT TxCond TxMutex"
  "txRoutine ! 6 = DO do_sync"
  "txRoutine ! 7 = GOIF (\<lambda>_ x. buf_packetsAvailable (outBuffer (sh_tx x))) 11"
  "txRoutine ! 8 = on_tx (\<lambda>t. t\<lparr>tx_state := WAITING\<rparr>)"
  "txRoutine ! 9 = WAIT TxCond TxMutex"
  "txRoutine ! 11 = DO do_fetch"
  "txRoutine ! 12 = GOIF (\<lambda>i x. sh_packet x i \<noteq> None) 16"
  "txRoutine ! 13 = on_tx (\<lambda>t. t\<lparr>tx_state := BLOCKED\<rparr>)"
  "txRoutine ! 14 = WAIT TxCond TxMutex"
  "txRoutine ! 16 = DO do_stamp"
  "txRoutine ! 17 = UNLOCK TxMutex"
  "txRoutine ! 18 = DO do_hand_over"
  "txRoutine ! 19 = DO do_notice"
  "txRoutine ! 20 = LOCK TxMutex"
  "txRoutine ! 21 = GOTO 1"
  "length txRoutine = 23"
  by (simp_all add: txRoutine_def)

lemmas solo_simps = thread_exec.simps next_instr_def txRoutine_nth on_tx_def jump_def numeral_2_eq_2 [symmetric] replicate_numeral

text \<open>
  The outcomes of a pass: the link is not ready, the buffer is empty, no packet can be sent, a packet is
  sent.
\<close>

lemma solo_not_ready:
  assumes "at_loop_head s" "is_active (shared s)" "\<not> link_ready (shared s)"
  shows "\<exists>s'. alone (txRoutine # qs) 0 s s' \<and> fell_asleep s' \<and>
    shared s' = (shared s)\<lparr>sh_tx := (sh_tx (shared s))\<lparr>tx_state := BLOCKED\<rparr>\<rparr>"
  using assms unfolding at_loop_head_def is_active_def
  by (intro alone_run [where n = 4]) (simp_all add: fell_asleep_def solo_simps)

lemma solo_empty:
  assumes "at_loop_head s" "is_active (shared s)" "link_ready (shared s)"
    and "do_sync 0 (shared s) = Inr x" "\<not> buf_packetsAvailable (outBuffer (sh_tx x))"
  shows "\<exists>s'. alone (txRoutine # qs) 0 s s' \<and> fell_asleep s' \<and> shared s' = x\<lparr>sh_tx := (sh_tx x)\<lparr>tx_state := WAITING\<rparr>\<rparr>"
  using assms unfolding at_loop_head_def is_active_def
  by (intro alone_run [where n = 6]) (simp_all add: fell_asleep_def solo_simps)

lemma solo_nothing:
  assumes "at_loop_head s" "is_active (shared s)" "link_ready (shared s)"
    and "do_sync 0 (shared s) = Inr x" "buf_packetsAvailable (outBuffer (sh_tx x))"
    and "do_fetch 0 x = Inr y" "sh_packet y 0 = None"
  shows "\<exists>s'. alone (txRoutine # qs) 0 s s' \<and> fell_asleep s' \<and> shared s' = y\<lparr>sh_tx := (sh_tx y)\<lparr>tx_state := BLOCKED\<rparr>\<rparr>"
  using assms unfolding at_loop_head_def is_active_def
  by (intro alone_run [where n = 8]) (simp_all add: fell_asleep_def solo_simps)

lemma solo_sent:
  assumes "at_loop_head s" "is_active (shared s)" "link_ready (shared s)"
    and "do_sync 0 (shared s) = Inr x" "buf_packetsAvailable (outBuffer (sh_tx x))"
    and "do_fetch 0 x = Inr y" "sh_packet y 0 = Some p"
    and "do_stamp 0 y = Inr z" "do_hand_over 0 z = Inr u" "do_notice 0 u = Inr v"
  shows "\<exists>s'. alone (txRoutine # qs) 0 s s' \<and> at_loop_head s' \<and> shared s' = v"
  using assms unfolding at_loop_head_def is_active_def
  by (intro alone_run [where n = 12]) (simp_all add: solo_simps)

lemma enqueue_nth:
  "th_enqueuePacket p f m ! 0 = LOCK TxMutex"
  "th_enqueuePacket p f m ! Suc 0 = GOIF (\<lambda>_ x. tx_active (sh_tx x)) 5"
  "th_enqueuePacket p f m ! 2 = UNLOCK TxMutex"
  "th_enqueuePacket p f m ! 3 = DO (do_return CODE_INACTIVE_ERROR)"
  "th_enqueuePacket p f m ! 4 = GOTO 10"
  "th_enqueuePacket p f m ! 5 = DO (do_number p f m)"
  "th_enqueuePacket p f m ! 6 = UNLOCK TxMutex"
  "th_enqueuePacket p f m ! 7 = DO do_write"
  "th_enqueuePacket p f m ! 8 = SIGNAL TxCond"
  "th_enqueuePacket p f m ! 9 = DO (do_return 0)"
  "length (th_enqueuePacket p f m) = 10"
  by (simp_all add: th_enqueuePacket_def)

lemma thread_alone:
  assumes head: "at_loop_head s" "is_active (shared s)"
    and run: "txRoutine_iteration (sh_link (shared s)) (sh_tx (shared s)) = Inr (out, t')"
  shows "\<exists>s'. alone (txRoutine # qs) 0 s s' \<and> sh_tx (shared s') = t' \<and>
    sh_frames (shared s') = sh_frames (shared s) @ out_frames out \<and>
    sh_notices (shared s') = sh_notices (shared s) @ (case out_notify out of None \<Rightarrow> [] | Some p \<Rightarrow> [p]) \<and>
    (if out_waits out then fell_asleep s' else at_loop_head s' \<and> sh_packet (shared s') 0 = out_packet out)"
proof (cases "link_ready (shared s)")
  case False
  with solo_not_ready [OF head] run show ?thesis
    by (fastforce simp: txRoutine_iteration_def link_ready_def tx_wait_def)
next
  case ready: True
  let ?x = "shared s"
  from run ready obtain fs t1 where sync: "tx_sync_phase (sh_link ?x) (sh_tx ?x) = Inr (fs, t1)"
    by (auto simp: txRoutine_iteration_def link_ready_def)
  let ?x1 = "?x\<lparr>sh_tx := t1, sh_frames := sh_frames ?x @ fs\<rparr>"
  have sync': "do_sync 0 ?x = Inr ?x1" by (simp add: do_sync_def sync)
  show ?thesis
  proof (cases "buf_packetsAvailable (outBuffer t1)")
    case False
    with solo_empty [OF head ready sync'] run ready sync show ?thesis
      by (fastforce simp: txRoutine_iteration_def link_ready_def tx_wait_def)
  next
    case avail: True
    with run ready sync obtain p t3 where fetch: "tx_fetch t1 = Inr (p, t3)"
      by (fastforce simp: txRoutine_iteration_def link_ready_def tx_fetch_def Let_def split: if_splits)
    let ?y = "?x1\<lparr>sh_tx := t3, sh_packet := (sh_packet ?x)(0 := p)\<rparr>"
    have fetch': "do_fetch 0 ?x1 = Inr ?y" by (simp add: do_fetch_def fetch)
    have run': "(case p of None \<Rightarrow> Inr (tx_wait fs, t3\<lparr>tx_state := BLOCKED\<rparr>)
        | Some packet \<Rightarrow> bind_res (tx_send_phase packet t3) (\<lambda>(out, t4). Inr (out\<lparr>out_frames := fs @ out_frames out\<rparr>, t4)))
      = Inr (out, t')"
      using run ready sync avail fetch
      by (auto simp: txRoutine_iteration_def link_ready_def tx_fetch_def Let_def split: if_splits)
    show ?thesis
    proof (cases p)
      case None
      with solo_nothing [OF head ready sync' _ fetch'] avail run' show ?thesis by (fastforce simp: tx_wait_def)
    next
      case (Some packet)
      obtain p2 t4 where st: "tx_stamp packet t3 = (p2, t4)" by fastforce
      obtain n t5 where nt: "tx_notice p2 t4 = (n, t5)" by fastforce
      from run' Some st nt obtain fr where fr: "tx_hand_over p2 = Inr fr" by (auto simp: tx_send_phase_parts)
      let ?z = "?y\<lparr>sh_tx := t4, sh_packet := (sh_packet ?x)(0 := Some p2)\<rparr>"
      let ?u = "?z\<lparr>sh_frames := sh_frames ?z @ [fr]\<rparr>"
      let ?v = "?u\<lparr>sh_tx := t5, sh_notices := sh_notices ?u @ (case n of None \<Rightarrow> [] | Some port \<Rightarrow> [port])\<rparr>"
      have "do_stamp 0 ?y = Inr ?z" "do_hand_over 0 ?z = Inr ?u" "do_notice 0 ?u = Inr ?v"
        by (simp_all add: do_stamp_def do_hand_over_def do_notice_def Some st fr nt)
      from solo_sent [OF head ready sync' _ fetch' _ this] avail Some
      obtain s' where s': "alone (txRoutine # qs) 0 s s'" "at_loop_head s'" "shared s' = ?v" by fastforce
      have "t' = t5" "out = \<lparr>out_frames = fs @ [fr], out_packet = Some p2, out_waits = False, out_notify = n\<rparr>"
        using run' Some st nt fr by (auto simp: tx_send_phase_parts)
      with s' show ?thesis by (intro exI [of _ s']) simp
    qed
  qed
qed

lemma enqueue_alone:
  assumes i: "i < length ps" "ps ! i = th_enqueuePacket p f m" "mode s i = Running" "pc s i = 0" "owner s TxMutex = None"
    and awake: "\<forall>j < length ps. \<forall>c k. mode s j \<noteq> Sleeping c k"
    and run: "enqueuePacket p f m (sh_tx (shared s)) = Inr (rc, t')"
  shows "\<exists>s'. alone ps i s s' \<and> halted ps s' i \<and> owner s' TxMutex = None \<and> sh_tx (shared s') = t' \<and> sh_result (shared s') i = rc"
proof (cases "tx_active (sh_tx (shared s))")
  case False
  with run have "rc = CODE_INACTIVE_ERROR" "t' = sh_tx (shared s)" by (auto simp: enqueuePacket_def)
  with i False show ?thesis
    by (intro alone_run [where n = 5]) (simp_all add: solo_simps enqueue_nth do_return_def halted_def)
next
  case True
  let ?x = "shared s"
  obtain q t1 where nm: "tx_number p f m (sh_tx ?x) = (q, t1)" by fastforce
  with run True have wr: "tx_write q t1 = Inr t'" "rc = 0" by (auto simp: enqueuePacket_parts)
  have no: "list_all (\<lambda>j. case mode s j of Sleeping c' m \<Rightarrow> c' \<noteq> TxCond | _ \<Rightarrow> True) [0..<length ps]"
    using awake by (auto simp: list_all_iff split: mode.split)
  from i True nm wr no show ?thesis
    by (intro alone_run [where n = 7])
       (simp_all add: solo_simps enqueue_nth do_number_def do_write_def do_return_def halted_def)
qed

section \<open>Example\<close>

definition example_shared :: "TxModule \<Rightarrow> Link \<Rightarrow> TxShared" where
  "example_shared t l = \<lparr>sh_tx = t, sh_link = l, sh_packet = (\<lambda>_. None), sh_frames = [], sh_notices = [], sh_result = (\<lambda>_. 1)\<rparr>"

lemma example_started:
  "\<exists>t. tx_ok t \<and> tx_active t \<and> (\<forall>p. tx_view t p = []) \<and> \<not> scheduled_sync t \<and> channel_blacklist t = {}"
proof -
  from tx_new_ok [of "example_packet []" False] obtain t where
    t: "tx_new (example_packet []) False = Inr t" "tx_ok t" "\<forall>p. tx_view t p = []" by blast
  then have "\<not> scheduled_sync t" "channel_blacklist t = {}" by (auto simp: tx_new_def Let_def split: if_splits)
  moreover have "tx_ok (startRoutine t)"
    using t(2) by (simp add: startRoutine_def tx_ok_def tx_port_ok_def)
  ultimately show ?thesis using t(3) by (intro exI [of _ "startRoutine t"]) (simp add: startRoutine_def)
qed

section \<open>Properties\<close>

text \<open>C18. A transmission thread that runs undisturbed from the head of its loop does what one iteration of the
  atomic model does: same module, same frames, same notices, and it falls asleep exactly when the
  iteration waits.\<close>

theorem undisturbed_thread_is_iteration:
  assumes "at_loop_head s" "tx_active (sh_tx (shared s))"
    "txRoutine_iteration (sh_link (shared s)) (sh_tx (shared s)) = Inr (out, t')"
  shows "\<exists>s'. alone (txRoutine # qs) 0 s s' \<and> sh_tx (shared s') = t' \<and>
    sh_frames (shared s') = sh_frames (shared s) @ out_frames out \<and>
    sh_notices (shared s') = sh_notices (shared s) @ (case out_notify out of None \<Rightarrow> [] | Some p \<Rightarrow> [p]) \<and>
    (if out_waits out then fell_asleep s' else at_loop_head s' \<and> sh_packet (shared s') 0 = out_packet out)"
  using assms by (intro thread_alone) (simp_all add: is_active_def)

theorem undisturbed_thread_is_iteration_witness:
  "\<exists>t out t' s'. txRoutine_iteration example_link t = Inr (out, t') \<and> out_packet out \<noteq> None \<and>
    alone [txRoutine] 0 \<lparr>shared = example_shared t example_link, owner = (\<lambda>_. Some 0), pc = (\<lambda>_. 1), mode = (\<lambda>_. Running)\<rparr> s' \<and>
    sh_tx (shared s') = t' \<and> sh_frames (shared s') = out_frames out \<and>
    (if out_waits out then fell_asleep s' else at_loop_head s')"
proof -
  from example_enqueued obtain t q1 q2 where
    t: "tx_run [q1, q2] [] t" "tx_active t" "tx_whole t" "clear_way example_link t" "waiting t = Suc 1" by auto
  have "tx_ok t" using tx_run_invariant [OF t(1)] by simp
  from tx_iteration_progress [OF this t(3-5)] obtain out t' x where
    run: "txRoutine_iteration example_link t = Inr (out, t')" "out_packet out = Some x" by blast
  let ?s = "\<lparr>shared = example_shared t example_link, owner = (\<lambda>_. Some 0), pc = (\<lambda>_. 1), mode = (\<lambda>_. Running)\<rparr>
    :: (TxMutex, TxCond, TxShared) machine"
  have "at_loop_head ?s" "tx_active (sh_tx (shared ?s))"
    "txRoutine_iteration (sh_link (shared ?s)) (sh_tx (shared ?s)) = Inr (out, t')"
    using t(2) run(1) by (simp_all add: at_loop_head_def example_shared_def)
  from undisturbed_thread_is_iteration [OF this, of "[]"] obtain s' where
    s': "alone [txRoutine] 0 ?s s'" "sh_tx (shared s') = t'" "sh_frames (shared s') = out_frames out"
    "if out_waits out then fell_asleep s' else at_loop_head s'"
    by (auto simp: example_shared_def split: if_splits)
  with run show ?thesis by blast
qed

text \<open>C19. While \<^verbatim>\<open>stopRoutine\<close> waits for the transmission thread to end, the thread is not asleep, whatever the other
  callers do and whether or not it wakes up by itself: the flag is cleared and signalled under the mutex.\<close>

theorem stop_wakes_transmission_thread:
  assumes "(machine_step (map tx_code (TxThread # calls)))\<^sup>*\<^sup>* (initial x) s" "TxThread \<notin> set calls"
    and "j < length calls" "calls ! j = Stop" "pc s (Suc j) = 4" "\<forall>i < length calls. calls ! i = Stop \<longrightarrow> i = j"
  shows "mode s 0 \<noteq> Sleeping c m"
proof
  assume asleep: "mode s 0 = Sleeping c m"
  have one: "tx_stop.one_waiter (TxThread # calls)"
    using assms(2) by (intro tx_stop.one_waiter_Cons) auto
  have inactive: "\<not> is_active (shared s)"
    using stop_clears_active [OF assms(1), of "Suc j"] assms(3-5) by simp
  from tx_stop.no_missed_signal [OF one assms(1) _ asleep] inactive obtain k where
    k: "k < Suc (length calls)" "stop_pend ((TxThread # calls) ! k) (pc s k)" by auto
  then show False using assms(5,6) by (cases k) (auto simp: stop_pend_def)
qed

theorem stop_wakes_transmission_thread_witness:
  "\<exists>x s. (machine_step (map tx_code [TxThread, Stop]))\<^sup>*\<^sup>* (initial x) s \<and> pc s 1 = 4 \<and> pc s 0 = 5 \<and> mode s 0 \<noteq> Sleeping TxCond TxMutex"
proof -
  from example_started obtain t :: TxModule where t: "tx_active t" by blast
  let ?x = "example_shared t (example_link\<lparr>getLinkStatus := False\<rparr>)" and ?ps = "map tx_code [TxThread, Stop]"
  obtain s where s: "thread_run ?ps (replicate 5 (Run 0) @ [Run 1, Run 1, Wake 1 0, Run 1]) (initial ?x) = Some s" "pc s 1 = 4" "pc s 0 = 5"
    using t by (simp add: solo_simps th_stopRoutine_def initial_def example_shared_def example_link_def link_ready_def)
  have "mode s 0 \<noteq> Sleeping TxCond TxMutex"
    by (rule stop_wakes_transmission_thread [of "[Stop]", OF thread_run_steps [OF s(1)], where j = 0]) (use s(2) in simp_all)
  with s thread_run_steps [OF s(1)] show ?thesis by blast
qed

text \<open>A requested synchronization is never overlooked by a thread that waits with the link up: whenever it
  sleeps there, no synchronization is due, or a caller is about to signal.\<close>

theorem synchronization_request_is_noticed:
  assumes "(machine_step (map tx_code (TxThread # calls)))\<^sup>*\<^sup>* (initial x) s" "TxThread \<notin> set calls"
    and "mode s 0 = Sleeping c m" "pc s 0 = 10 \<or> pc s 0 = 15"
  shows "\<not> (scheduled_sync (sh_tx (shared s)) \<and> tx_isChannelAvailable 0 (sh_tx (shared s))) \<or>
    (\<exists>j < length calls. mode s (Suc j) = Running \<and> (case calls ! j of Schedule n \<Rightarrow> pc s (Suc j) = 2
       | Channel ch a \<Rightarrow> a \<and> (pc s (Suc j) = 2 \<or> pc s (Suc j) = 3) | _ \<Rightarrow> False))"
proof -
  have one: "tx_sync.one_waiter (TxThread # calls)"
    using assms(2) by (intro tx_sync.one_waiter_Cons) auto
  have "sync_watch ((TxThread # calls) ! 0) (pc s 0)" using assms(4) by (simp add: sync_watch_def)
  from tx_sync.no_missed_signal [OF one assms(1) _ assms(3) this] consider "no_sync (shared s)"
    | k where "k < Suc (length calls)" "mode s k = Running" "sync_pend ((TxThread # calls) ! k) (pc s k)" by auto
  then show ?thesis
  proof cases
    case 1
    then show ?thesis by (simp add: no_sync_def)
  next
    case (2 k)
    then obtain j where j: "k = Suc j" "j < length calls" by (cases k) auto
    with 2 show ?thesis by (intro disjI2 exI [of _ j]) (cases "calls ! j"; auto)
  qed
qed

theorem synchronization_request_is_noticed_witness:
  "\<exists>x s. (machine_step (map tx_code [TxThread, Schedule 0]))\<^sup>*\<^sup>* (initial x) s \<and> mode s 0 = Sleeping TxCond TxMutex \<and> pc s 0 = 10 \<and>
    scheduled_sync (sh_tx (shared s)) \<and> (mode s 1 = Running \<and> pc s 1 = 2)"
proof -
  from example_started obtain t where t: "tx_ok t" "tx_active t" "\<forall>p. tx_view t p = []" "\<not> scheduled_sync t" "channel_blacklist t = {}" by blast
  have e: "\<not> buf_packetsAvailable (outBuffer t)" using buf_packetsAvailable_ok t by (auto simp: tx_ok_def)
  have p: "p_payload (syncPacket t) \<noteq> []" using t(1) by (auto simp: tx_ok_def sync_packet_ok_def)
  let ?x = "example_shared t example_link" and ?ps = "map tx_code [TxThread, Schedule 0]"
  obtain s where s: "thread_run ?ps (replicate 7 (Run 0) @ [Run 1, Run 1]) (initial ?x) = Some s"
    "mode s 0 = Sleeping TxCond TxMutex" "pc s 0 = 10" "scheduled_sync (sh_tx (shared s))" "tx_isChannelAvailable 0 (sh_tx (shared s))"
    using t e p by (simp add: solo_simps th_scheduleSync_def initial_def example_shared_def example_link_def link_ready_def
        do_sync_def tx_sync_phase_def channelsAvailable_def scheduleSync_def tx_isChannelAvailable_def)
  from synchronization_request_is_noticed [of "[Schedule 0]", OF thread_run_steps [OF s(1)] _ s(2)] s(3-5)
  have "mode s 1 = Running \<and> pc s 1 = 2" by simp
  with s(2-4) thread_run_steps [OF s(1)] show ?thesis by blast
qed

text \<open>C34. A packet can be overlooked: it is stored and signalled without the mutex, and when this happens between the
  look into the empty buffer and the wait, the thread falls asleep with the packet in the buffer, the link
  up, and nobody left to wake it.\<close>

theorem enqueued_packet_can_be_overlooked:
  assumes "tx_ok t" "tx_active t" "\<forall>p. tx_view t p = []" "\<not> scheduled_sync t" "pkt_wf x"
    and "getLinkStatus l" "channelsAvailable t"
  shows "\<exists>s. (machine_step (map tx_code [TxThread, Enqueue x f m]))\<^sup>*\<^sup>*
      (initial (example_shared t l)) s \<and>
    stuck (map tx_code [TxThread, Enqueue x f m]) s \<and> mode s 0 = Sleeping TxCond TxMutex \<and>
    sh_result (shared s) 1 = 0 \<and> tx_view (sh_tx (shared s)) (getPort (p_header x)) \<noteq> [] \<and>
    getLinkStatus (sh_link (shared s)) \<and> tx_active (sh_tx (shared s))"
proof -
  let ?ps = "map tx_code [TxThread, Enqueue x f m]" and ?p = "getPort (p_header x)"
  let ?i = "initial (example_shared t l)"
  obtain q t1 where nm: "tx_number x f m t = (q, t1)" by fastforce
  from enqueuePacket_ok [OF assms(1,2,5) refl] assms(3) obtain t2 where
    enq: "enqueuePacket x f m t = Inr (0, t2)" "tx_view t2 ?p \<noteq> []" by fastforce
  with assms(2) nm have wr: "tx_write q t1 = Inr t2" by (auto simp: enqueuePacket_parts)
  have t1: "outBuffer t1 = outBuffer t" "tx_active t1" "\<not> scheduled_sync t1" "channelsAvailable t1"
    using nm assms(2,4,7) by (auto simp: tx_number_def Let_def channelsAvailable_def)
  have empty: "\<not> buf_packetsAvailable (outBuffer t1)"
    using buf_packetsAvailable_ok assms(1,3) by (auto simp: t1 tx_ok_def)
  have t2: "tx_active t2" using wr t1(2) by (auto simp: tx_write_def Let_def)
  obtain s where s: "thread_run ?ps (replicate 4 (Run 1) @ replicate 5 (Run 0) @ replicate 3 (Run 1) @ replicate 2 (Run 0)) ?i = Some s"
    "mode s 0 = Sleeping TxCond TxMutex" "mode s 1 = Running" "pc s 1 = 10" "sh_result (shared s) 1 = 0"
    "sh_tx (shared s) = t2\<lparr>tx_state := WAITING\<rparr>" "sh_link (shared s) = l"
    using nm wr t1 empty assms(2,6)
    by (simp add: solo_simps enqueue_nth initial_def do_number_def do_write_def do_return_def do_sync_def tx_sync_phase_def
        link_ready_def example_shared_def upt_rec)
  have "stuck ?ps s"
    by (rule stuckI) (use s in \<open>auto simp: halted_def less_Suc_eq enqueue_nth\<close>)
  with s enq(2) t2 assms(6) thread_run_steps [OF s(1)] show ?thesis by (intro exI [of _ s]) simp
qed

theorem enqueued_packet_can_be_overlooked_witness:
  "\<exists>t s. (machine_step (map tx_code [TxThread, Enqueue (example_packet [1, 2]) 0 False]))\<^sup>*\<^sup>*
      (initial (example_shared t example_link)) s \<and>
    stuck (map tx_code [TxThread, Enqueue (example_packet [1, 2]) 0 False]) s \<and> tx_view (sh_tx (shared s)) 5 \<noteq> []"
proof -
  from example_started obtain t where t: "tx_ok t" "tx_active t" "\<forall>p. tx_view t p = []" "\<not> scheduled_sync t" "channel_blacklist t = {}" by blast
  have "getLinkStatus example_link" "channelsAvailable t" using t(5) by (simp_all add: example_link_def channelsAvailable_def)
  from enqueued_packet_can_be_overlooked [OF t(1-4) example_wf(1) this, of 0 False] show ?thesis
    by (auto simp: example_wf(3))
qed

end
