(* ===== verification/Assembly_Threads.thy ===== *)
theory Assembly_Threads
  imports S3tp_Main Thread_Machine
begin

text \<open>
  The assembly thread of \<^verbatim>\<open>core/S3TP.cpp\<close> with the calls that run beside it: the reception of a packet
  (\<^verbatim>\<open>RxModule::handleReceivedPacket\<close>) and \<^verbatim>\<open>S3TP::stop\<close>. The thread waits with \<^verbatim>\<open>s3tp_mutex\<close> for a condition
  the reception module signals under \<^verbatim>\<open>rx_mutex\<close>. A method that only reads a member under its mutex is a
  single read.
\<close>

section \<open>Parts of the operations\<close>

text \<open>The assembly thread behind the check for a message: consuming it, and handing it to the client.\<close>

definition assembly_deliver :: "int \<Rightarrow> int \<Rightarrow> int \<Rightarrow> RxMessage \<Rightarrow> S3TP \<Rightarrow> (SocketOp list \<times> S3TP) result" where
  "assembly_deliver w1 w2 w3 m s =
     (case clients s (msg_port m) of
        None \<Rightarrow> Inr ([], s\<lparr>clients := (clients s)(msg_port m \<mapsto> None)\<rparr>)
      | Some None \<Rightarrow> Inr ([], s)
      | Some (Some cli) \<Rightarrow>
          bind_res (under_clients_mutex (client_send w1 w2 w3 (msg_data m) (unat (msg_len m)) cli))
            (\<lambda>(rc, ops, cli'). Inr (ops, s\<lparr>clients := (clients s)(msg_port m \<mapsto> Some cli')\<rparr>)))"

lemma assembly_iteration_parts:
  assumes "s_active s" "rx_isActive (s_rx s) = Inr True" "isNewMessageAvailable (s_rx s) = Inr True"
  shows "assembly_iteration w1 w2 w3 s =
    (case getNextCompleteMessage (s_rx s) of
       None \<Rightarrow> None
     | Some (Inl e) \<Rightarrow> Some (Inl e)
     | Some (Inr (m, rx)) \<Rightarrow>
         Some (bind_res (assembly_deliver w1 w2 w3 m (s\<lparr>s_rx := rx\<rparr>)) (\<lambda>(ops, s'). Inr (AssemblyDone ops, s'))))"
  using assms
  by (simp add: assembly_iteration_def assembly_deliver_def bind_res_assoc Let_def case_prod_unfold split: option.split sum.split)

text \<open>
  The reception of a packet up to the point where it is stored: \<open>Some\<close> is an early return with its code
  and the callbacks.
\<close>

definition rx_store :: "S3TP_PACKET \<Rightarrow> RxModule \<Rightarrow> ((int \<times> StatusEvent list) option \<times> RxModule) result" where
  "rx_store packet r =
     bind_res (rx_isActive r) (\<lambda>active.
     if \<not> active then Inr (Some (MODULE_INACTIVE, []), r)
     else
       let hdr = p_header packet in
       bind_res (verify_checksum (Some (p_payload packet)) (getPduLength hdr) (h_crc hdr)) (\<lambda>valid.
       if \<not> valid then Inr (Some (CODE_ERROR_CRC_INVALID, []), r)
       else if getMessageType hdr = 0x03 then
         bind_res (sync_of_bytes (p_payload packet)) (\<lambda>s.
         bind_res (rx_synchronizeStatus s r) (\<lambda>(ev, r'). Inr (Some (CODE_SUCCESS, ev), r')))
       else if getMessageType hdr \<noteq> 0x00 then Inr (Some (CODE_ERROR_INVALID_TYPE, []), r)
       else
         bind_res (isPortOpen (getPort hdr) r) (\<lambda>portOpen.
         if \<not> portOpen then Inr (Some (CODE_ERROR_PORT_CLOSED, []), r)
         else
           bind_res (buf_write (rx_policy r) packet (inBuffer r)) (\<lambda>(rc, b).
           Inr (if rc \<noteq> CODE_SUCCESS then Some (rc, []) else None, r\<lparr>inBuffer := b\<rparr>)))))"

lemma handleReceivedPacket_parts:
  "handleReceivedPacket packet r =
     bind_res (rx_store packet r) (\<lambda>(early, r1).
       case early of Some (rc, evs) \<Rightarrow> Inr (rc, evs, r1)
       | None \<Rightarrow> bind_res (rx_window (getGlobalSequence (p_header packet)) (rx_announce (getPort (p_header packet)) r1))
           (\<lambda>r2. Inr (CODE_SUCCESS, [], r2)))"
  by (auto simp: handleReceivedPacket_def rx_store_def Let_def bind_res_def split: sum.splits prod.splits)

section \<open>Routines\<close>

datatype AsMutex = S3tpMutex | RxMutex | ClientsMutex
datatype AsCond = AvailableMsg

text \<open>The protocol object and the local variables of the threads.\<close>

record AsShared =
  as_s3tp :: S3TP
  as_msg :: "nat \<Rightarrow> RxMessage option"
  as_early :: "nat \<Rightarrow> bool"
  as_complete :: "nat \<Rightarrow> bool"

type_synonym as_instr = "(AsMutex, AsCond, AsShared) instr"

abbreviation as_rx :: "AsShared \<Rightarrow> RxModule" where "as_rx x \<equiv> s_rx (as_s3tp x)"

definition on_s3tp :: "(S3TP \<Rightarrow> S3TP) \<Rightarrow> as_instr" where
  "on_s3tp f = DO (\<lambda>i x. Inr (x\<lparr>as_s3tp := f (as_s3tp x)\<rparr>))"

definition is_running :: "AsShared \<Rightarrow> bool" where
  "is_running x \<longleftrightarrow> s_active (as_s3tp x) \<and> rx_active (as_rx x)"

definition message_there :: "AsShared \<Rightarrow> bool" where
  "message_there x \<longleftrightarrow> \<not> map_empty (available_messages (as_rx x))"

text \<open>\<open>getNextCompleteMessage\<close> always returns; see \<open>consumer_terminates\<close>.\<close>

definition do_consume :: "nat \<Rightarrow> AsShared \<Rightarrow> AsShared result" where
  "do_consume i x = (case getNextCompleteMessage (as_rx x) of
       None \<Rightarrow> Inl AssertFail
     | Some r \<Rightarrow> bind_res r (\<lambda>(m, rx).
         Inr (x\<lparr>as_s3tp := (as_s3tp x)\<lparr>s_rx := rx\<rparr>, as_msg := (as_msg x)(i := Some m)\<rparr>)))"

definition more_announced :: "nat \<Rightarrow> AsShared \<Rightarrow> bool" where
  "more_announced i x \<longleftrightarrow> (case as_msg x i of None \<Rightarrow> False
     | Some m \<Rightarrow> msg_error m = CODE_SUCCESS \<and> available_messages (as_rx x) (msg_port m) \<noteq> None)"

definition do_deliver :: "int \<Rightarrow> int \<Rightarrow> int \<Rightarrow> nat \<Rightarrow> AsShared \<Rightarrow> AsShared result" where
  "do_deliver w1 w2 w3 i x = (case as_msg x i of None \<Rightarrow> Inl NullDeref
     | Some m \<Rightarrow> bind_res (assembly_deliver w1 w2 w3 m (as_s3tp x)) (\<lambda>(ops, s). Inr (x\<lparr>as_s3tp := s\<rparr>)))"

text \<open>The wait of the reception module, entered at position \<open>k\<close> of a routine that goes on at \<open>k + 2\<close>.\<close>

definition th_waitForNextAvailableMessage :: "AsMutex \<Rightarrow> nat \<Rightarrow> as_instr list" where
  "th_waitForNextAvailableMessage callerMutex k =
    [GOIF (\<lambda>_ x. message_there x) (k + 2),
     WAIT AvailableMsg callerMutex]"

definition assemblyRoutine :: "int \<Rightarrow> int \<Rightarrow> int \<Rightarrow> as_instr list" where
  "assemblyRoutine w1 w2 w3 =
    [LOCK S3tpMutex,
     GOIF (\<lambda>_ x. \<not> is_running x) 18,
     GOIF (\<lambda>_ x. message_there x) 6] @
     th_waitForNextAvailableMessage S3tpMutex 3 @
    [GOTO 1,
     UNLOCK S3tpMutex,
     LOCK RxMutex,
     DO do_consume,
     GOIF (\<lambda>_ x. rx_mutex_held (as_rx x)) 13,
     GOIF (\<lambda>i x. \<not> more_announced i x) 12,
     SIGNAL AvailableMsg,
     UNLOCK RxMutex,
     LOCK ClientsMutex,
     DO (do_deliver w1 w2 w3),
     UNLOCK ClientsMutex,
     LOCK S3tpMutex,
     GOTO 1,
     UNLOCK S3tpMutex]"

definition do_store :: "(u8 \<Rightarrow> int \<times> int) \<Rightarrow> S3TP_PACKET \<Rightarrow> nat \<Rightarrow> AsShared \<Rightarrow> AsShared result" where
  "do_store w packet i x =
     bind_res (rx_store packet (as_rx x)) (\<lambda>(early, rx).
     bind_res (s3tp_statuses w (case early of None \<Rightarrow> [] | Some (rc, evs) \<Rightarrow> evs) ((as_s3tp x)\<lparr>s_rx := rx\<rparr>)) (\<lambda>s.
     Inr (x\<lparr>as_s3tp := s, as_early := (as_early x)(i := early \<noteq> None)\<rparr>)))"

definition do_announce :: "u8 \<Rightarrow> nat \<Rightarrow> AsShared \<Rightarrow> AsShared result" where
  "do_announce port i x =
     Inr (x\<lparr>as_s3tp := (as_s3tp x)\<lparr>s_rx := rx_announce port (as_rx x)\<rparr>,
            as_complete := (as_complete x)(i := fst (isCompleteMessageForPortAvailable port (as_rx x)))\<rparr>)"

definition do_window :: "u8 \<Rightarrow> nat \<Rightarrow> AsShared \<Rightarrow> AsShared result" where
  "do_window g i x = bind_res (rx_window g (as_rx x)) (\<lambda>rx. Inr (x\<lparr>as_s3tp := (as_s3tp x)\<lparr>s_rx := rx\<rparr>\<rparr>))"

definition th_handleReceivedPacket :: "(u8 \<Rightarrow> int \<times> int) \<Rightarrow> S3TP_PACKET \<Rightarrow> as_instr list" where
  "th_handleReceivedPacket w packet =
    [DO (do_store w packet),
     GOIF (\<lambda>i x. as_early x i) 8,
     LOCK RxMutex,
     DO (do_announce (getPort (p_header packet))),
     GOIF (\<lambda>i x. \<not> as_complete x i) 6,
     SIGNAL AvailableMsg,
     UNLOCK RxMutex,
     DO (do_window (getGlobalSequence (p_header packet)))]"

text \<open>\<open>j\<close> is the number of the assembly thread; the transmission thread has ended when \<^verbatim>\<open>stopRoutine\<close> returns.\<close>

definition th_stop :: "nat \<Rightarrow> as_instr list" where
  "th_stop j =
    [LOCK S3tpMutex,
     on_s3tp (\<lambda>s. s\<lparr>s_active := False\<rparr>),
     on_s3tp (\<lambda>s. s\<lparr>s_tx := stopRoutine (s_tx s)\<rparr>),
     LOCK RxMutex,
     on_s3tp (\<lambda>s. s\<lparr>s_rx := (s_rx s)\<lparr>rx_active := False\<rparr>\<rparr>),
     SIGNAL AvailableMsg,
     UNLOCK RxMutex,
     UNLOCK S3tpMutex,
     JOIN j,
     LOCK S3tpMutex,
     on_s3tp (\<lambda>s. s\<lparr>transceiver_started := False\<rparr>),
     UNLOCK S3tpMutex]"

datatype AsRole = AssemblyThread int int int | Receive "u8 \<Rightarrow> int \<times> int" S3TP_PACKET | StopMain

primrec as_code :: "AsRole \<Rightarrow> as_instr list" where
  "as_code (AssemblyThread w1 w2 w3) = assemblyRoutine w1 w2 w3"
| "as_code (Receive w packet) = th_handleReceivedPacket w packet"
| "as_code StopMain = th_stop 0"

section \<open>Stopping never goes unnoticed\<close>

definition is_assembly :: "AsRole \<Rightarrow> bool" where
  "is_assembly r \<longleftrightarrow> (\<exists>w1 w2 w3. r = AssemblyThread w1 w2 w3)"

fun as_hold :: "AsRole \<Rightarrow> nat \<Rightarrow> bool" where
  "as_hold (AssemblyThread w1 w2 w3) k \<longleftrightarrow> 1 \<le> k \<and> k \<le> 6 \<or> k = 17 \<or> k = 18"
| "as_hold (Receive w packet) k \<longleftrightarrow> False"
| "as_hold StopMain k \<longleftrightarrow> 1 \<le> k \<and> k \<le> 7 \<or> k = 10 \<or> k = 11"

definition as_pend :: "AsRole \<Rightarrow> nat \<Rightarrow> bool" where
  "as_pend r k \<longleftrightarrow> r = StopMain \<and> 2 \<le> k \<and> k \<le> 5"

definition as_safe :: "AsRole \<Rightarrow> nat \<Rightarrow> bool" where
  "as_safe r k \<longleftrightarrow> is_assembly r \<and> k \<in> {2, 3, 4, 6}"

lemmas as_code_defs = assemblyRoutine_def th_waitForNextAvailableMessage_def th_handleReceivedPacket_def th_stop_def on_s3tp_def

lemma s3tp_statuses_sync:
  "set evs \<subseteq> range OnSynchronization \<Longrightarrow> s3tp_statuses w evs s = Inr s' \<Longrightarrow> s_active s' = s_active s \<and> s_rx s' = s_rx s"
proof (induction evs arbitrary: s)
  case (Cons ev evs)
  from Cons.prems(1) obtain n where ev: "ev = OnSynchronization n" by auto
  with Cons.prems(2) obtain s1 where "onSynchronization n s = Inr s1" "s3tp_statuses w evs s1 = Inr s'"
    by (auto simp: s3tp_status_def)
  with Cons show ?case by (auto simp: onSynchronization_def s3tp_synchronizeStatus_def split: if_splits)
qed simp

lemma rx_store_keeps:
  assumes "rx_store packet r = Inr (early, r')"
  shows "rx_active r' = rx_active r" "early = Some (rc, evs) \<Longrightarrow> set evs \<subseteq> range OnSynchronization"
  using assms
  by (auto simp: rx_store_def rx_synchronizeStatus_def rx_locked_def Let_def split: if_splits)

lemma rx_window_active: "rx_window g r = Inr r' \<Longrightarrow> rx_active r' = rx_active r"
  by (auto simp: rx_window_def flushQueues_def Let_def split: if_splits)

lemma rx_announce_active: "rx_active (rx_announce p r) = rx_active r"
  by (auto simp: rx_announce_def isCompleteMessageForPortAvailable_def split: prod.split)

lemma getNextCompleteMessage_active: "getNextCompleteMessage r = Some (Inr (m, r')) \<Longrightarrow> rx_active r' = rx_active r"
  by (auto simp: getNextCompleteMessage_def rx_after_message_def isCompleteMessageForPortAvailable_def Let_def
      split: if_splits option.splits sum.splits prod.splits)

lemma as_parts_running:
  "do_consume i x = Inr y \<Longrightarrow> is_running y = is_running x"
  "do_deliver w1 w2 w3 i x = Inr y \<Longrightarrow> is_running y = is_running x"
  "do_store w p i x = Inr y \<Longrightarrow> is_running y = is_running x"
  "do_announce port i x = Inr y \<Longrightarrow> is_running y = is_running x"
  "do_window g i x = Inr y \<Longrightarrow> is_running y = is_running x"
proof -
  show "do_consume i x = Inr y \<Longrightarrow> is_running y = is_running x"
    by (auto simp: do_consume_def is_running_def dest: getNextCompleteMessage_active split: option.splits)
  show "do_deliver w1 w2 w3 i x = Inr y \<Longrightarrow> is_running y = is_running x"
    by (auto simp: do_deliver_def assembly_deliver_def is_running_def split: option.splits)
  show "is_running y = is_running x" if st: "do_store w p i x = Inr y"
  proof -
    from st obtain early rx s where s: "rx_store p (as_rx x) = Inr (early, rx)"
      "s3tp_statuses w (case early of None \<Rightarrow> [] | Some (rc, evs) \<Rightarrow> evs) ((as_s3tp x)\<lparr>s_rx := rx\<rparr>) = Inr s" "as_s3tp y = s"
      by (auto simp: do_store_def)
    have "set (case early of None \<Rightarrow> [] | Some (rc, evs) \<Rightarrow> evs) \<subseteq> range OnSynchronization"
      using rx_store_keeps(2) [OF s(1)] by (cases early) auto
    from s3tp_statuses_sync [OF this s(2)] rx_store_keeps(1) [OF s(1)] s(3) show ?thesis by (simp add: is_running_def)
  qed
  show "do_announce port i x = Inr y \<Longrightarrow> is_running y = is_running x"
    by (auto simp: do_announce_def is_running_def rx_announce_active)
  show "do_window g i x = Inr y \<Longrightarrow> is_running y = is_running x"
    by (auto simp: do_window_def is_running_def rx_window_active)
qed

interpretation as_stop: monitor as_code is_assembly S3tpMutex AvailableMsg is_running as_hold as_pend as_safe "\<lambda>_ _. True"
proof
  show "\<not> as_hold r 0" for r by (cases r) simp_all
  show "as_pend r k \<Longrightarrow> as_hold r k" for r k by (auto simp: as_pend_def)
  show "as_safe r k \<Longrightarrow> is_assembly r \<and> as_hold r k \<and> \<not> as_pend r k" for r k
    by (auto simp: as_safe_def as_pend_def is_assembly_def)
  show "disciplined (keeps_discipline is_assembly S3tpMutex AvailableMsg is_running as_hold as_pend as_safe (\<lambda>_ _. True) r) 0
    (as_code r)" for r
    by (cases r) (auto simp: as_code_defs as_pend_def as_safe_def is_assembly_def as_parts_running, (simp add: is_running_def)+)
qed

definition as_stop_assert :: "AsRole \<Rightarrow> nat \<Rightarrow> AsShared \<Rightarrow> bool" where
  "as_stop_assert r k x \<longleftrightarrow> (r = StopMain \<and> 2 \<le> k \<longrightarrow> \<not> is_running x)"

interpretation as_stopping: annotation as_code as_stop_assert
proof
  show "disciplined (establishes (as_stop_assert r)) 0 (as_code r)" for r
    by (cases r) (auto simp: as_code_defs as_stop_assert_def as_parts_running, (simp add: is_running_def)+)
  show "disciplined (keeps (as_stop_assert r) {as_stop_assert r' k' |r' k'. True}) 0 (as_code r)" for r
    by (cases r) (auto simp: as_code_defs as_stop_assert_def as_parts_running, (simp add: is_running_def)+)
qed

lemma as_code_nth:
  "assemblyRoutine w1 w2 w3 ! 0 = LOCK S3tpMutex"
  "assemblyRoutine w1 w2 w3 ! Suc 0 = GOIF (\<lambda>_ x. \<not> is_running x) 18"
  "assemblyRoutine w1 w2 w3 ! 2 = GOIF (\<lambda>_ x. message_there x) 6"
  "assemblyRoutine w1 w2 w3 ! 3 = GOIF (\<lambda>_ x. message_there x) 5"
  "assemblyRoutine w1 w2 w3 ! 4 = WAIT AvailableMsg S3tpMutex"
  "th_handleReceivedPacket w packet ! 0 = DO (do_store w packet)"
  "th_handleReceivedPacket w packet ! Suc 0 = GOIF (\<lambda>i x. as_early x i) 8"
  "th_handleReceivedPacket w packet ! 2 = LOCK RxMutex"
  "th_handleReceivedPacket w packet ! 3 = DO (do_announce (getPort (p_header packet)))"
  "th_handleReceivedPacket w packet ! 4 = GOIF (\<lambda>i x. \<not> as_complete x i) 6"
  "th_handleReceivedPacket w packet ! 5 = SIGNAL AvailableMsg"
  "th_handleReceivedPacket w packet ! 6 = UNLOCK RxMutex"
  "th_handleReceivedPacket w packet ! 7 = DO (do_window (getGlobalSequence (p_header packet)))"
  "length (assemblyRoutine w1 w2 w3) = 19" "length (th_handleReceivedPacket w packet) = 8"
  by (simp_all add: as_code_defs)

lemmas as_run_simps = thread_exec.simps next_instr_def as_code_nth jump_def numeral_2_eq_2 [symmetric] replicate_numeral

text \<open>What the parts of the reception do to the announced messages.\<close>

lemma rx_store_early: "rx_store packet r = Inr (Some (rc, []), r') \<Longrightarrow> rc \<noteq> 0"
  by (auto simp: rx_store_def rx_synchronizeStatus_def rx_locked_def Let_def split: if_splits)

lemma rx_store_available: "rx_store packet r = Inr (None, r') \<Longrightarrow> available_messages r' = available_messages r"
  by (auto simp: rx_store_def Let_def split: if_splits)

lemma rx_window_available: "rx_window g r = Inr r' \<Longrightarrow> available_messages r' = available_messages r"
  by (auto simp: rx_window_def flushQueues_def Let_def split: if_splits)

lemma rx_announce_available:
  "\<not> fst (isCompleteMessageForPortAvailable p r) \<Longrightarrow> available_messages (rx_announce p r) = available_messages r"
  by (auto simp: rx_announce_def isCompleteMessageForPortAvailable_def split: prod.splits)

section \<open>Properties\<close>

definition example_s3tp_rx :: S3TP where
  "example_s3tp_rx = \<lparr>s_active = True, s_tx = undefined, s_rx = example_rx, clients = Map.empty, disconnectedClients = [],
     transceiver_started = True\<rparr>"

definition example_as :: "S3TP \<Rightarrow> AsShared" where
  "example_as s = \<lparr>as_s3tp = s, as_msg = (\<lambda>_. None), as_early = (\<lambda>_. False), as_complete = (\<lambda>_. False)\<rparr>"

text \<open>C20. While \<^verbatim>\<open>S3TP::stop\<close> waits for the assembly thread to end, the thread is not asleep, whatever is received
  meanwhile: the stop holds \<^verbatim>\<open>s3tp_mutex\<close> from clearing the flag to the signal.\<close>

theorem stop_wakes_assembly_thread:
  assumes "(machine_step (map as_code (AssemblyThread w1 w2 w3 # calls)))\<^sup>*\<^sup>* (initial x) s"
    and "\<forall>r \<in> set calls. \<not> is_assembly r" "j < length calls" "calls ! j = StopMain" "pc s (Suc j) = 8"
    and "\<forall>i < length calls. calls ! i = StopMain \<longrightarrow> i = j"
  shows "mode s 0 \<noteq> Sleeping c m"
proof
  assume asleep: "mode s 0 = Sleeping c m"
  have one: "as_stop.one_waiter (AssemblyThread w1 w2 w3 # calls)"
    using assms(2) by (intro as_stop.one_waiter_Cons) auto
  have "\<not> is_running (shared s)"
    using as_stopping.annotated_reachable [OF assms(1)] assms(3-5)
    by (fastforce simp: as_stopping.annotated_def as_stop_assert_def dest: spec [of _ "Suc j"])
  with as_stop.no_missed_signal [OF one assms(1) _ asleep] obtain k where
    k: "k < Suc (length calls)" "as_pend ((AssemblyThread w1 w2 w3 # calls) ! k) (pc s k)" by auto
  then show False using assms(5,6) by (cases k) (auto simp: as_pend_def)
qed

theorem stop_wakes_assembly_thread_witness:
  "\<exists>x s. (machine_step (map as_code [AssemblyThread 1 1 1, StopMain]))\<^sup>*\<^sup>* (initial x) s \<and> pc s 1 = 8 \<and> pc s 0 = 5 \<and>
    mode s 0 \<noteq> Sleeping AvailableMsg S3tpMutex"
proof -
  let ?s0 = example_s3tp_rx
  let ?ps = "map as_code [AssemblyThread 1 1 1, StopMain]"
  obtain s where s: "thread_run ?ps (replicate 5 (Run 0) @ replicate 5 (Run 1) @ [Wake 1 0] @ replicate 2 (Run 1)) (initial (example_as ?s0)) = Some s"
    "pc s 1 = 8" "pc s 0 = 5"
    by (simp add: as_run_simps th_stop_def on_s3tp_def initial_def example_as_def is_running_def message_there_def
        example_s3tp_rx_def example_rx_def rx_new_def map_empty_iff)
  have "mode s 0 \<noteq> Sleeping AvailableMsg S3tpMutex"
    by (rule stop_wakes_assembly_thread [of 1 1 1 "[StopMain]", OF thread_run_steps [OF s(1)], where j = 0])
       (use s(2) in \<open>simp_all add: is_assembly_def\<close>)
  with s thread_run_steps [OF s(1)] show ?thesis by blast
qed

text \<open>C35. A message can be overlooked: the reception module signals under its own mutex, and when this happens between the
  second look of the assembly thread and its wait, the thread sleeps with a complete message announced and
  nobody left to wake it.\<close>

theorem received_message_can_be_overlooked:
  assumes "s_active s0" "rx_active (s_rx s0)" "map_empty (available_messages (s_rx s0))"
    and "handleReceivedPacket packet (s_rx s0) = Inr (0, [], r')" "\<not> map_empty (available_messages r')"
  shows "\<exists>s. (machine_step (map as_code [AssemblyThread w1 w2 w3, Receive w packet]))\<^sup>*\<^sup>* (initial (example_as s0)) s \<and>
    stuck (map as_code [AssemblyThread w1 w2 w3, Receive w packet]) s \<and> mode s 0 = Sleeping AvailableMsg S3tpMutex \<and>
    as_rx (shared s) = r' \<and> message_there (shared s)"
proof -
  let ?ps = "map as_code [AssemblyThread w1 w2 w3, Receive w packet]"
  let ?p = "getPort (p_header packet)"
  obtain early r1 where store: "rx_store packet (s_rx s0) = Inr (early, r1)"
    using assms(4) by (auto simp: handleReceivedPacket_parts)
  with assms(4) have "early = None" using rx_store_early [of packet "s_rx s0" 0 r1]
    by (cases early) (auto simp: handleReceivedPacket_parts)
  with store assms(4) have st: "rx_store packet (s_rx s0) = Inr (None, r1)"
    "rx_window (getGlobalSequence (p_header packet)) (rx_announce ?p r1) = Inr r'"
    by (simp_all add: handleReceivedPacket_parts)
  have c: "fst (isCompleteMessageForPortAvailable ?p r1)"
    using rx_store_available [OF st(1)] rx_window_available [OF st(2)] rx_announce_available [of ?p r1] assms(3,5) by metis
  obtain s where s: "thread_run ?ps (replicate 4 (Run 0) @ replicate 8 (Run 1) @ [Run 0]) (initial (example_as s0)) = Some s"
    "mode s 0 = Sleeping AvailableMsg S3tpMutex" "mode s 1 = Running" "pc s 1 = 8" "as_rx (shared s) = r'"
    using assms(1-3) st c
    by (simp add: as_run_simps initial_def example_as_def is_running_def message_there_def do_store_def do_announce_def
        do_window_def upt_rec)
  have "stuck ?ps s" by (rule stuckI) (use s in \<open>auto simp: halted_def less_Suc_eq as_code_nth\<close>)
  with s assms(5) thread_run_steps [OF s(1)] show ?thesis by (auto simp: message_there_def)
qed

theorem received_message_can_be_overlooked_witness:
  "\<exists>s. (machine_step (map as_code [AssemblyThread 1 1 1, Receive (\<lambda>_. (0, 0)) (example_fragment 0 0 False [1])]))\<^sup>*\<^sup>*
      (initial (example_as example_s3tp_rx)) s \<and>
    stuck (map as_code [AssemblyThread 1 1 1, Receive (\<lambda>_. (0, 0)) (example_fragment 0 0 False [1])]) s \<and> message_there (shared s)"
proof -
  let ?x = "example_fragment 0 0 False [1]"
  have "\<exists>r'. handleReceivedPacket ?x example_rx = Inr (0, [], r') \<and> rx_ok r' \<and> rx_took ?x example_rx r'"
    by (rule handleReceivedPacket_stores) (simp_all add: example_rx_ok example_fragment_ok)
  then obtain r' where r': "handleReceivedPacket ?x example_rx = Inr (0, [], r')" "rx_took ?x example_rx r'" by blast
  then have "rx_view r' 5 = [?x]" "current_port_sequence r' = current_port_sequence example_rx"
    "available_messages r' = (if complete r' 5 then [5 \<mapsto> 1] else Map.empty)"
    by (simp_all add: rx_took_def example_fragment_fields example_rx_ok stored_def Let_def)
  then have "\<not> map_empty (available_messages r')"
    by (simp add: complete_def example_rx_ok example_fragment_fields map_empty_iff)
  with received_message_can_be_overlooked [of example_s3tp_rx ?x r' 1 1 1 "\<lambda>_. (0, 0)"] r'(1) show ?thesis
    by (auto simp: example_s3tp_rx_def example_rx_ok map_empty_iff)
qed

end
