(* ===== verification/Client_Threads.thy ===== *)
theory Client_Threads
  imports Daemon Assembly_Threads
begin

text \<open>
  The life of a client across threads: its constructor, which starts the client thread before it registers
  the client (\<^verbatim>\<open>Client::Client\<close>, \<^verbatim>\<open>S3TP::onConnected\<close>), the end of the client thread (\<^verbatim>\<open>handleConnectionClosed\<close>,
  \<^verbatim>\<open>onDisconnected\<close>), the cleanup by the daemon, and the link callback that holds \<^verbatim>\<open>rx_mutex\<close> while it notifies
  the clients. The destruction of the protocol object is at the end.
\<close>

section \<open>Routines\<close>

text \<open>The protocol object, the client and whether its thread was created.\<close>

record ClShared =
  cs_s3tp :: S3TP
  cs_client :: Client
  cs_created :: bool

type_synonym cl_instr = "(AsMutex, AsCond, ClShared) instr"

definition do_create :: "S3TP_CONFIG \<Rightarrow> nat \<Rightarrow> ClShared \<Rightarrow> ClShared result" where
  "do_create cfg i x = Inr (x\<lparr>cs_client := fst (client_new cfg), cs_created := True\<rparr>)"

definition do_list :: "nat \<Rightarrow> ClShared \<Rightarrow> ClShared result" where
  "do_list i x = Inr (x\<lparr>cs_s3tp := (cs_s3tp x)\<lparr>clients := (clients (cs_s3tp x))(getAppPort (cs_client x) \<mapsto> Some (cs_client x))\<rparr>\<rparr>)"

definition do_open :: "nat \<Rightarrow> ClShared \<Rightarrow> ClShared result" where
  "do_open i x = bind_res (openPort (getAppPort (cs_client x)) (s_rx (cs_s3tp x)))
     (\<lambda>(rc, rx). Inr (x\<lparr>cs_s3tp := (cs_s3tp x)\<lparr>s_rx := rx\<rparr>\<rparr>))"

definition do_ask_sync :: "nat \<Rightarrow> ClShared \<Rightarrow> ClShared result" where
  "do_ask_sync i x = bind_res (s3tp_synchronizeStatus S3TP_SYNC_INITIATOR (cs_s3tp x)) (\<lambda>s. Inr (x\<lparr>cs_s3tp := s\<rparr>))"

definition th_newClient :: "S3TP_CONFIG \<Rightarrow> cl_instr list" where
  "th_newClient cfg =
    [DO (do_create cfg),
     LOCK ClientsMutex,
     DO do_list,
     UNLOCK ClientsMutex,
     LOCK RxMutex,
     DO do_open,
     UNLOCK RxMutex,
     LOCK ClientsMutex,
     DO do_ask_sync,
     UNLOCK ClientsMutex]"

text \<open>The map holds a pointer, so the end of the connection shows in the entry of the client when it is listed.\<close>

definition do_closed :: "nat \<Rightarrow> ClShared \<Rightarrow> ClShared result" where
  "do_closed i x =
     (case handleConnectionClosed (cs_client x) of (u, ops, calls, cli) \<Rightarrow>
        let s = cs_s3tp x; p = getAppPort cli
        in Inr (x\<lparr>cs_client := cli,
             cs_s3tp := s\<lparr>clients := (if clients s p = Some (Some (cs_client x)) then (clients s)(p \<mapsto> Some cli) else clients s)\<rparr>\<rparr>))"

definition do_report :: "nat \<Rightarrow> ClShared \<Rightarrow> ClShared result" where
  "do_report i x =
     Inr (x\<lparr>cs_s3tp := (cs_s3tp x)\<lparr>disconnectedClients := disconnectedClients (cs_s3tp x) @ [getAppPort (cs_client x)]\<rparr>\<rparr>)"

definition do_close :: "nat \<Rightarrow> ClShared \<Rightarrow> ClShared result" where
  "do_close i x = bind_res (closePort (getAppPort (cs_client x)) (s_rx (cs_s3tp x)))
     (\<lambda>(rc, rx). Inr (x\<lparr>cs_s3tp := (cs_s3tp x)\<lparr>s_rx := rx\<rparr>\<rparr>))"

definition th_clientEnds :: "cl_instr list" where
  "th_clientEnds =
    [GOIF (\<lambda>_ x. \<not> cs_created x) 0,
     DO do_closed,
     LOCK ClientsMutex,
     DO do_report,
     UNLOCK ClientsMutex,
     LOCK RxMutex,
     DO do_close,
     UNLOCK RxMutex]"

text \<open>\<open>j\<close> is the thread of the client, which \<^verbatim>\<open>kill\<close> waits for when the client is no longer connected.\<close>

definition to_clean :: "ClShared \<Rightarrow> bool" where
  "to_clean x \<longleftrightarrow> list_ex (\<lambda>p. case clients (cs_s3tp x) p of Some (Some cli) \<Rightarrow> \<not> connected cli | _ \<Rightarrow> False)
     (disconnectedClients (cs_s3tp x))"

definition do_clean :: "nat \<Rightarrow> ClShared \<Rightarrow> ClShared result" where
  "do_clean i x = bind_res (cleanupClients (cs_s3tp x)) (\<lambda>s. Inr (x\<lparr>cs_s3tp := s\<rparr>))"

definition th_cleanupClients :: "nat \<Rightarrow> cl_instr list" where
  "th_cleanupClients j =
    [LOCK ClientsMutex,
     GOIF (\<lambda>_ x. \<not> to_clean x) 3,
     JOIN j,
     DO do_clean,
     UNLOCK ClientsMutex]"

definition do_notify :: "(u8 \<Rightarrow> int \<times> int) \<Rightarrow> nat \<Rightarrow> ClShared \<Rightarrow> ClShared result" where
  "do_notify w i x = bind_res (notifyAvailabilityToClients w (cs_s3tp x)) (\<lambda>out. Inr x)"

definition is_listening :: "ClShared \<Rightarrow> bool" where
  "is_listening x \<longleftrightarrow> statusInterface (s_rx (cs_s3tp x))"

text \<open>The transmission thread is not part of this machine, the signal to it is left out.\<close>

definition th_handleLinkStatus :: "(u8 \<Rightarrow> int \<times> int) \<Rightarrow> bool \<Rightarrow> cl_instr list" where
  "th_handleLinkStatus w up =
    [LOCK RxMutex,
     GOIF (\<lambda>_ x. \<not> is_listening x \<or> \<not> up) 8,
     LOCK ClientsMutex,
     DO do_ask_sync,
     UNLOCK ClientsMutex,
     LOCK ClientsMutex,
     DO (do_notify w),
     UNLOCK ClientsMutex,
     UNLOCK RxMutex]"

lemma cl_nth:
  "th_newClient cfg ! 0 = DO (do_create cfg)" "th_newClient cfg ! Suc 0 = LOCK ClientsMutex" "th_newClient cfg ! 2 = DO do_list"
  "th_newClient cfg ! 3 = UNLOCK ClientsMutex" "th_newClient cfg ! 4 = LOCK RxMutex" "th_newClient cfg ! 5 = DO do_open"
  "th_newClient cfg ! 6 = UNLOCK RxMutex" "th_newClient cfg ! 7 = LOCK ClientsMutex" "th_newClient cfg ! 8 = DO do_ask_sync"
  "th_newClient cfg ! 9 = UNLOCK ClientsMutex" "length (th_newClient cfg) = 10"
  "th_clientEnds ! 0 = GOIF (\<lambda>_ x. \<not> cs_created x) 0" "th_clientEnds ! Suc 0 = DO do_closed" "th_clientEnds ! 2 = LOCK ClientsMutex"
  "th_clientEnds ! 3 = DO do_report" "th_clientEnds ! 4 = UNLOCK ClientsMutex" "th_clientEnds ! 5 = LOCK RxMutex"
  "th_clientEnds ! 6 = DO do_close" "th_clientEnds ! 7 = UNLOCK RxMutex" "length th_clientEnds = 8"
  "th_cleanupClients j ! 0 = LOCK ClientsMutex" "th_cleanupClients j ! Suc 0 = GOIF (\<lambda>_ x. \<not> to_clean x) 3"
  "th_cleanupClients j ! 2 = JOIN j" "th_cleanupClients j ! 3 = DO do_clean" "th_cleanupClients j ! 4 = UNLOCK ClientsMutex"
  "length (th_cleanupClients j) = 5"
  "th_handleLinkStatus w up ! 0 = LOCK RxMutex" "th_handleLinkStatus w up ! Suc 0 = GOIF (\<lambda>_ x. \<not> is_listening x \<or> \<not> up) 8"
  "th_handleLinkStatus w up ! 2 = LOCK ClientsMutex" "length (th_handleLinkStatus w up) = 9"
  by (simp_all add: th_newClient_def th_clientEnds_def th_cleanupClients_def th_handleLinkStatus_def)

lemmas cl_run_simps = thread_exec.simps next_instr_def cl_nth jump_def numeral_2_eq_2 [symmetric] replicate_numeral

lemma scheduleSync_some: "tx_ok t \<Longrightarrow> \<exists>t'. scheduleSync n t = Inr t'"
  by (auto simp: scheduleSync_def tx_ok_def sync_packet_ok_def)

text \<open>The state of the object after the thread of the client came first.\<close>

lemma closed_first:
  assumes "open_ports (s_rx s) (app_port c) = None" "rx_active (s_rx s)" "\<not> rx_mutex_held (s_rx s)"
  shows "clients s (app_port c) = None \<Longrightarrow>
      do_closed i \<lparr>cs_s3tp = s, cs_client = c, cs_created = b\<rparr> = Inr \<lparr>cs_s3tp = s, cs_client = c\<lparr>connected := False\<rparr>, cs_created = b\<rparr>"
    "do_close i \<lparr>cs_s3tp = s, cs_client = c, cs_created = b\<rparr> = Inr \<lparr>cs_s3tp = s, cs_client = c, cs_created = b\<rparr>"
  using assms by (simp_all add: do_closed_def do_close_def handleConnectionClosed_def Let_def getAppPort_def closePort_def rx_locked_def)


lemma sync_after_open:
  assumes "scheduleSync 0 (s_tx s) = Inr t" "clients s (app_port cl) \<noteq> None"
  shows "do_ask_sync i \<lparr>cs_s3tp = s, cs_client = cl, cs_created = b\<rparr> = Inr \<lparr>cs_s3tp = s\<lparr>s_tx := t\<rparr>, cs_client = cl, cs_created = b\<rparr>"
  using assms by (auto simp: do_ask_sync_def s3tp_synchronizeStatus_def map_empty_iff)

text \<open>All threads running, none with a mutex.\<close>

definition at_rest :: "(nat \<Rightarrow> nat) \<Rightarrow> S3TP \<Rightarrow> Client \<Rightarrow> (AsMutex, AsCond, ClShared) machine" where
  "at_rest pcs s c = \<lparr>shared = \<lparr>cs_s3tp = s, cs_client = c, cs_created = True\<rparr>, owner = (\<lambda>_. None), pc = pcs, mode = (\<lambda>_. Running)\<rparr>"

section \<open>Properties\<close>

text \<open>C37. A connection that ends while its client is still being registered leaves the port open for good: the thread of the
  client reports and closes the port first, then the constructor lists the client and opens the port. After
  the cleanup of the client the port is open without a client.\<close>

theorem early_disconnect_leaves_port_open:
  assumes "rx_active (s_rx s0)" "\<not> rx_mutex_held (s_rx s0)" "tx_ok (s_tx s0)" "open_ports (s_rx s0) (cfg_port cfg) = None"
    "clients s0 (cfg_port cfg) = None" "disconnectedClients s0 = []"
  shows "\<exists>s. (machine_step [th_newClient cfg, th_clientEnds, th_cleanupClients 1])\<^sup>*\<^sup>*
      (initial \<lparr>cs_s3tp = s0, cs_client = cl, cs_created = False\<rparr>) s \<and>
    list_all (halted [th_newClient cfg, th_clientEnds, th_cleanupClients 1] s) [0, 1, 2] \<and>
    clients (cs_s3tp (shared s)) (cfg_port cfg) = None \<and> open_ports (s_rx (cs_s3tp (shared s))) (cfg_port cfg) = Some 1"
proof -
  let ?ps = "[th_newClient cfg, th_clientEnds, th_cleanupClients 1]" and ?p = "cfg_port cfg"
  let ?c = "fst (client_new cfg)" and ?i = "initial \<lparr>cs_s3tp = s0, cs_client = cl, cs_created = False\<rparr> :: (AsMutex, AsCond, ClShared) machine"
  let ?rx = "(s_rx s0)\<lparr>open_ports := (open_ports (s_rx s0))(?p \<mapsto> 1)\<rparr>"
  from scheduleSync_some [OF assms(3)] obtain t where t: "scheduleSync 0 (s_tx s0) = Inr t" by blast
  let ?s1 = "s0\<lparr>disconnectedClients := [?p]\<rparr>"
  let ?s2 = "?s1\<lparr>clients := (clients s0)(?p \<mapsto> Some (?c\<lparr>connected := False\<rparr>)), s_rx := ?rx, s_tx := t\<rparr>"
  have c: "app_port ?c = ?p" "connected ?c" "client_if ?c" by (simp_all add: client_new_def)
  have run1: "thread_run ?ps (Run 0 # replicate 8 (Run 1)) ?i = Some (at_rest ((\<lambda>_. 0)(0 := 1, 1 := 8)) ?s1 (?c\<lparr>connected := False\<rparr>))"
    using assms c by (simp add: cl_run_simps initial_def do_create_def closed_first do_report_def getAppPort_def at_rest_def fun_upd_idem)
  have run2: "thread_run ?ps (replicate 9 (Run 0)) (at_rest ((\<lambda>_. 0)(0 := 1, 1 := 8)) ?s1 (?c\<lparr>connected := False\<rparr>)) =
      Some (at_rest ((\<lambda>_. 0)(1 := 8, 0 := 10)) ?s2 (?c\<lparr>connected := False\<rparr>))"
    using assms c t by (simp add: cl_run_simps do_list_def do_open_def openPort_def rx_locked_def sync_after_open getAppPort_def at_rest_def fun_upd_idem)
  have run3: "thread_run ?ps (replicate 5 (Run 2)) (at_rest ((\<lambda>_. 0)(1 := 8, 0 := 10)) ?s2 (?c\<lparr>connected := False\<rparr>)) =
      Some (at_rest ((\<lambda>_. 0)(1 := 8, 0 := 10, 2 := 5)) (?s2\<lparr>clients := clients s0, disconnectedClients := []\<rparr>) (?c\<lparr>connected := False\<rparr>))"
    using assms c by (simp add: cl_run_simps to_clean_def do_clean_def cleanupClients_def halted_def cl_nth
        client_kill_def isConnected_def under_clients_mutex_def getAppPort_def at_rest_def fun_upd_idem)
  have "thread_run ?ps ((Run 0 # replicate 8 (Run 1)) @ replicate 9 (Run 0) @ replicate 5 (Run 2)) ?i =
      Some (at_rest ((\<lambda>_. 0)(1 := 8, 0 := 10, 2 := 5)) (?s2\<lparr>clients := clients s0, disconnectedClients := []\<rparr>) (?c\<lparr>connected := False\<rparr>))"
    by (simp only: thread_run_append run1 run2 run3 bind.bind_lunit)
  note run = thread_run_steps [OF this]
  show ?thesis
    by (rule exI, rule conjI, rule run) (use assms(5) in \<open>simp add: at_rest_def halted_def cl_nth\<close>)
qed

definition example_ready :: "TxModule \<Rightarrow> S3TP" where
  "example_ready t = \<lparr>s_active = True, s_tx = t, s_rx = (rx_new True)\<lparr>statusInterface := True\<rparr>, clients = Map.empty,
     disconnectedClients = [], transceiver_started = True\<rparr>"

lemma example_ready_fields:
  "rx_active (s_rx (example_ready t))" "\<not> rx_mutex_held (s_rx (example_ready t))" "s_tx (example_ready t) = t"
  "open_ports (s_rx (example_ready t)) p = None" "clients (example_ready t) p = None" "disconnectedClients (example_ready t) = []"
  "statusInterface (s_rx (example_ready t))"
  by (simp_all add: example_ready_def rx_new_def)

abbreviation (input) example_cfg :: S3TP_CONFIG where "example_cfg \<equiv> \<lparr>cfg_port = 5, cfg_channel = 3, cfg_options = 0\<rparr>"

lemma example_tx_ok: "\<exists>t. tx_ok t"
  using tx_new_ok [of "example_packet []" False] by blast

theorem early_disconnect_leaves_port_open_witness:
  "\<exists>s0 cl s. (machine_step [th_newClient example_cfg, th_clientEnds, th_cleanupClients 1])\<^sup>*\<^sup>*
      (initial \<lparr>cs_s3tp = s0, cs_client = cl, cs_created = False\<rparr>) s \<and>
    clients (cs_s3tp (shared s)) 5 = None \<and> open_ports (s_rx (cs_s3tp (shared s))) 5 = Some 1"
proof -
  from example_tx_ok obtain t :: TxModule where "tx_ok t" by blast
  with early_disconnect_leaves_port_open [of "example_ready t" example_cfg undefined] show ?thesis
    by (auto simp: example_ready_fields)
qed

text \<open>C36. The cleanup waits for the thread of the client with \<^verbatim>\<open>clients_mutex\<close> held, the thread needs \<^verbatim>\<open>rx_mutex\<close> to
  close its port, and the link callback holds \<^verbatim>\<open>rx_mutex\<close> while it waits for \<^verbatim>\<open>clients_mutex\<close>: a client that leaves
  while the link comes up can bring the daemon to a halt.\<close>

theorem cleanup_can_deadlock:
  assumes "rx_active (s_rx s0)" "\<not> rx_mutex_held (s_rx s0)" "tx_ok (s_tx s0)" "open_ports (s_rx s0) (cfg_port cfg) = None"
    "statusInterface (s_rx s0)"
  shows "\<exists>s. (machine_step [th_newClient cfg, th_clientEnds, th_cleanupClients 1, th_handleLinkStatus w True])\<^sup>*\<^sup>*
      (initial \<lparr>cs_s3tp = s0, cs_client = cl, cs_created = False\<rparr>) s \<and>
    stuck [th_newClient cfg, th_clientEnds, th_cleanupClients 1, th_handleLinkStatus w True] s \<and>
    \<not> list_ex (halted [th_newClient cfg, th_clientEnds, th_cleanupClients 1, th_handleLinkStatus w True] s) [1, 2, 3] \<and>
    owner s ClientsMutex = Some 2 \<and> owner s RxMutex = Some 3"
proof -
  let ?ps = "[th_newClient cfg, th_clientEnds, th_cleanupClients 1, th_handleLinkStatus w True]" and ?p = "cfg_port cfg"
  let ?c = "fst (client_new cfg)" and ?i = "initial \<lparr>cs_s3tp = s0, cs_client = cl, cs_created = False\<rparr> :: (AsMutex, AsCond, ClShared) machine"
  let ?rx = "(s_rx s0)\<lparr>open_ports := (open_ports (s_rx s0))(?p \<mapsto> 1)\<rparr>"
  from scheduleSync_some [OF assms(3)] obtain t where t: "scheduleSync 0 (s_tx s0) = Inr t" by blast
  let ?s1 = "s0\<lparr>clients := (clients s0)(?p \<mapsto> Some ?c), s_rx := ?rx, s_tx := t\<rparr>"
  let ?s2 = "?s1\<lparr>clients := (clients s0)(?p \<mapsto> Some (?c\<lparr>connected := False\<rparr>)), disconnectedClients := disconnectedClients s0 @ [?p]\<rparr>"
  have c: "app_port ?c = ?p" "connected ?c" "client_if ?c" by (simp_all add: client_new_def)
  have run1: "thread_run ?ps (replicate 10 (Run 0)) ?i = Some (at_rest ((\<lambda>_. 0)(0 := 10)) ?s1 ?c)"
    using assms c t by (simp add: cl_run_simps initial_def do_create_def do_list_def do_open_def openPort_def rx_locked_def
        sync_after_open getAppPort_def at_rest_def fun_upd_idem)
  have run2: "thread_run ?ps (replicate 5 (Run 1)) (at_rest ((\<lambda>_. 0)(0 := 10)) ?s1 ?c) =
      Some (at_rest ((\<lambda>_. 0)(0 := 10, 1 := 5)) ?s2 (?c\<lparr>connected := False\<rparr>))"
    using c by (simp add: cl_run_simps do_closed_def handleConnectionClosed_def Let_def do_report_def getAppPort_def at_rest_def fun_upd_idem)
  obtain s where run3: "thread_run ?ps (replicate 2 (Run 3) @ replicate 2 (Run 2)) (at_rest ((\<lambda>_. 0)(0 := 10, 1 := 5)) ?s2 (?c\<lparr>connected := False\<rparr>)) = Some s"
    "owner s = (\<lambda>_. None)(RxMutex := Some 3, ClientsMutex := Some 2)" "pc s = (\<lambda>_. 0)(0 := 10, 1 := 5, 3 := 2, 2 := 2)" "mode s = (\<lambda>_. Running)"
    using assms(5) by (simp add: cl_run_simps at_rest_def is_listening_def to_clean_def)
  have "thread_run ?ps (replicate 10 (Run 0) @ replicate 5 (Run 1) @ replicate 2 (Run 3) @ replicate 2 (Run 2)) ?i = Some s"
    by (simp only: thread_run_append [of _ "replicate 10 _"] thread_run_append [of _ "replicate 5 _"] run1 run2 run3 bind.bind_lunit)
  moreover have "blocked ?ps s 0" "blocked ?ps s 1" "blocked ?ps s 2" "blocked ?ps s 3"
    using run3(2-4) by (simp_all add: blocked_def next_instr_def halted_def cl_nth)
  then have "stuck ?ps s"
    by (intro blocked_stuck) (metis One_nat_def Suc_1 less_Suc_eq length_Cons list.size(3) not_less0 numeral_3_eq_3)
  ultimately show ?thesis using thread_run_steps run3 by (intro exI [of _ s]) (simp add: halted_def cl_nth)
qed

theorem cleanup_can_deadlock_witness:
  "\<exists>s0 cl s. (machine_step [th_newClient example_cfg, th_clientEnds, th_cleanupClients 1, th_handleLinkStatus (\<lambda>_. (1, 1)) True])\<^sup>*\<^sup>*
      (initial \<lparr>cs_s3tp = s0, cs_client = cl, cs_created = False\<rparr>) s \<and>
    stuck [th_newClient example_cfg, th_clientEnds, th_cleanupClients 1, th_handleLinkStatus (\<lambda>_. (1, 1)) True] s"
proof -
  from example_tx_ok obtain t :: TxModule where "tx_ok t" by blast
  with cleanup_can_deadlock [of "example_ready t" example_cfg "\<lambda>_. (1, 1)" undefined] show ?thesis
    by (auto simp: example_ready_fields)
qed

section \<open>Destruction of the protocol object\<close>

text \<open>
  The loop of the destructor over the clients (the transceiver and the threads have been stopped before). \<open>joined\<close> lists
  the clients whose thread was waited for already; waiting for a thread a second time is undefined, its outcome is the
  argument \<open>rejoin\<close>. The entry of a client stays in the map.
\<close>

definition s3tp_kill_client :: "unit result \<Rightarrow> u8 list \<Rightarrow> u8 \<Rightarrow> S3TP \<Rightarrow> S3TP result" where
  "s3tp_kill_client rejoin joined port s =
     (case clients s port of
        Some (Some cli) \<Rightarrow> (case client_kill cli of (u, ops, calls, cli') \<Rightarrow>
          bind_res (listener_calls calls cli' (s\<lparr>clients := (clients s)(port \<mapsto> Some cli')\<rparr>)) (\<lambda>s'.
          bind_res (if port \<in> set joined then rejoin else Inr ()) (\<lambda>_. Inr s')))
      | _ \<Rightarrow> Inl NullDeref)"

partial_function (option) s3tp_kill_loop :: "unit result \<Rightarrow> u8 list \<Rightarrow> S3TP \<Rightarrow> S3TP result option" where
  "s3tp_kill_loop rejoin joined s =
     (case map_keys (clients s) of
        [] \<Rightarrow> Some (Inr s)
      | port # ports \<Rightarrow> (case s3tp_kill_client rejoin joined port s of
          Inl e \<Rightarrow> Some (Inl e)
        | Inr s' \<Rightarrow> s3tp_kill_loop rejoin (port # joined) s'))"

text \<open>
  The whole destructor: the object is stopped when it is active, the clients are killed, then the members are destroyed
  in the reverse order of their declaration, the reception module before the transmission module.
\<close>

definition s3tp_delete_members :: "S3TP \<Rightarrow> S3TP result" where
  "s3tp_delete_members s = bind_res (rx_delete (s_rx s)) (\<lambda>rx. Inr (s\<lparr>s_rx := rx, s_tx := tx_delete (s_tx s)\<rparr>))"

definition s3tp_delete :: "unit result \<Rightarrow> S3TP \<Rightarrow> S3TP result option" where
  "s3tp_delete rejoin s =
     (case (if s_active s then s3tp_stop s else Inr (CODE_SUCCESS, s)) of
        Inl e \<Rightarrow> Some (Inl e)
      | Inr (rc, s1) \<Rightarrow> (case s3tp_kill_loop rejoin [] s1 of
          Some (Inr s2) \<Rightarrow> Some (s3tp_delete_members s2)
        | r \<Rightarrow> r))"

lemma kill_client_lists:
  assumes "s3tp_kill_client rejoin joined port s = Inr s'"
  shows "dom (clients s') = dom (clients s)"
proof -
  have calls: "clients s2 = clients s1" if "listener_calls calls cli s1 = Inr s2" "set calls \<subseteq> {OnDisconnected}" for calls cli s1 s2
    using that by (induction calls arbitrary: s1) (auto simp: onDisconnected_def)
  from assms obtain cli u ops calls cli' where cli: "clients s port = Some (Some cli)" "client_kill cli = (u, ops, calls, cli')"
    "listener_calls calls cli' (s\<lparr>clients := (clients s)(port \<mapsto> Some cli')\<rparr>) = Inr s'"
    by (auto simp: s3tp_kill_client_def split: option.splits prod.splits if_splits)
  have "set calls \<subseteq> {OnDisconnected}" using cli(2) by (auto simp: client_kill_def closeConnection_def split: if_splits)
  from calls [OF cli(3) this] cli(1) show ?thesis by auto
qed

lemma map_keys_Nil: "map_keys m = [] \<longleftrightarrow> m = Map.empty"
  by (metis set_map_keys set_empty dom_eq_empty_conv)

lemma kill_loop_never_done:
  assumes "s3tp_kill_loop rejoin joined s = Some r"
  shows "\<forall>s'. r = Inr s' \<longrightarrow> clients s = Map.empty"
proof (rule s3tp_kill_loop.raw_induct [where P = "\<lambda>rejoin joined s r. \<forall>s'. r = Inr s' \<longrightarrow> clients s = Map.empty", OF _ assms])
  fix loop rejoin joined s r
  assume IH: "\<And>rejoin joined s r. loop rejoin joined s = Some r \<Longrightarrow> \<forall>s'. r = Inr s' \<longrightarrow> clients s = Map.empty"
    and r: "(case map_keys (clients s) of [] \<Rightarrow> Some (Inr s)
      | port # ports \<Rightarrow> (case s3tp_kill_client rejoin joined port s of Inl e \<Rightarrow> Some (Inl e) | Inr s' \<Rightarrow> loop rejoin (port # joined) s')) = Some r"
  show "\<forall>s'. r = Inr s' \<longrightarrow> clients s = Map.empty"
  proof (cases "map_keys (clients s)")
    case (Cons port ports)
    show ?thesis
    proof (cases "s3tp_kill_client rejoin joined port s")
      case (Inr s1)
      with Cons r have "loop rejoin (port # joined) s1 = Some r" by simp
      from IH [OF this] have "\<forall>s'. r = Inr s' \<longrightarrow> dom (clients s1) = {}" by simp
      then show ?thesis unfolding kill_client_lists [OF Inr] by simp
    qed (use Cons r in auto)
  qed (simp add: map_keys_Nil)
qed

lemma kill_loop_completes: "(\<exists>s'. s3tp_kill_loop rejoin [] s = Some (Inr s')) \<longleftrightarrow> clients s = Map.empty"
  using kill_loop_never_done [of rejoin "[]" s]
  by (auto simp: s3tp_kill_loop.simps [of rejoin "[]" s] map_keys_Nil [THEN iffD2])

lemma delete_members:
  "s3tp_delete_members s = Inr s' \<longleftrightarrow> \<not> rx_mutex_held (s_rx s) \<and>
     s' = s\<lparr>s_rx := (s_rx s)\<lparr>rx_active := False, inBuffer := buf_clear (inBuffer (s_rx s))\<rparr>, s_tx := tx_delete (s_tx s)\<rparr>"
  by (auto simp: s3tp_delete_members_def rx_delete_def stopModule_def rx_locked_def buf_delete_def)

lemma kill_loop_then_members:
  "(case s3tp_kill_loop rejoin [] s of Some (Inr s2) \<Rightarrow> Some (s3tp_delete_members s2) | r \<Rightarrow> r) = Some (Inr s') \<longleftrightarrow>
     clients s = Map.empty \<and> s3tp_delete_members s = Inr s'"
  using kill_loop_completes [of rejoin s]
  by (auto simp: s3tp_kill_loop.simps [of rejoin "[]" s] map_keys_Nil [THEN iffD2] split: option.splits sum.splits)


end
