(* ===== verification/Transceiver_Driver.thy ===== *)
theory Transceiver_Driver
  imports Simple_Queue Thread_Machine
begin

text \<open>
  The driver of the transceiver (\<^verbatim>\<open>drivers/move-transceiver/src/Transceiver.cpp\<close>, \<^verbatim>\<open>Transceiver_c.cpp\<close>), as far as it is
  written: the transfer of a packet over the SPI bus, the two threads, and the C interface.

  The SPI device and the GPIO pin are libraries outside the repository; what the driver calls of them is an
  argument: \<open>transfer\<close> is told the receive buffer, the send buffer and the length and yields its result, the
  new receive buffer and the new state of the device. Names the sources use without declaring them are
  arguments as well: \<^verbatim>\<open>crc\<close>, the type of an event with its \<^verbatim>\<open>type\<close>, and \<^verbatim>\<open>handleInterruptRequest\<close>.
\<close>

section \<open>State\<close>

datatype EVENTS = EVENT_INTR | EVENT_SEND

text \<open>\<open>'e\<close> are the events, \<open>'p\<close> the states of the pin. \<open>event\<close> is the local variable of the message thread.\<close>

record ('e, 'p) Transceiver =
  tr_active :: bool
  interruptPin :: 'p
  interruptHandler :: bool
  messageHandler :: bool
  events :: "'e list"
  recvBuf :: "u8 list"
  sendBuf :: "u8 list"
  event :: "'e option"

abbreviation (input) BUF_SIZE :: nat where "BUF_SIZE \<equiv> 4096"

text \<open>\<open>rbuf\<close> and \<open>sbuf\<close> are what the two arrays hold before anything was written to them.\<close>

definition transceiver_new :: "'p \<Rightarrow> u8 list \<Rightarrow> u8 list \<Rightarrow> ('e, 'p) Transceiver" where
  "transceiver_new pin rbuf sbuf = \<lparr>tr_active = False, interruptPin = pin, interruptHandler = False, messageHandler = False,
     events = [], recvBuf = rbuf, sendBuf = sbuf, event = None\<rparr>"

section \<open>The transfer of a packet\<close>

definition getCrc16 :: "u8 list \<Rightarrow> int \<Rightarrow> 16 word" where
  "getCrc16 data len = 0"

text \<open>An index of type \<^verbatim>\<open>int\<close> into a buffer.\<close>

definition buf_write :: "int \<Rightarrow> u8 \<Rightarrow> u8 list \<Rightarrow> u8 list result" where
  "buf_write i v buf = (if 0 \<le> i \<and> i < int (length buf) then Inr (buf[nat i := v]) else Inl OutOfBounds)"

type_synonym 'd spi = "u8 list \<Rightarrow> u8 list \<Rightarrow> int \<Rightarrow> 'd \<Rightarrow> bool \<times> u8 list \<times> 'd"

text \<open>The loop ignores what a transfer returns; it ends with \<^verbatim>\<open>i == 5\<close>. The result is that of the test after it.\<close>

datatype transfer_outcome = WrongArgument | TooManyErrors | PacketSent

function transfer_loop :: "'d spi \<Rightarrow> u8 list \<Rightarrow> int \<Rightarrow> nat \<Rightarrow> u8 list \<times> 'd \<Rightarrow> nat \<times> u8 list \<times> 'd" where
  "transfer_loop transfer sbuf packetSize i (rbuf, d) =
     (if i < 5 then case transfer rbuf sbuf packetSize d of (ok, rbuf', d') \<Rightarrow>
        transfer_loop transfer sbuf packetSize (Suc i) (rbuf', d')
      else (i, rbuf, d))"
  by pat_completeness auto
termination by (relation "measure (\<lambda>(_, _, _, i, _). 5 - i)") auto

declare transfer_loop.simps [simp del]

text \<open>The arithmetic is that of an \<^verbatim>\<open>int\<close> of 32 bits.\<close>

abbreviation (input) as_int32 :: "int \<Rightarrow> int" where "as_int32 \<equiv> signed_take_bit 31"

definition transferPacket ::
  "'d spi \<Rightarrow> int \<Rightarrow> int \<Rightarrow> ('e, 'p) Transceiver \<Rightarrow> 'd \<Rightarrow> (transfer_outcome \<times> ('e, 'p) Transceiver \<times> 'd) result" where
  "transferPacket transfer crc payloadSize t d =
     (let packetSize = as_int32 (payloadSize + 4)
      in if 4096 < packetSize then Inr (WrongArgument, t, d)
         else let crc16 = getCrc16 (sendBuf t) (payloadSize + 1)
         in bind_res (buf_write (as_int32 (payloadSize + 1)) (word_of_int (drop_bit 8 crc)) (sendBuf t)) (\<lambda>sbuf1.
            bind_res (buf_write (as_int32 (payloadSize + 2)) (word_of_int crc) sbuf1) (\<lambda>sbuf2.
            (case transfer_loop transfer sbuf2 packetSize 0 (recvBuf t, d) of (i, rbuf, d') \<Rightarrow>
               Inr (if i = 5 then TooManyErrors else PacketSent, t\<lparr>sendBuf := sbuf2, recvBuf := rbuf\<rparr>, d')))))"

section \<open>The threads\<close>

datatype TrMutex = EventsMutex
datatype TrCond = EventsCond

type_synonym ('e, 'p) tr_instr = "(TrMutex, TrCond, ('e, 'p) Transceiver) instr"

text \<open>The owner of the object: \<^verbatim>\<open>init\<close>, and later the destructor.\<close>

definition do_active :: "bool \<Rightarrow> nat \<Rightarrow> ('e, 'p) Transceiver \<Rightarrow> ('e, 'p) Transceiver result" where
  "do_active b i t = Inr (t\<lparr>tr_active := b\<rparr>)"

definition do_startInterrupt :: "nat \<Rightarrow> ('e, 'p) Transceiver \<Rightarrow> ('e, 'p) Transceiver result" where
  "do_startInterrupt i t = Inr (t\<lparr>interruptHandler := True\<rparr>)"

definition do_startMessage :: "nat \<Rightarrow> ('e, 'p) Transceiver \<Rightarrow> ('e, 'p) Transceiver result" where
  "do_startMessage i t = Inr (t\<lparr>messageHandler := True\<rparr>)"

definition transceiver_init :: "('e, 'p) tr_instr list" where
  "transceiver_init = [DO (do_active True), DO do_startInterrupt, DO do_startMessage]"

text \<open>\<open>m\<close> and \<open>i\<close> are the message thread and the interrupt thread.\<close>

definition transceiver_destroy :: "nat \<Rightarrow> nat \<Rightarrow> ('e, 'p) tr_instr list" where
  "transceiver_destroy m i = [DO (do_active False), JOIN m, JOIN i]"

text \<open>Lines of \<^verbatim>\<open>pop\<close>, with the lock of \<^verbatim>\<open>mlock\<close> released at the end of its scope; \<open>k\<close> is the position of the first.\<close>

definition do_pop :: "nat \<Rightarrow> ('e, 'p) Transceiver \<Rightarrow> ('e, 'p) Transceiver result" where
  "do_pop i t = (case events t of [] \<Rightarrow> Inl OutOfBounds | item # rest \<Rightarrow> Inr (t\<lparr>event := Some item, events := rest\<rparr>))"

definition events_pop :: "nat \<Rightarrow> ('e, 'p) tr_instr list" where
  "events_pop k =
    [LOCK EventsMutex,
     GOIF (\<lambda>_ t. events t \<noteq> []) (k + 4),
     WAIT EventsCond EventsMutex,
     GOTO (k + 1),
     DO do_pop,
     UNLOCK EventsMutex]"

text \<open>A thread stands before its first instruction until \<^verbatim>\<open>init\<close> has created it.\<close>

definition messageMethod ::
  "('e \<Rightarrow> EVENTS) \<Rightarrow> (nat \<Rightarrow> ('e, 'p) Transceiver \<Rightarrow> ('e, 'p) Transceiver result) \<Rightarrow> ('e, 'p) tr_instr list" where
  "messageMethod event_type handleInterruptRequest =
    [GOIF (\<lambda>_ t. \<not> messageHandler t) 0,
     GOIF (\<lambda>_ t. \<not> tr_active t) 11] @
    events_pop 2 @
    [GOIF (\<lambda>_ t. case event t of Some e \<Rightarrow> event_type e \<noteq> EVENT_INTR | None \<Rightarrow> True) 10,
     DO handleInterruptRequest,
     GOTO 1]"

text \<open>\<^verbatim>\<open>waitForEdge\<close> goes on when the pin yields a state behind an edge.\<close>

definition do_pin :: "('p \<Rightarrow> 'p) \<Rightarrow> nat \<Rightarrow> ('e, 'p) Transceiver \<Rightarrow> ('e, 'p) Transceiver result" where
  "do_pin f i t = Inr (t\<lparr>interruptPin := f (interruptPin t)\<rparr>)"

definition interruptMethod ::
  "('p \<Rightarrow> 'p) \<Rightarrow> ('p \<Rightarrow> 'p) \<Rightarrow> ('p \<Rightarrow> 'p option) \<Rightarrow> ('p \<Rightarrow> bool) \<Rightarrow> ('e, 'p) tr_instr list" where
  "interruptMethod setDirection setEdgeTrigger waitForEdge readPin =
    [GOIF (\<lambda>_ t. \<not> interruptHandler t) 0,
     DO (do_pin setDirection),
     DO (do_pin setEdgeTrigger),
     GOIF (\<lambda>_ t. \<not> tr_active t) 8,
     GOIF (\<lambda>_ t. waitForEdge (interruptPin t) = None) 4,
     DO (do_pin (\<lambda>p. case waitForEdge p of Some p' \<Rightarrow> p' | None \<Rightarrow> p)),
     GOIF (\<lambda>_ t. \<not> readPin (interruptPin t)) 7,
     GOTO 3]"

section \<open>The C interface\<close>

record transceiver_msg =
  m_arq :: bool
  m_channel :: int
  m_data :: "u8 list"
  m_length :: int

text \<open>\<open>'f\<close> are the callbacks; calling one is reported with its argument.\<close>

record ('e, 'p, 'f) CTransceiver =
  base :: "('e, 'p) Transceiver"
  cb :: "'f option"

definition CTransceiver_create :: "'p \<Rightarrow> u8 list \<Rightarrow> u8 list \<Rightarrow> ('e, 'p, 'f) CTransceiver" where
  "CTransceiver_create pin rbuf sbuf = \<lparr>base = transceiver_new pin rbuf sbuf, cb = None\<rparr>"

definition CTransceiver_setCallbackRecv :: "'f \<Rightarrow> ('e, 'p, 'f) CTransceiver \<Rightarrow> ('e, 'p, 'f) CTransceiver" where
  "CTransceiver_setCallbackRecv f obj = obj\<lparr>cb := Some f\<rparr>"

definition CTransceiver_handleFrame ::
  "bool \<Rightarrow> int \<Rightarrow> u8 list \<Rightarrow> int \<Rightarrow> ('e, 'p, 'f) CTransceiver \<Rightarrow> ('f \<times> transceiver_msg) list" where
  "CTransceiver_handleFrame arq channel data len obj = (case cb obj of
       None \<Rightarrow> []
     | Some f \<Rightarrow> [(f, \<lparr>m_arq = arq, m_channel = channel, m_data = data, m_length = len\<rparr>)])"

text \<open>\<^verbatim>\<open>Transceiver::sendFrame\<close> has no body yet: it leaves the object as it is, and returns nothing.\<close>

definition transceiver_sendFrame :: "transceiver_msg \<Rightarrow> ('e, 'p) Transceiver \<Rightarrow> ('e, 'p) Transceiver" where
  "transceiver_sendFrame msg t = t"

definition CTransceiver_sendFrame :: "transceiver_msg \<Rightarrow> ('e, 'p, 'f) CTransceiver \<Rightarrow> ('e, 'p, 'f) CTransceiver" where
  "CTransceiver_sendFrame msg obj = obj\<lparr>base := transceiver_sendFrame msg (base obj)\<rparr>"


text \<open>The calls that start the driver and that delete it are those of the object.\<close>

definition CTransceiver_init :: "('e, 'p) tr_instr list" where
  "CTransceiver_init = transceiver_init"

definition CTransceiver_destroy :: "nat \<Rightarrow> nat \<Rightarrow> ('e, 'p) tr_instr list" where
  "CTransceiver_destroy m i = transceiver_destroy m i"

section \<open>Properties of the transfer\<close>

definition one_transfer :: "'d spi \<Rightarrow> u8 list \<Rightarrow> int \<Rightarrow> u8 list \<times> 'd \<Rightarrow> u8 list \<times> 'd" where
  "one_transfer transfer sbuf n = (\<lambda>(rbuf, d). snd (transfer rbuf sbuf n d))"

lemma transfer_loop_runs_out:
  "i \<le> 5 \<Longrightarrow> transfer_loop transfer sbuf n i s = (5, (one_transfer transfer sbuf n ^^ (5 - i)) s)"
proof (induction transfer sbuf n i "s" rule: transfer_loop.induct)
  case (1 transfer sbuf n i rbuf d)
  show ?case
  proof (cases "i < 5")
    case True
    then have "5 - i = Suc (5 - Suc i)" by simp
    with True 1 show ?thesis
      by (simp add: transfer_loop.simps [of _ _ _ i] one_transfer_def funpow_swap1 split: prod.splits)
  next
    case False
    with 1(2) have "i = 5" by simp
    then show ?thesis by (simp add: transfer_loop.simps [of _ _ _ 5])
  qed
qed

lemma as_int32_id: "- (2 ^ 31) \<le> n \<Longrightarrow> n < 2 ^ 31 \<Longrightarrow> signed_take_bit 31 n = (n :: int)"
  by (simp add: signed_take_bit_int_eq_self)

lemma as_int32_wraps:
  assumes "2 ^ 31 \<le> n" "n < 2 ^ 32"
  shows "signed_take_bit 31 n = (n - 2 ^ 32 :: int)"
proof -
  have "(n + 2 ^ 31) mod 2 ^ 32 = (n - 2 ^ 31) mod 2 ^ 32"
    using mod_add_self2 [of "n - 2 ^ 31" "2 ^ 32 :: int"] by (simp add: add.commute)
  also have "\<dots> = n - 2 ^ 31" using assms by (intro mod_pos_pos_trivial) simp_all
  finally show ?thesis by (simp add: signed_take_bit_eq_take_bit_shift take_bit_eq_mod)
qed

definition transfer_bytes :: "int \<Rightarrow> int \<Rightarrow> u8 list \<Rightarrow> u8 list" where
  "transfer_bytes crc n buf = buf[nat (n + 1) := word_of_int (drop_bit 8 crc), nat (n + 2) := word_of_int crc]"

text \<open>A packet is transferred exactly when its payload and the four bytes of overhead fit the buffer and its size
  is not below -1: the two bytes of the checksum go behind the payload, nothing else of the send buffer changes,
  and the bus makes five transfers, so that the outcome is always an error. A larger payload is refused; a size
  below -1, or one whose addition overflows, writes outside the buffer.\<close>

theorem transferPacket_bounds:
  assumes "length (sendBuf t) = BUF_SIZE" "- (2 ^ 31) \<le> n" "n < 2 ^ 31"
  shows "transferPacket transfer crc n t d =
    (if n < -1 \<or> 2 ^ 31 - 4 \<le> n then Inl OutOfBounds
     else if 4092 < n then Inr (WrongArgument, t, d)
     else let sbuf = transfer_bytes crc n (sendBuf t);
              (rbuf, d') = (one_transfer transfer sbuf (n + 4) ^^ 5) (recvBuf t, d)
          in Inr (TooManyErrors, t\<lparr>sendBuf := sbuf, recvBuf := rbuf\<rparr>, d'))"
proof (cases "n < 2 ^ 31 - 4")
  case True
  then have "as_int32 (n + 1) = n + 1" "as_int32 (n + 2) = n + 2" "as_int32 (n + 4) = n + 4"
    using assms by (auto intro!: as_int32_id)
  with True assms show ?thesis
    by (auto simp: transferPacket_def Let_def buf_write_def transfer_loop_runs_out transfer_bytes_def split: prod.splits)
next
  case False
  then have "as_int32 (n + 4) = n + 4 - 2 ^ 32" using assms by (intro as_int32_wraps) simp_all
  moreover have "\<not> (0 \<le> as_int32 (n + 1) \<and> as_int32 (n + 1) < int (length (sendBuf t)))"
  proof (cases "n + 1 < 2 ^ 31")
    case True
    with False assms(1) show ?thesis by (subst (1 2) as_int32_id) simp_all
  next
    case ge: False
    with assms show ?thesis by (subst (1 2) as_int32_wraps) simp_all
  qed
  then have "buf_write (as_int32 (n + 1)) v (sendBuf t) = Inl OutOfBounds" for v
    unfolding buf_write_def by (rule if_not_P)
  ultimately show ?thesis using False assms(3) by (simp add: transferPacket_def Let_def)
qed

theorem transferPacket_bounds_witness:
  "transferPacket (\<lambda>rbuf sbuf n d. (True, rbuf, Suc d)) 0 4092
      (transceiver_new () (replicate BUF_SIZE 0) (replicate BUF_SIZE 0) :: (unit, unit) Transceiver) (0 :: nat) =
     Inr (TooManyErrors, transceiver_new () (replicate BUF_SIZE 0) (replicate BUF_SIZE 0), 5)"
proof -
  have "(one_transfer (\<lambda>rbuf sbuf n d. (True, rbuf, Suc d)) sbuf n ^^ k) (rbuf, 0) = (rbuf, k)" for sbuf n k rbuf
    by (induction k) (simp_all add: one_transfer_def)
  moreover have "(replicate BUF_SIZE (0 :: u8))[4093 := 0, 4094 := 0] = replicate BUF_SIZE 0"
    by (rule nth_equalityI) (simp_all add: nth_list_update)
  ultimately show ?thesis
    using transferPacket_bounds [of "transceiver_new () (replicate BUF_SIZE 0) (replicate BUF_SIZE 0) :: (unit, unit) Transceiver"
      4092 "\<lambda>rbuf sbuf n d. (True, rbuf, Suc d)" 0 "0 :: nat"]
    by (simp add: transceiver_new_def transfer_bytes_def list_update_same_conv Let_def)
qed

section \<open>Properties of the threads\<close>

datatype TrRole = Owner | MessageThread | InterruptThread

text \<open>The calls of the libraries the threads make, and the handler of interrupts.\<close>

record ('e, 'p) tr_calls =
  c_type :: "'e \<Rightarrow> EVENTS"
  c_handle :: "nat \<Rightarrow> ('e, 'p) Transceiver \<Rightarrow> ('e, 'p) Transceiver result"
  c_setDirection :: "'p \<Rightarrow> 'p"
  c_setEdgeTrigger :: "'p \<Rightarrow> 'p"
  c_waitForEdge :: "'p \<Rightarrow> 'p option"
  c_readPin :: "'p \<Rightarrow> bool"

fun tr_code :: "('e, 'p) tr_calls \<Rightarrow> TrRole \<Rightarrow> ('e, 'p) tr_instr list" where
  "tr_code c Owner = CTransceiver_init @ CTransceiver_destroy 1 2"
| "tr_code c MessageThread = messageMethod (c_type c) (c_handle c)"
| "tr_code c InterruptThread = interruptMethod (c_setDirection c) (c_setEdgeTrigger c) (c_waitForEdge c) (c_readPin c)"

abbreviation tr_threads :: "('e, 'p) tr_calls \<Rightarrow> ('e, 'p) tr_instr list list" where
  "tr_threads c \<equiv> map (tr_code c) [Owner, MessageThread, InterruptThread]"

lemmas tr_code_defs = CTransceiver_init_def CTransceiver_destroy_def transceiver_init_def transceiver_destroy_def messageMethod_def events_pop_def interruptMethod_def

text \<open>Nothing of the driver pushes an event, so the message thread never gets behind its first \<^verbatim>\<open>pop\<close>.\<close>

definition tr_assert :: "TrRole \<Rightarrow> nat \<Rightarrow> ('e, 'p) Transceiver \<Rightarrow> bool" where
  "tr_assert r k t \<longleftrightarrow> events t = [] \<and> (r = MessageThread \<longrightarrow> k \<notin> {6..10})"

interpretation driver: annotation "tr_code c" tr_assert for c :: "('e, 'p) tr_calls"
proof
  show "disciplined (establishes (tr_assert r)) 0 (tr_code c r)" for r
    by (cases r) (auto simp: tr_code_defs tr_assert_def do_active_def do_startInterrupt_def do_startMessage_def do_pin_def do_pop_def)
  show "disciplined (keeps (tr_assert r) {tr_assert r' k' |r' k'. True}) 0 (tr_code c r)" for r
    by (cases r) (auto simp: tr_code_defs tr_assert_def do_active_def do_startInterrupt_def do_startMessage_def do_pin_def do_pop_def)
qed

text \<open>The positions of the message thread in \<^verbatim>\<open>pop\<close>, and those of the owner up to its first join.\<close>

definition in_pop :: "nat \<Rightarrow> nat set" where
  "in_pop i = (if i = 0 then {..4} else if i = 1 then {2..5} else UNIV)"

lemma pop_is_a_trap: "annotation.trap (tr_code c) tr_assert [Owner, MessageThread, InterruptThread] in_pop"
  by (auto simp: driver.trap_def in_pop_def tr_code_defs tr_assert_def nth_Cons' less_Suc_eq numeral_eq_Suc)

lemma pop_never_returns:
  assumes "(machine_step (tr_threads c))\<^sup>*\<^sup>* (initial x) s" "events x = []" "pc s 0 \<le> 4" "pc s 1 \<in> {2..5}"
    and "(machine_step (tr_threads c))\<^sup>*\<^sup>* s s'"
  shows "\<not> halted (tr_threads c) s' 0"
proof -
  let ?rs = "[Owner, MessageThread, InterruptThread]"
  have "annotation.annotated tr_assert ?rs s"
    using driver.annotated_reachable [OF assms(1)] assms(2) by (auto simp: tr_assert_def)
  with assms(3,4) have "annotation.caught tr_assert ?rs in_pop s"
    by (auto simp: driver.caught_def in_pop_def less_Suc_eq numeral_eq_Suc)
  from driver.caught_forever [OF pop_is_a_trap assms(5) this]
  have "annotation.caught tr_assert ?rs in_pop s'" .
  moreover have "in_pop 0 \<subseteq> {..<length (tr_threads c ! 0)}"
    by (auto simp: in_pop_def tr_code_defs)
  ultimately show ?thesis by (rule driver.not_halted_caught) simp
qed

lemma tr_nth:
  "tr_code c Owner ! 0 = DO (do_active True)" "tr_code c Owner ! Suc 0 = DO do_startInterrupt" "tr_code c Owner ! 2 = DO do_startMessage"
  "tr_code c Owner ! 3 = DO (do_active False)" "length (tr_code c Owner) = 6"
  "tr_code c MessageThread ! 0 = GOIF (\<lambda>_ t. \<not> messageHandler t) 0" "tr_code c MessageThread ! Suc 0 = GOIF (\<lambda>_ t. \<not> tr_active t) 11"
  "tr_code c MessageThread ! 2 = LOCK EventsMutex" "tr_code c MessageThread ! 3 = GOIF (\<lambda>_ t. events t \<noteq> []) 6"
  "tr_code c MessageThread ! 4 = WAIT EventsCond EventsMutex" "length (tr_code c MessageThread) = 11"
  by (simp_all add: tr_code_defs numeral_eq_Suc)

text \<open>C39. The destructor clears \<^verbatim>\<open>active\<close> and waits for the message thread, but nothing wakes that thread up from an empty
  queue: when it went to sleep in \<^verbatim>\<open>pop\<close> before, the destructor never returns, whatever order the threads run in and
  however often the wait ends by itself.\<close>

theorem destructor_can_wait_forever:
  assumes "events x = []"
  shows "\<exists>s. (machine_step (tr_threads c))\<^sup>*\<^sup>* (initial x) s \<and> \<not> tr_active (shared s) \<and>
    next_instr (tr_threads c) s 0 = Some (JOIN 1) \<and> mode s 1 = Sleeping EventsCond EventsMutex \<and>
    (\<forall>s'. (machine_step (tr_threads c))\<^sup>*\<^sup>* s s' \<longrightarrow> \<not> halted (tr_threads c) s' 0)"
proof -
  let ?t = "x\<lparr>tr_active := False, interruptHandler := True, messageHandler := True\<rparr>"
  let ?s = "\<lparr>shared = ?t, owner = (\<lambda>_. None), pc = (\<lambda>_. 0)(1 := 5, 0 := 4),
     mode = (\<lambda>_. Running)(1 := Sleeping EventsCond EventsMutex)\<rparr> :: (TrMutex, TrCond, ('a, 'b) Transceiver) machine"
  have "thread_run (tr_threads c) (replicate 3 (Run 0) @ replicate 5 (Run 1) @ [Run 0]) (initial x) = Some ?s"
    using assms by (simp add: thread_exec.simps next_instr_def tr_nth jump_def numeral_2_eq_2 [symmetric] replicate_numeral
        initial_def do_active_def do_startInterrupt_def do_startMessage_def fun_upd_twist fun_upd_idem
        del: tr_code.simps)
  note run = thread_run_steps [OF this]
  have "next_instr (tr_threads c) ?s 0 = Some (JOIN 1)" by (simp add: next_instr_def tr_code_defs)
  moreover note pop_never_returns [OF run assms]
  ultimately show ?thesis using run by (intro exI [of _ ?s]) simp
qed

definition example_calls :: "(EVENTS, bool) tr_calls" where
  "example_calls = \<lparr>c_type = id, c_handle = (\<lambda>_ t. Inr t), c_setDirection = id, c_setEdgeTrigger = id,
     c_waitForEdge = (\<lambda>p. if p then Some False else None), c_readPin = id\<rparr>"

theorem destructor_can_wait_forever_witness:
  "\<exists>s. (machine_step (tr_threads example_calls))\<^sup>*\<^sup>*
       (initial (transceiver_new True (replicate BUF_SIZE 0) (replicate BUF_SIZE 0))) s \<and> \<not> tr_active (shared s) \<and>
    (\<forall>s'. (machine_step (tr_threads example_calls))\<^sup>*\<^sup>* s s' \<longrightarrow> \<not> halted (tr_threads example_calls) s' 0)"
  using destructor_can_wait_forever [of "transceiver_new True (replicate BUF_SIZE 0) (replicate BUF_SIZE 0)" example_calls]
  by (fastforce simp: transceiver_new_def)

section \<open>Properties of the C interface\<close>

text \<open>A frame reaches the application only after it has set a callback, and then with the values it came with;
  what is given to \<^verbatim>\<open>sendFrame\<close> is not queued anywhere.\<close>

theorem c_interface_calls:
  "CTransceiver_handleFrame arq channel data len (CTransceiver_create pin rbuf sbuf) = []"
  "CTransceiver_handleFrame arq channel data len (CTransceiver_setCallbackRecv f obj) =
     [(f, \<lparr>m_arq = arq, m_channel = channel, m_data = data, m_length = len\<rparr>)]"
  "events (base (CTransceiver_sendFrame msg obj)) = events (base obj)"
  by (simp_all add: CTransceiver_handleFrame_def CTransceiver_create_def CTransceiver_setCallbackRecv_def
      CTransceiver_sendFrame_def transceiver_sendFrame_def)

end
