(* ===== verification/Spec2Isabelle.thy ===== *)
theory Spec2Isabelle
  imports Applications Port_Streams Lossy_Link Linked_Reception Daemon Message_Sampler Programs Debug_Tests Test_Client Ethernet Lock_Order Tx_Threads Client_Threads
    Transceiver_Driver
begin

text \<open>
  \<^bold>\<open>S3TP: a verification development.\<close>

  S3TP is a transport protocol between two nodes with a slow framed link. Applications on a node connect
  to a daemon over a local socket, each on its own port. The daemon splits their messages into packets,
  numbers them per port and globally, and hands them to the link one at a time; on the other node
  packets are checked, put back into order per port, assembled and written to the application that is
  connected to the port. A synchronization packet tells the peer the sequence numbers in use.

  \<^bold>\<open>Parts and theories.\<close> State is a record with the members of the class, a method is a function that
  returns its result and the new state, a thread loop is one function per pass. What the source leaves
  undefined or never returns from is a value of the type \<open>fault\<close>. Machine integers are words.

  \<^item> \<open>S3TP_Prelude\<close>: integer types, faults, \<^verbatim>\<open>std::map\<close> with one-byte keys, shared lemmas.
  \<^item> \<open>Packet_Format\<close> (\<^verbatim>\<open>core/CommonTypes.h\<close>): header fields bit by bit, packets, frames, the
    synchronization structure, with the laws of the accessors as locales.
  \<^item> \<open>Checksum\<close> (\<^verbatim>\<open>core/utilities.cpp\<close>): the bit-serial checksum, shown to be the reflected CRC-16, and
    what it detects.
  \<^item> \<open>Shared_Codec\<close> (\<^verbatim>\<open>core/S3tpShared.*\<close>): the triplicated length and the redundant control bytes.
  \<^item> \<open>Priority_Queue\<close>, \<open>Linked_Queue\<close> (\<^verbatim>\<open>core/PriorityQueue.h\<close>): the queue as a sequence and with its
    nodes and pointers; both honour the locale \<open>queue_contract\<close>, the second refines the first.
    \<open>Linked_Reception\<close>: the one search of the reception module that follows these pointers.
  \<^item> \<open>Packet_Buffer\<close> (\<^verbatim>\<open>core/Buffer.*\<close>): one queue per port; the locale \<open>packet_store\<close> is what the modules
    rely on.
  \<^item> \<open>Tx_Module\<close> (\<^verbatim>\<open>core/TxModule.*\<close>): numbering, the transmission thread, synchronization frames; every
    run is a derivation of \<open>tx_run\<close>.
  \<^item> \<open>Rx_Module\<close> (\<^verbatim>\<open>core/RxModule.*\<close>): reception, reordering, completeness, consumption, windows.
  \<^item> \<open>Client_Session\<close> (\<^verbatim>\<open>core/Client.*\<close>): the daemon's end of an application connection; the locale
    \<open>client_listener\<close> is what it needs of the protocol object.
  \<^item> \<open>Connector\<close> (\<^verbatim>\<open>connector/S3tpConnector.*\<close>): the application's end, with the blocking send as a machine
    of two waits.
  \<^item> \<open>S3tp_Main\<close> (\<^verbatim>\<open>core/S3TP.*\<close>): the protocol object, with fragmentation, delivery and callbacks.
  \<^item> \<open>Daemon\<close> (\<^verbatim>\<open>core/TransportDaemon.*\<close>): the accept loop, and the step relation of the running daemon.
  \<^item> \<open>End_To_End\<close>, \<open>Port_Streams\<close>, \<open>Lossy_Link\<close>, \<open>Applications\<close> and this theory: two protocol objects, a link
    that reorders or loses frames, several ports at once, and the connectors and client threads at both ends.
  \<^item> \<open>Lock_Order\<close>: the mutex operations of the calls of a module, its buffer and its queues on every branch,
    and threads that interleave.
  \<^item> \<open>Thread_Machine\<close>: threads with mutexes, condition variables and joins, instruction by instruction; the
    locale \<open>monitor\<close> is a discipline under which no signal is missed, \<open>annotation\<close> is for assertions that
    hold at a position, and for threads that never leave a set of positions. \<open>Tx_Threads\<close>, \<open>Assembly_Threads\<close> and \<open>Client_Threads\<close> are the routines of the
    transmission module, of the protocol object with the reception of packets, and of a client from its
    constructor to its cleanup, with the locking of the source.
  \<^item> \<open>Simple_Queue\<close> (\<^verbatim>\<open>core/SimpleQueue.h\<close> and the transceiver's blocking queue) and \<open>Message_Sampler\<close>
    (\<^verbatim>\<open>core/MessageSampler.c\<close>): the auxiliary queues and the stream sampler.
  \<^item> \<open>Programs\<close> (the hex dump and the queue test of \<^verbatim>\<open>core/debug.cpp\<close>, \<^verbatim>\<open>core/Logger.h\<close>,
    \<^verbatim>\<open>test/s3tp_start.cpp\<close>), \<open>Debug_Tests\<close> (the other tests of \<^verbatim>\<open>core/debug.cpp\<close>), \<open>Test_Client\<close> (\<^verbatim>\<open>test/connector_main.cpp\<close>) and \<open>Ethernet\<close> (\<^verbatim>\<open>drivers/eth.c\<close>): the
    programs and helpers around the library.
  \<^item> \<open>Transceiver_Driver\<close> (\<^verbatim>\<open>drivers/move-transceiver\<close>): the transfer of a packet over the bus, the two threads of
    the driver and its C interface, as far as they are written.

  \<^bold>\<open>What is shown.\<close> Messages arrive complete, once and in order from application to application
  (\<open>application_to_application\<close>), whatever the order of the frames; when frames are lost, exactly the
  messages before the first incomplete one arrive (\<open>lossy_link_delivers_prefix\<close>). The messages of several ports,
  sent in any interleaving, reach each port in its own order (\<open>ports_are_kept_apart\<close>), and every frame handed to the link
  is well formed, with a checksum the receiver accepts (\<open>sent_frames_well_formed\<close>). The transmission module keeps
  a first-in first-out discipline per port and never interleaves fragments; every module keeps its
  invariant and does not fault on the inputs named in the theorems; refusals return their codes and
  change nothing; the peers agree after a synchronization; the port bookkeeping of the running daemon is
  consistent in every reachable state. The thread of the transmission module does, undisturbed, what the
  function of one pass does (\<open>undisturbed_thread_is_iteration\<close>), and neither it nor the assembly thread can
  sleep through the request to stop. Where the code does not do what it means to, a theorem states what
  it does: messages of more than two fragments, sequence numbers that wrap around inside a message,
  announcements that outlive their packets, failing clients, mutexes taken in two orders, waits that are
  not repeated, signals without the mutex that are missed, a client that ends while it is registered,
  destructors that never end.

  \<^bold>\<open>Bounds.\<close> Messages of at most 1984 bytes, two fragments, are the ones the code can split without reading
  beyond its buffer. At most 256 packets wait per port, since positions are compared in eight bits. Less
  than 128 packets are in flight, the receiving window. No fuel is used: loops are total functions with
  a measure, or partial functions for which termination is shown (\<open>rx_assemble\<close>, the searches and the
  clearing of the linked queue) or refuted (the loop of the destructor, \<open>s3tp_kill_loop\<close>). The queue test is
  the exception: its loop over at most three elements has five steps.

  \<^bold>\<open>Parameters.\<close> The link, the SPI device and the pin of the transceiver, the results and bytes of socket calls, the functions given to the sampler and the
  contents of uninitialised memory are arguments. So are names the sources use without declaring them: the packet
  wrapper of the tests in \<^verbatim>\<open>core/debug.cpp\<close>, the events, the interrupt handler and the checksum of the transceiver.

  \<^bold>\<open>Not modelled.\<close> Outside \<open>Lock_Order\<close> and the theories of the threads a method is one atomic step. In the
  theories of the threads, a method that only reads or writes a member under its own mutex is one
  instruction, and the calls into a module that is not part of the machine at hand are one step. Of
  \<^verbatim>\<open>core/debug.cpp\<close>, \<^verbatim>\<open>txModuleTest\<close> and \<^verbatim>\<open>daemonTest\<close>, which only start threads, sleep and stop them, are left out, of the
  transceiver what is announced in comments only. The functions commented out in \<^verbatim>\<open>core/utilities.cpp\<close> are no code. Memory that is
  not freed is not tracked, except for the nodes of the queues.
\<close>

section \<open>End to end\<close>

text \<open>Messages of at most 1984 bytes given to a sender with an idle link reach the receiver: every send
  succeeds, the transmission thread hands all packets to the link, and when their frames arrive in
  any order at a receiver that expects the sender's next numbers, as many calls as there were
  messages return exactly these messages, in the order in which they were sent, with their lengths
  and the port.\<close>

theorem end_to_end_delivery:
  assumes sender: "can_send channel p s" "\<forall>q. tx_view (s_tx s) q = []" "\<not> sendingFragments (s_tx s)"
      "clear_way link (s_tx s)" "\<forall>d \<in> set ds. length d \<le> 1984"
    and receiver: "rx_ok r" "rx_active r" "open_ports r p \<noteq> None" "rx_view r p = []" "available_messages r = Map.empty"
    and agree: "at0 (current_port_sequence r) p = at0 (port_sequence (s_tx s)) p"
      "to_consume_global_seq r = global_seq_num (s_tx s)"
    and room: "unat (at0 (port_sequence (s_tx s)) p) + 2 * length ds \<le> 256"
      "unat (receiving_window r) + 2 * length ds < 128"
  shows "\<exists>s' sent t'. send_all g channel p opts ds s = Inr (replicate (length ds) 0, s') \<and>
    tx_iterations link (waiting (s_tx s')) (s_tx s') = Inr (sent, t') \<and>
    (\<forall>ys. mset ys = mset sent \<longrightarrow>
      (\<exists>r1 msgs r2. rx_feed (map (\<lambda>x. (opt x, f_channel (frame_for x), f_data (frame_for x))) ys) r = Inr r1 \<and>
        rx_consume (length ds) r1 = Some (Inr (msgs, r2)) \<and> rx_ok r2 \<and> map msg_data msgs = map Some ds \<and>
        map msg_len msgs = map (\<lambda>d. of_nat (length d)) ds \<and> (\<forall>m \<in> set msgs. msg_error m = 0 \<and> msg_port m = p)))"
proof -
  have "2 * length ds \<le> 256" using room(1) by simp
  from sender_phase [OF sender this, of g opts] obtain s' mss sent t' where
    s: "send_all g channel p opts ds s = Inr (replicate (length ds) 0, s')"
      "tx_iterations link (waiting (s_tx s')) (s_tx s') = Inr (sent, t')"
    and sent: "packets_for (at0 (port_sequence (s_tx s)) p) p channel opts ds mss" "sent_copies (global_seq_num (s_tx s)) mss sent"
    by blast
  note arrived = receiver_phase [OF receiver, unfolded agree, OF sent room]
  show ?thesis using s arrived by blast
qed

theorem end_to_end_delivery_witness:
  "\<exists>t s' sent t' r1 msgs r2. send_all (\<lambda>_. example_packet []) 3 5 1 [[1, 2, 3], replicate 1500 7] (example_s3tp t) =
      Inr ([0, 0], s') \<and> tx_iterations example_link (waiting (s_tx s')) (s_tx s') = Inr (sent, t') \<and>
    rx_feed (map (\<lambda>x. (0, f_channel (frame_for x), f_data (frame_for x))) (rev sent)) example_rx = Inr r1 \<and>
    rx_consume 2 r1 = Some (Inr (msgs, r2)) \<and> map msg_data msgs = [Some [1, 2, 3], Some (replicate 1500 7)]"
proof -
  from example_can_send obtain t where t: "can_send 3 5 (example_s3tp t)" "\<forall>p. tx_view t p = []" "at0 (port_sequence t) 5 = 0"
    "\<not> sendingFragments t" "channel_blacklist t = {}" "global_seq_num t = 0" by blast
  have e: "s_tx (example_s3tp t) = t" by (simp add: example_s3tp_def)
  have c: "clear_way example_link t" using t(5) by (simp add: clear_way_def example_link_def)
  define ds :: "u8 list list" where "ds = [[1, 2, 3], replicate 1500 7]"
  have ds: "\<forall>d \<in> set ds. length d \<le> 1984" "length ds = 2" by (simp_all add: ds_def)
  have "\<exists>s' sent t'. send_all (\<lambda>_. example_packet []) 3 5 1 ds (example_s3tp t) = Inr (replicate (length ds) 0, s') \<and>
    tx_iterations example_link (waiting (s_tx s')) (s_tx s') = Inr (sent, t') \<and>
    (\<forall>ys. mset ys = mset sent \<longrightarrow>
      (\<exists>r1 msgs r2. rx_feed (map (\<lambda>x. (0, f_channel (frame_for x), f_data (frame_for x))) ys) example_rx = Inr r1 \<and>
        rx_consume (length ds) r1 = Some (Inr (msgs, r2)) \<and> rx_ok r2 \<and> map msg_data msgs = map Some ds \<and>
        map msg_len msgs = map (\<lambda>d. of_nat (length d)) ds \<and> (\<forall>m \<in> set msgs. msg_error m = 0 \<and> msg_port m = 5)))"
    by (rule end_to_end_delivery [OF t(1) _ _ _ ds(1)])
       (simp_all add: e t(2-6) c example_rx_ok ds(2))
  then obtain s' sent t' where
    r: "send_all (\<lambda>_. example_packet []) 3 5 1 ds (example_s3tp t) = Inr (replicate (length ds) 0, s')"
    "tx_iterations example_link (waiting (s_tx s')) (s_tx s') = Inr (sent, t')"
    and f: "\<forall>ys. mset ys = mset sent \<longrightarrow>
      (\<exists>r1 msgs r2. rx_feed (map (\<lambda>x. (0, f_channel (frame_for x), f_data (frame_for x))) ys) example_rx = Inr r1 \<and>
        rx_consume (length ds) r1 = Some (Inr (msgs, r2)) \<and> rx_ok r2 \<and> map msg_data msgs = map Some ds \<and>
        map msg_len msgs = map (\<lambda>d. of_nat (length d)) ds \<and> (\<forall>m \<in> set msgs. msg_error m = 0 \<and> msg_port m = 5))" by blast
  from f [rule_format, of "rev sent"] obtain r1 msgs r2 where
    q: "rx_feed (map (\<lambda>x. (0, f_channel (frame_for x), f_data (frame_for x))) (rev sent)) example_rx = Inr r1"
    "rx_consume (length ds) r1 = Some (Inr (msgs, r2))" "map msg_data msgs = map Some ds" by auto
  have rep: "replicate (length ds) 0 = [0, 0 :: int]" unfolding ds(2) by (simp add: numeral_2_eq_2)
  have some: "map Some ds = [Some [1, 2, 3], Some (replicate 1500 7)]" unfolding ds_def by simp
  show ?thesis
    by (intro exI conjI) (rule r(1) [unfolded rep, unfolded ds_def] r(2) q(1) q(2) [unfolded ds(2)] q(3) [unfolded some])+
qed

section \<open>From the application into the queue\<close>

text \<open>An application that sends a message of one to 1984 bytes through the connector: when the protocol
  object can send on the client's channel and the port has room, the client thread of the daemon
  queues exactly this message, split into one or two numbered fragments with their checksums, behind
  what already waits on the port, and the call in the application returns the number of bytes written.
  Nothing but the transmission module changes in the daemon.\<close>

theorem application_send_is_queued:
  assumes "cn_connected c" "\<not> s3tpBufferFull c" "connected cli" "client_if cli" "0 < w1" "0 < w2" "0 < w3"
    and "can_send (virtual_channel cli) (app_port cli) s" "length (tx_view (s_tx s) (app_port cli)) + 2 \<le> 256"
    and "length msg \<le> 1984"
    and "daemon_reads (snd (cn_send_start w1 w2 w3 msg (length msg) c)) bss inp" "0 \<le> in_w1 inp" "0 < in_w2 inp"
  shows "\<exists>t' xs ops. client_iteration (onApplicationMessage g cli) inp cli s =
      Inr (Continues, ops, [], cli, s\<lparr>s_tx := t'\<rparr>) \<and>
    tx_view t' = (tx_view (s_tx s))(app_port cli := tx_view (s_tx s) (app_port cli) @ xs) \<and>
    message_packets (at0 (port_sequence (s_tx s)) (app_port cli)) (app_port cli) (virtual_channel cli)
      (Client_Session.options cli) msg xs \<and>
    (\<forall>linp. listener_reads ops [] linp \<longrightarrow>
      (\<exists>c'. asyncListener_pass linp c = (Continues, [NotifyAll], c') \<and>
        fst (cn_send_wake w1 w2 w3 msg (length msg) c' (WaitingAnswer w3)) = Returned (to_int32 w3)))"
proof -
  have "length msg < 2 ^ 64" using assms(10) by simp
  moreover have "listener_ready cli (length msg) s" using assms(8-10) by (simp add: listener_ready_def)
  ultimately obtain s' ops where r: "listener_took cli msg s s'"
    "client_iteration (onApplicationMessage g cli) inp cli s = Inr (Continues, ops, [], cli, s')"
    "\<forall>linp. listener_reads ops [] linp \<longrightarrow>
      (\<exists>c'. asyncListener_pass linp c = (Continues, [NotifyAll], c') \<and>
        fst (cn_send_wake w1 w2 w3 msg (length msg) c' (WaitingAnswer w3)) = Returned (to_int32 w3))"
    using s3tp_listener.connector_send_taken [OF assms(1-7) _ _ assms(11-13), of cli s g] by blast
  from r(1) obtain t' xs where t': "s' = s\<lparr>s_tx := t'\<rparr>"
    "tx_view t' = (tx_view (s_tx s))(app_port cli := tx_view (s_tx s) (app_port cli) @ xs)"
    "message_packets (at0 (port_sequence (s_tx s)) (app_port cli)) (app_port cli) (virtual_channel cli)
      (Client_Session.options cli) msg xs" unfolding listener_took_def by blast
  show ?thesis using r(2,3) t' by blast
qed

theorem application_send_is_queued_witness:
  "\<exists>t t' xs ops. client_iteration (onApplicationMessage (\<lambda>_. example_packet []) example_client)
      \<lparr>in_type_rd = 1, in_len_rd = 24, in_len = [3, 3, 3], in_reads = [ReadBytes [1, 2], ReadBytes [3]], in_w1 = 1, in_w2 = 2\<rparr>
      example_client (example_s3tp t) = Inr (Continues, ops, [], example_client, (example_s3tp t)\<lparr>s_tx := t'\<rparr>) \<and>
    tx_view t' 5 = xs \<and> message_packets 0 5 3 0 [1, 2, 3] xs"
proof -
  let ?inp = "\<lparr>in_type_rd = 1, in_len_rd = 24, in_len = [3, 3, 3], in_reads = [ReadBytes [1, 2], ReadBytes [3]], in_w1 = 1, in_w2 = 2\<rparr>"
  from example_can_send obtain t where t: "can_send 3 5 (example_s3tp t)" "\<forall>p. tx_view t p = []"
    "at0 (port_sequence t) 5 = 0" by blast
  have e: "s_tx (example_s3tp t) = t" by (simp add: example_s3tp_def)
  have "daemon_reads (snd (cn_send_start 1 24 3 [1, 2, 3] (length [1, 2, 3 :: u8]) example_connector)) [[1, 2], [3]] ?inp"
    by (simp add: cn_send_start_def send_attempt_ok in_pieces_def)
  from application_send_is_queued [OF _ _ _ _ _ _ _ _ _ _ this, of example_client "example_s3tp t" "\<lambda>_. example_packet []"] t e
  obtain t' xs ops where "client_iteration (onApplicationMessage (\<lambda>_. example_packet []) example_client) ?inp example_client
      (example_s3tp t) = Inr (Continues, ops, [], example_client, (example_s3tp t)\<lparr>s_tx := t'\<rparr>)"
    "tx_view t' = (tx_view t)(5 := tx_view t 5 @ xs)" "message_packets 0 5 3 0 [1, 2, 3] xs" by auto
  with t(2) show ?thesis by (intro exI [of _ t] exI [of _ t'] exI [of _ xs] exI [of _ ops]) simp
qed

section \<open>Synchronization between peers\<close>



end
